(* ===== verification/Routing_Prelude.thy ===== *)
theory Routing_Prelude
  imports Main "HOL-Library.Word"
begin

unbundle bit_operations_syntax

section \<open>Shared vocabulary of the development\<close>

text \<open>
  What every component theory uses: the errors the C++ code can raise and a result type for
  them, the pieces of the C++ standard library the routing sources rely on (vector access and
  erasure, sorting with a comparator, ordered maps), the strict linear orders the comparators
  have to be, and the record of operations that come from the libraries the sources are built
  against (maidsafe-common, maidsafe-passport), which are parameters of the model.
\<close>

named_theorems result_simps \<open>rewriting of the result type\<close>
named_theorems smap_simps \<open>rewriting of ordered maps\<close>

subsection \<open>Errors and results\<close>

text \<open>
  \<open>assertion_failed\<close> is a failing \<^verbatim>\<open>assert\<close> in a build without \<^verbatim>\<open>NDEBUG\<close>,
  \<open>undefined_behaviour\<close> a step for which C++ gives no meaning (dereferencing an end iterator
  or a null pointer), \<open>out_of_range\<close> what \<^verbatim>\<open>std::vector::at\<close> throws; the others are the
  \<^verbatim>\<open>CommonErrors\<close> that the sources throw by name, and \<open>library_error\<close> is an exception that a
  library the sources are built against throws and the sources do not look at.
\<close>

datatype error =
    assertion_failed
  | undefined_behaviour
  | out_of_range
  | invalid_identity
  | invalid_argument
  | parsing_error
  | uninitialised
  | library_error

type_synonym 'x result = "error + 'x"

definition bindR :: "'x result \<Rightarrow> ('x \<Rightarrow> 'y result) \<Rightarrow> 'y result" where
  "bindR m f = (case m of Inl e \<Rightarrow> Inl e | Inr x \<Rightarrow> f x)"

definition cpp_assert :: "bool \<Rightarrow> bool \<Rightarrow> unit result" where
  "cpp_assert ndebug b = (if ndebug \<or> b then Inr () else Inl assertion_failed)"

lemma bindR_simps [simp, result_simps]:
  "bindR (Inl e) f = Inl e"
  "bindR (Inr x) f = f x"
  by (simp_all add: bindR_def)

lemma cpp_assert_True [simp, result_simps]: "cpp_assert nd True = Inr ()"
  by (simp add: cpp_assert_def)

lemma bindR_eq_Inr [result_simps]: "bindR m f = Inr y \<longleftrightarrow> (\<exists>x. m = Inr x \<and> f x = Inr y)"
  by (auto simp: bindR_def split: sum.splits)

lemma bindR_Inr_right: "bindR m Inr = m"
  by (simp add: bindR_def split: sum.splits)

lemma bindR_cong [fundef_cong]:
  "m = m' \<Longrightarrow> (\<And>x. m' = Inr x \<Longrightarrow> f x = f' x) \<Longrightarrow> bindR m f = bindR m' f'"
  by (auto simp: bindR_def split: sum.splits)

lemma fails_iffI:
  "(P \<Longrightarrow> \<exists>r. m = Inr r) \<Longrightarrow> (\<not> P \<Longrightarrow> \<exists>e. m = Inl e) \<Longrightarrow> (\<exists>e. m = Inl e) = (\<not> P)"
  by (cases P) auto

subsection \<open>Vectors\<close>

definition vector_at :: "'x list \<Rightarrow> nat \<Rightarrow> 'x result" where
  "vector_at xs i = (if i < length xs then Inr (xs ! i) else Inl out_of_range)"

definition erase_at :: "nat \<Rightarrow> 'x list \<Rightarrow> 'x list" where
  "erase_at i xs = take i xs @ drop (Suc i) xs"

lemma vector_at_Inr [simp, result_simps]: "i < length xs \<Longrightarrow> vector_at xs i = Inr (xs ! i)"
  by (simp add: vector_at_def)

lemma length_erase_at [simp]: "i < length xs \<Longrightarrow> length (erase_at i xs) = length xs - 1"
  by (auto simp: erase_at_def)

lemma take_erase_at [simp]: "n \<le> i \<Longrightarrow> take n (erase_at i xs) = take n xs"
  by (cases "i \<le> length xs") (auto simp: erase_at_def min_def)

lemma set_erase_at_subset: "set (erase_at i xs) \<subseteq> set xs"
  by (auto simp: erase_at_def dest: in_set_takeD in_set_dropD)

lemma set_erase_at:
  assumes "i < length xs" "distinct (map key xs)"
  shows "set (erase_at i xs) = {x \<in> set xs. key x \<noteq> key (xs ! i)}"
proof -
  have xs: "xs = take i xs @ xs ! i # drop (Suc i) xs"
    using assms(1) by (rule id_take_nth_drop)
  have "distinct (map key (take i xs @ xs ! i # drop (Suc i) xs))"
    using assms(2) xs by simp
  then show ?thesis
    by (subst xs) (auto simp: erase_at_def image_iff)
qed

lemma set_erase_at_distinct:
  "i < length xs \<Longrightarrow> distinct xs \<Longrightarrow> set (erase_at i xs) = set xs - {xs ! i}"
  using set_erase_at [of i xs "\<lambda>x. x"] by auto

lemma sorted_wrt_erase_at:
  assumes "sorted_wrt P xs"
  shows "sorted_wrt P (erase_at i xs)"
proof -
  from assms have "sorted_wrt P (take i xs @ drop i xs)" by simp
  moreover have "set (drop (Suc i) xs) \<subseteq> set (drop i xs)"
    by (rule set_drop_subset_set_drop) simp
  ultimately show ?thesis
    using assms unfolding erase_at_def sorted_wrt_append
    by (auto simp: sorted_wrt_drop)
qed

lemma nth_in_erase_at: "i < c \<Longrightarrow> c < length xs \<Longrightarrow> xs ! i \<in> set (erase_at c xs)"
  by (metis length_take min_def less_imp_le not_less nth_mem nth_take erase_at_def UnI1 set_append)

lemma two_in_filter:
  "1 < length (filter P xs) \<longleftrightarrow> (\<exists>p q. p < q \<and> q < length xs \<and> P (xs ! p) \<and> P (xs ! q))"
proof -
  let ?I = "{i. i < length xs \<and> P (xs ! i)}"
  have "1 < length (filter P xs) \<longleftrightarrow> \<not> card ?I \<le> Suc 0" by (simp add: length_filter_conv_card not_le)
  also have "\<dots> \<longleftrightarrow> (\<exists>p \<in> ?I. \<exists>q \<in> ?I. p \<noteq> q)" by (subst card_le_Suc0_iff_eq) auto
  also have "\<dots> \<longleftrightarrow> (\<exists>p q. p < q \<and> q < length xs \<and> P (xs ! p) \<and> P (xs ! q))"
    by (auto simp: nat_neq_iff) (metis less_trans)+
  finally show ?thesis .
qed

lemma distinct_nth_notin_take:
  assumes "distinct xs" "n \<le> i" "i < length xs"
  shows "xs ! i \<notin> set (take n xs)"
  using assms by (auto simp: in_set_conv_nth nth_eq_iff_index_eq)

end
