(* ===== verification/Ordered_Containers.thy ===== *)
theory Ordered_Containers
  imports Routing_Prelude
begin

section \<open>Sorting and ordered maps with a comparator\<close>

text \<open>
  The routing sources order contacts by closeness to an address, with \<^verbatim>\<open>std::sort\<close>,
  \<^verbatim>\<open>std::partial_sort\<close> and \<^verbatim>\<open>std::map\<close> taking the comparator as an argument. The
  operations below take it as the argument \<open>lt\<close>. The locale \<open>strict_linear_order\<close> is the
  interface between a comparator and the containers: what a comparator has to satisfy, and
  what the containers guarantee for it. A container element is compared through its key.
\<close>

subsection \<open>The operations\<close>

fun insort_by :: "('x \<Rightarrow> 'x \<Rightarrow> bool) \<Rightarrow> 'x \<Rightarrow> 'x list \<Rightarrow> 'x list" where
  "insort_by lt x [] = [x]"
| "insort_by lt x (y # ys) = (if lt y x then y # insort_by lt x ys else x # y # ys)"

fun std_sort :: "('x \<Rightarrow> 'x \<Rightarrow> bool) \<Rightarrow> 'x list \<Rightarrow> 'x list" where
  "std_sort lt [] = []"
| "std_sort lt (x # xs) = insort_by lt x (std_sort lt xs)"

text \<open>
  \<^verbatim>\<open>std::partial_sort\<close> leaves the elements behind the sorted prefix in an unspecified order,
  so the model keeps the prefix only.
\<close>

definition partial_sort_prefix :: "('x \<Rightarrow> 'x \<Rightarrow> bool) \<Rightarrow> nat \<Rightarrow> 'x list \<Rightarrow> 'x list" where
  "partial_sort_prefix lt k xs = take k (std_sort lt xs)"

definition ordered_by :: "('k \<Rightarrow> 'k \<Rightarrow> bool) \<Rightarrow> ('x \<Rightarrow> 'k) \<Rightarrow> 'x list \<Rightarrow> bool" where
  "ordered_by lt key xs = sorted_wrt (\<lambda>x y. lt (key x) (key y)) xs"

text \<open>
  \<^verbatim>\<open>std::map\<close> is the list of its key-value pairs in iteration order. Two keys are the same for
  the map when neither is less than the other.
\<close>

type_synonym ('k, 'v) smap = "('k \<times> 'v) list"

definition equiv_keys :: "('k \<Rightarrow> 'k \<Rightarrow> bool) \<Rightarrow> 'k \<Rightarrow> 'k \<Rightarrow> bool" where
  "equiv_keys lt a b = (\<not> lt a b \<and> \<not> lt b a)"

fun smap_find :: "('k \<Rightarrow> 'k \<Rightarrow> bool) \<Rightarrow> 'k \<Rightarrow> ('k, 'v) smap \<Rightarrow> 'v option" where
  "smap_find lt k [] = None"
| "smap_find lt k ((k', v') # m) = (if equiv_keys lt k k' then Some v' else smap_find lt k m)"

text \<open>\<^verbatim>\<open>insert\<close> keeps the value of a key that is already there.\<close>

fun smap_insert :: "('k \<Rightarrow> 'k \<Rightarrow> bool) \<Rightarrow> 'k \<Rightarrow> 'v \<Rightarrow> ('k, 'v) smap \<Rightarrow> ('k, 'v) smap" where
  "smap_insert lt k v [] = [(k, v)]"
| "smap_insert lt k v ((k', v') # m) =
     (if lt k k' then (k, v) # (k', v') # m
      else if lt k' k then (k', v') # smap_insert lt k v m
      else (k', v') # m)"

text \<open>\<^verbatim>\<open>m[k] = v\<close> replaces it.\<close>

fun smap_assign :: "('k \<Rightarrow> 'k \<Rightarrow> bool) \<Rightarrow> 'k \<Rightarrow> 'v \<Rightarrow> ('k, 'v) smap \<Rightarrow> ('k, 'v) smap" where
  "smap_assign lt k v [] = [(k, v)]"
| "smap_assign lt k v ((k', v') # m) =
     (if lt k k' then (k, v) # (k', v') # m
      else if lt k' k then (k', v') # smap_assign lt k v m
      else (k', v) # m)"

definition smap_erase :: "('k \<Rightarrow> 'k \<Rightarrow> bool) \<Rightarrow> 'k \<Rightarrow> ('k, 'v) smap \<Rightarrow> ('k, 'v) smap" where
  "smap_erase lt k m = filter (\<lambda>(k', v'). \<not> equiv_keys lt k k') m"

text \<open>\<^verbatim>\<open>std::distance(m.begin(), m.upper_bound(k))\<close>\<close>

definition smap_upper_rank :: "('k \<Rightarrow> 'k \<Rightarrow> bool) \<Rightarrow> 'k \<Rightarrow> ('k, 'v) smap \<Rightarrow> nat" where
  "smap_upper_rank lt k m = length (takeWhile (\<lambda>(k', v'). \<not> lt k k') m)"

definition smap_wf :: "('k \<Rightarrow> 'k \<Rightarrow> bool) \<Rightarrow> ('k, 'v) smap \<Rightarrow> bool" where
  "smap_wf lt m = ordered_by lt fst m"

subsection \<open>Facts that need nothing of the comparator\<close>

lemma length_insort_by [simp]: "length (insort_by lt x xs) = Suc (length xs)"
  by (induction xs) auto

lemma set_insort_by [simp]: "set (insort_by lt x xs) = insert x (set xs)"
  by (induction xs) auto

lemma length_std_sort [simp]: "length (std_sort lt xs) = length xs"
  by (induction xs) auto

lemma set_std_sort [simp]: "set (std_sort lt xs) = set xs"
  by (induction xs) auto

lemma distinct_insort_by [simp]:
  "distinct (map key (insort_by lt x xs)) \<longleftrightarrow> key x \<notin> key ` set xs \<and> distinct (map key xs)"
  by (induction xs) auto

lemma distinct_std_sort [simp]: "distinct (map key (std_sort lt xs)) \<longleftrightarrow> distinct (map key xs)"
  by (induction xs) auto

lemma set_take_insort_by: "set (take n xs) \<subseteq> set (take (Suc n) (insort_by lt x xs))"
proof (induction xs arbitrary: n)
  case (Cons y ys)
  then show ?case by (cases n) (auto dest: in_set_takeD)
qed simp

lemma map_insort_by: "map f (insort_by (\<lambda>i j. lt (f i) (f j)) x xs) = insort_by lt (f x) (map f xs)"
  by (induction xs) auto

text \<open>Sorting iterators by what they point at, then following them, is sorting the elements.\<close>

lemma map_std_sort: "map f (std_sort (\<lambda>i j. lt (f i) (f j)) xs) = std_sort lt (map f xs)"
  by (induction xs) (auto simp: map_insort_by)

lemma ordered_by_simps [simp]:
  "ordered_by lt key []"
  "ordered_by lt key (x # xs) \<longleftrightarrow> (\<forall>y \<in> set xs. lt (key x) (key y)) \<and> ordered_by lt key xs"
  by (simp_all add: ordered_by_def)

lemma ordered_by_append:
  "ordered_by lt key (xs @ ys) \<longleftrightarrow>
     ordered_by lt key xs \<and> ordered_by lt key ys \<and> (\<forall>x \<in> set xs. \<forall>y \<in> set ys. lt (key x) (key y))"
  by (auto simp: ordered_by_def sorted_wrt_append)

lemma ordered_by_filter: "ordered_by lt key xs \<Longrightarrow> ordered_by lt key (filter P xs)"
  by (simp add: ordered_by_def sorted_wrt_filter)

lemma ordered_by_take: "ordered_by lt key xs \<Longrightarrow> ordered_by lt key (take n xs)"
  by (simp add: ordered_by_def sorted_wrt_take)

lemma ordered_by_erase_at: "ordered_by lt key xs \<Longrightarrow> ordered_by lt key (erase_at i xs)"
  by (simp add: ordered_by_def sorted_wrt_erase_at)

lemma ordered_by_nth_less:
  "ordered_by lt key xs \<Longrightarrow> i < j \<Longrightarrow> j < length xs \<Longrightarrow> lt (key (xs ! i)) (key (xs ! j))"
  unfolding ordered_by_def by (rule sorted_wrt_nth_less)

lemma ordered_by_take_drop:
  assumes "ordered_by lt key xs" "x \<in> set (take n xs)" "y \<in> set (drop n xs)"
  shows "lt (key x) (key y)"
proof -
  from assms(1) have "ordered_by lt key (take n xs @ drop n xs)" by simp
  then have "\<forall>x \<in> set (take n xs). \<forall>y \<in> set (drop n xs). lt (key x) (key y)"
    unfolding ordered_by_append by blast
  with assms(2,3) show ?thesis by blast
qed


subsection \<open>Strict linear orders\<close>

locale strict_linear_order =
  fixes lt :: "'k \<Rightarrow> 'k \<Rightarrow> bool"
  assumes lt_irrefl: "\<not> lt a a"
    and lt_trans: "lt a b \<Longrightarrow> lt b c \<Longrightarrow> lt a c"
    and lt_total: "a \<noteq> b \<Longrightarrow> lt a b \<or> lt b a"
begin

lemma lt_asym: "lt a b \<Longrightarrow> \<not> lt b a"
  using lt_irrefl lt_trans by blast

lemma lt_neq: "lt a b \<Longrightarrow> a \<noteq> b"
  using lt_irrefl by blast

lemma not_lt_iff: "\<not> lt a b \<longleftrightarrow> a = b \<or> lt b a"
  using lt_irrefl lt_total lt_asym by blast

lemma equiv_keys_eq [simp]: "equiv_keys lt a b \<longleftrightarrow> a = b"
  using lt_total lt_irrefl by (auto simp: equiv_keys_def)

lemma ordered_by_distinct: "ordered_by lt key xs \<Longrightarrow> distinct (map key xs)"
  by (induction xs) (auto dest: lt_neq)

lemma ordered_by_distinct_elems: "ordered_by lt key xs \<Longrightarrow> distinct xs"
  using ordered_by_distinct distinct_map by blast

lemma ordered_by_insort:
  assumes "ordered_by lt key xs" "key x \<notin> key ` set xs"
  shows "ordered_by lt key (insort_by (\<lambda>a b. lt (key a) (key b)) x xs)"
  using assms
proof (induction xs)
  case Nil
  then show ?case by simp
next
  case (Cons y ys)
  show ?case
  proof (cases "lt (key y) (key x)")
    case True
    with Cons show ?thesis by auto
  next
    case False
    with Cons.prems have "lt (key x) (key y)" by (auto simp: not_lt_iff)
    with Cons.prems False show ?thesis by (auto intro: lt_trans)
  qed
qed

lemma ordered_by_std_sort:
  "distinct (map key xs) \<Longrightarrow> ordered_by lt key (std_sort (\<lambda>a b. lt (key a) (key b)) xs)"
  by (induction xs) (auto intro!: ordered_by_insort)

text \<open>Any sorting algorithm gives this list: the order leaves no choice.\<close>

lemma ordered_by_unique:
  assumes "ordered_by lt key xs" "ordered_by lt key ys" "set xs = set ys"
  shows "xs = ys"
  using assms
proof (induction xs arbitrary: ys)
  case Nil
  then show ?case by simp
next
  case (Cons x xs)
  then obtain y ys' where ys: "ys = y # ys'" by (cases ys) auto
  have "x = y"
  proof (rule ccontr)
    assume "x \<noteq> y"
    with Cons.prems ys have "x \<in> set ys'" "y \<in> set xs" by auto
    with Cons.prems ys have "lt (key y) (key x)" "lt (key x) (key y)" by auto
    then show False using lt_asym by blast
  qed
  moreover have "set xs = set ys'"
    using Cons.prems ys \<open>x = y\<close> ordered_by_distinct_elems [of key "x # xs"]
      ordered_by_distinct_elems [of key "y # ys'"] by auto
  ultimately show ?case
    using Cons ys by auto
qed

lemma std_sort_ordered:
  "ordered_by lt key xs \<Longrightarrow> std_sort (\<lambda>a b. lt (key a) (key b)) xs = xs"
  by (rule ordered_by_unique [of key]) (auto intro: ordered_by_std_sort ordered_by_distinct)

lemma std_sort_snoc:
  assumes "ordered_by lt key xs" "key x \<notin> key ` set xs"
  shows "std_sort (\<lambda>a b. lt (key a) (key b)) (xs @ [x]) = insort_by (\<lambda>a b. lt (key a) (key b)) x xs"
proof (rule ordered_by_unique)
  show "ordered_by lt key (std_sort (\<lambda>a b. lt (key a) (key b)) (xs @ [x]))"
    using assms by (intro ordered_by_std_sort) (auto dest: ordered_by_distinct)
  show "ordered_by lt key (insort_by (\<lambda>a b. lt (key a) (key b)) x xs)"
    using assms by (rule ordered_by_insort)
qed auto

text \<open>The first element of a sorted list has the least key.\<close>

lemma hd_std_sort_least:
  assumes "distinct (map key xs)" "x \<in> set xs"
  shows "key (hd (std_sort (\<lambda>a b. lt (key a) (key b)) xs)) = key x
    \<or> lt (key (hd (std_sort (\<lambda>a b. lt (key a) (key b)) xs))) (key x)"
proof -
  let ?ys = "std_sort (\<lambda>a b. lt (key a) (key b)) xs"
  have "ordered_by lt key ?ys" using assms(1) by (rule ordered_by_std_sort)
  moreover have "x \<in> set ?ys" using assms(2) by simp
  ultimately show ?thesis by (cases ?ys) auto
qed

text \<open>Where an insertion lands, relative to the first \<open>n\<close> elements.\<close>

lemma take_insort_far:
  assumes "ordered_by lt key xs" "n < length xs" "lt (key (xs ! n)) (key x)"
  shows "take n (insort_by (\<lambda>a b. lt (key a) (key b)) x xs) = take n xs"
  using assms
proof (induction xs arbitrary: n)
  case Nil
  then show ?case by simp
next
  case (Cons y ys)
  show ?case
  proof (cases n)
    case 0
    then show ?thesis by simp
  next
    case (Suc m)
    with Cons.prems have "lt (key y) (key (ys ! m))" by simp
    with Cons.prems Suc have "lt (key y) (key x)" by (auto intro: lt_trans)
    with Cons Suc show ?thesis by simp
  qed
qed

lemma insort_in_take:
  assumes "ordered_by lt key xs" "n < length xs" "lt (key x) (key (xs ! n))"
  shows "x \<in> set (take (Suc n) (insort_by (\<lambda>a b. lt (key a) (key b)) x xs))"
  using assms
proof (induction xs arbitrary: n)
  case Nil
  then show ?case by simp
next
  case (Cons y ys)
  show ?case
  proof (cases n)
    case 0
    with Cons.prems lt_asym show ?thesis by auto
  next
    case (Suc m)
    with Cons show ?thesis by auto
  qed
qed

subsubsection \<open>Maps\<close>

lemma smap_find_map_of [smap_simps]: "smap_find lt k m = map_of m k"
  by (induction m) auto

lemma set_smap_insert:
  "smap_wf lt m \<Longrightarrow> set (smap_insert lt k v m) =
     (if map_of m k = None then insert (k, v) (set m) else set m)"
proof (induction m)
  case Nil
  then show ?case by simp
next
  case (Cons p m)
  obtain k' v' where p: "p = (k', v')" by (cases p)
  from Cons.prems p have wf: "smap_wf lt m" and less: "\<And>q. q \<in> set m \<Longrightarrow> lt k' (fst q)"
    by (auto simp: smap_wf_def)
  consider (lt) "lt k k'" | (eq) "k = k'" | (gt) "lt k' k" using lt_total by blast
  then show ?case
  proof cases
    case lt
    then have "k \<noteq> k'" by (rule lt_neq)
    moreover have "k \<notin> fst ` set m" using lt less lt_asym by fastforce
    ultimately show ?thesis using p lt by (auto simp: map_of_eq_None_iff)
  next
    case eq
    then show ?thesis using p lt_irrefl by auto
  next
    case gt
    then have "\<not> lt k k'" "k \<noteq> k'" using lt_asym lt_neq by blast+
    then show ?thesis using p gt Cons.IH [OF wf] by auto
  qed
qed

lemma smap_wf_distinct: "smap_wf lt m \<Longrightarrow> distinct (map fst m)"
  unfolding smap_wf_def by (rule ordered_by_distinct)

lemma smap_wf_Nil [simp]: "smap_wf lt []"
  by (simp add: smap_wf_def)

lemma smap_wf_insert [smap_simps]: "smap_wf lt m \<Longrightarrow> smap_wf lt (smap_insert lt k v m)"
proof (induction m)
  case Nil
  then show ?case by (simp add: smap_wf_def)
next
  case (Cons p m)
  obtain k' v' where p: "p = (k', v')" by (cases p)
  from Cons.prems p have wf: "smap_wf lt m" and less: "\<And>q. q \<in> set m \<Longrightarrow> lt k' (fst q)"
    by (auto simp: smap_wf_def)
  have keys: "lt k' (fst q)" if "lt k' k" "q \<in> set (smap_insert lt k v m)" for q
  proof -
    have "q = (k, v) \<or> q \<in> set m"
      using that(2) set_smap_insert [OF wf, of k v] by (auto split: if_splits)
    then show ?thesis using that(1) less by (metis fst_conv)
  qed
  have trans: "lt k (fst q)" if "lt k k'" "q \<in> set m" for q
    using that less lt_trans by blast
  show ?case
    using Cons.IH [OF wf] less wf keys trans unfolding p smap_wf_def by auto
qed

lemma map_of_smap_insert [smap_simps]:
  assumes "smap_wf lt m"
  shows "map_of (smap_insert lt k v m) = (if map_of m k = None then (map_of m)(k \<mapsto> v) else map_of m)"
proof (rule ext)
  fix x
  have d: "distinct (map fst m)" "distinct (map fst (smap_insert lt k v m))"
    using assms by (auto intro: smap_wf_distinct smap_wf_insert)
  have "map_of (smap_insert lt k v m) x = Some y \<longleftrightarrow>
      (if map_of m k = None then (map_of m)(k \<mapsto> v) else map_of m) x = Some y" for y
    using d set_smap_insert [OF assms, of k v]
    by (auto simp: map_of_eq_Some_iff map_of_eq_None_iff image_iff split: if_splits)
  then show "map_of (smap_insert lt k v m) x =
      (if map_of m k = None then (map_of m)(k \<mapsto> v) else map_of m) x"
    by (metis option.exhaust)
qed

lemma length_smap_insert [smap_simps]:
  assumes "smap_wf lt m"
  shows "length (smap_insert lt k v m) = (if map_of m k = None then Suc (length m) else length m)"
proof -
  have l: "length m = card (set m)" "length (smap_insert lt k v m) = card (set (smap_insert lt k v m))"
    using smap_wf_distinct [OF assms] smap_wf_distinct [OF smap_wf_insert [OF assms]]
    by (simp_all add: distinct_map distinct_card)
  have "(k, v) \<notin> set m" if "map_of m k = None"
    using that by (metis fst_conv image_eqI map_of_eq_None_iff)
  then show ?thesis
    using l set_smap_insert [OF assms, of k v] by simp
qed

lemma smap_wf_erase [smap_simps]: "smap_wf lt m \<Longrightarrow> smap_wf lt (smap_erase lt k m)"
  by (simp add: smap_wf_def smap_erase_def ordered_by_filter)

lemma set_smap_erase: "set (smap_erase lt k m) = {p \<in> set m. fst p \<noteq> k}"
  by (auto simp: smap_erase_def)

lemma map_of_smap_erase [smap_simps]: "map_of (smap_erase lt k m) = (map_of m)(k := None)"
  by (induction m) (auto simp: smap_erase_def fun_eq_iff)

lemma length_smap_erase_le: "length (smap_erase lt k m) \<le> length m"
  by (simp add: smap_erase_def)

lemma length_smap_erase [smap_simps]:
  assumes "smap_wf lt m" "map_of m k \<noteq> None"
  shows "Suc (length (smap_erase lt k m)) = length m"
proof -
  have d: "distinct (map fst m)" using assms(1) by (rule smap_wf_distinct)
  from assms(2) have "k \<in> fst ` set m" by (simp add: map_of_eq_None_iff)
  then have "k \<in> set (map fst m)" by simp
  moreover have "map fst (smap_erase lt k m) = removeAll k (map fst m)"
    by (induction m) (auto simp: smap_erase_def)
  then have "map fst (smap_erase lt k m) = remove1 k (map fst m)"
    using d by (simp add: distinct_remove1_removeAll)
  then have "length (smap_erase lt k m) = length (remove1 k (map fst m))"
    by (metis length_map)
  moreover have "0 < length m"
    using calculation(1) by (cases m) auto
  ultimately show ?thesis
    by (simp add: length_remove1)
qed

lemma map_of_smap_assign [smap_simps]:
  "smap_wf lt m \<Longrightarrow> map_of (smap_assign lt k v m) = (map_of m)(k \<mapsto> v)"
  by (induction m) (auto simp: smap_wf_def not_lt_iff lt_irrefl fun_eq_iff dest: lt_neq)

lemma keys_smap_assign:
  "smap_wf lt m \<Longrightarrow> fst ` set (smap_assign lt k v m) = insert k (fst ` set m)"
  by (simp flip: dom_map_of_conv_image_fst add: map_of_smap_assign)

lemma smap_wf_assign [smap_simps]: "smap_wf lt m \<Longrightarrow> smap_wf lt (smap_assign lt k v m)"
proof (induction m)
  case Nil
  then show ?case by (simp add: smap_wf_def)
next
  case (Cons p m)
  obtain k' v' where p: "p = (k', v')" by (cases p)
  from Cons.prems p have wf: "smap_wf lt m" and less: "\<And>q. q \<in> set m \<Longrightarrow> lt k' (fst q)"
    by (auto simp: smap_wf_def)
  have keys: "lt k' (fst q)" if "lt k' k" "q \<in> set (smap_assign lt k v m)" for q
  proof -
    have "fst q \<in> insert k (fst ` set m)"
      using that(2) keys_smap_assign [OF wf, of k v] by blast
    then show ?thesis using that(1) less by auto
  qed
  have trans: "lt k (fst q)" if "lt k k'" "q \<in> set m" for q
    using that less lt_trans by blast
  show ?case
    using Cons.IH [OF wf] less wf keys trans unfolding p smap_wf_def by auto
qed

text \<open>The rank of a key counts the keys that are not beyond it.\<close>

lemma smap_upper_rank_card:
  "smap_wf lt m \<Longrightarrow> smap_upper_rank lt k m = card {k' \<in> fst ` set m. k' = k \<or> lt k' k}"
proof (induction m)
  case Nil
  then show ?case by (simp add: smap_upper_rank_def)
next
  case (Cons p m)
  obtain k' v' where p: "p = (k', v')" by (cases p)
  from Cons.prems p have wf: "smap_wf lt m" and less: "\<And>q. q \<in> set m \<Longrightarrow> lt k' (fst q)"
    by (auto simp: smap_wf_def)
  let ?S = "{x \<in> fst ` set m. x = k \<or> lt x k}"
  show ?case
  proof (cases "lt k k'")
    case True
    have "\<not> (x = k \<or> lt x k)" if "x \<in> fst ` set (p # m)" for x
    proof -
      from that less p have "x = k' \<or> lt k' x" by auto
      with True have "lt k x" using lt_trans by blast
      then show ?thesis using lt_asym lt_irrefl by blast
    qed
    then have "{x \<in> fst ` set (p # m). x = k \<or> lt x k} = {}" by blast
    then show ?thesis using True p by (simp add: smap_upper_rank_def)
  next
    case False
    then have "{x \<in> fst ` set (p # m). x = k \<or> lt x k} = insert k' ?S"
      by (auto simp: p not_lt_iff)
    moreover have "k' \<notin> ?S" using less lt_irrefl by fastforce
    ultimately show ?thesis
      using False Cons.IH [OF wf] p by (simp add: smap_upper_rank_def)
  qed
qed

lemma smap_upper_rank_nth:
  assumes "smap_wf lt m" "i < length m"
  shows "smap_upper_rank lt (fst (m ! i)) m = Suc i"
proof -
  have "takeWhile (\<lambda>(k', v'). \<not> lt (fst (m ! i)) k') m = take (Suc i) m"
  proof (rule takeWhile_eq_take_P_nth)
    fix j assume "j < Suc i" "j < length m"
    then show "case m ! j of (k', v') \<Rightarrow> \<not> lt (fst (m ! i)) k'"
      using ordered_by_nth_less [of lt fst m j i] assms lt_irrefl lt_asym
      by (cases "j = i") (auto simp: smap_wf_def split: prod.splits)
  next
    assume "Suc i < length m"
    then show "\<not> (case m ! Suc i of (k', v') \<Rightarrow> \<not> lt (fst (m ! i)) k')"
      using ordered_by_nth_less [of lt fst m i "Suc i"] assms
      by (auto simp: smap_wf_def split: prod.splits)
  qed
  then show ?thesis using assms(2) by (simp add: smap_upper_rank_def)
qed

end

text \<open>The default comparator \<^verbatim>\<open>std::less\<close> on a type with a linear order.\<close>

interpretation std_less: strict_linear_order "(<) :: 'k::linorder \<Rightarrow> 'k \<Rightarrow> bool"
  by unfold_locales auto

lemma smap_insert_end: "(\<And>k. k \<in> fst ` set m \<Longrightarrow> k < i) \<Longrightarrow> smap_insert (<) (i :: _ :: linorder) v m = m @ [(i, v)]"
  by (induction m) (auto simp: not_less order.strict_iff_not)

subsection \<open>Comparison of tuples and optional values\<close>

text \<open>
  \<^verbatim>\<open>std::tie(a, b) < std::tie(c, d)\<close> compares the first components and, where neither is
  less, the second ones; \<^verbatim>\<open>boost::optional\<close> puts the empty value first.
\<close>

fun lex_less :: "('x \<Rightarrow> 'x \<Rightarrow> bool) \<Rightarrow> ('y \<Rightarrow> 'y \<Rightarrow> bool) \<Rightarrow> 'x \<times> 'y \<Rightarrow> 'x \<times> 'y \<Rightarrow> bool" where
  "lex_less lt1 lt2 (a, b) (c, d) = (lt1 a c \<or> (\<not> lt1 c a \<and> lt2 b d))"

fun opt_less :: "('x \<Rightarrow> 'x \<Rightarrow> bool) \<Rightarrow> 'x option \<Rightarrow> 'x option \<Rightarrow> bool" where
  "opt_less lt x None = False"
| "opt_less lt None (Some y) = True"
| "opt_less lt (Some x) (Some y) = lt x y"

lemma lex_less_order [intro]:
  assumes "strict_linear_order lt1" "strict_linear_order lt2"
  shows "strict_linear_order (lex_less lt1 lt2)"
proof -
  note o1 = assms(1) [unfolded strict_linear_order_def]
  note o2 = assms(2) [unfolded strict_linear_order_def]
  show ?thesis
  proof
    fix a :: "'a \<times> 'b" show "\<not> lex_less lt1 lt2 a a"
      using o1 o2 by (cases a) auto
  next
    fix a b c :: "'a \<times> 'b"
    assume "lex_less lt1 lt2 a b" "lex_less lt1 lt2 b c"
    then show "lex_less lt1 lt2 a c"
      by (cases a; cases b; cases c; simp) (use o1 o2 in metis)
  next
    fix a b :: "'a \<times> 'b"
    assume "a \<noteq> b"
    then show "lex_less lt1 lt2 a b \<or> lex_less lt1 lt2 b a"
      by (cases a; cases b; simp) (use o1 o2 in metis)
  qed
qed

lemma opt_less_order [intro]:
  assumes "strict_linear_order lt"
  shows "strict_linear_order (opt_less lt)"
proof -
  note o = assms [unfolded strict_linear_order_def]
  show ?thesis
  proof
    fix a :: "'a option" show "\<not> opt_less lt a a"
      using o by (cases a) auto
  next
    fix a b c :: "'a option"
    assume "opt_less lt a b" "opt_less lt b c"
    then show "opt_less lt a c"
      by (cases a; cases b; cases c; simp) (use o in metis)
  next
    fix a b :: "'a option"
    assume "a \<noteq> b"
    then show "opt_less lt a b \<or> opt_less lt b a"
      by (cases a; cases b; simp) (use o in metis)
  qed
qed

lemma key_order:
  assumes "strict_linear_order lt" "inj key"
  shows "strict_linear_order (\<lambda>x y. lt (key x) (key y))"
  using assms unfolding strict_linear_order_def inj_def by metis

lemma less_order [intro, simp]: "strict_linear_order ((<) :: 'k::linorder \<Rightarrow> 'k \<Rightarrow> bool)"
  by (rule std_less.strict_linear_order_axioms)

end
