(* ===== verification/Routing_Types.thy ===== *)
theory Routing_Types
  imports Ordered_Containers
begin

section \<open>Addresses, contacts and the constants of the network\<close>

text \<open>
  Models \<^verbatim>\<open>include/maidsafe/routing/types.h\<close>, \<^verbatim>\<open>node_info.h\<close>, \<^verbatim>\<open>endpoint_pair.h\<close>,
  \<^verbatim>\<open>contact.h\<close> and \<^verbatim>\<open>source_address.h\<close>. The classes that come from maidsafe-common and
  maidsafe-passport are type variables: \<open>'a\<close> is \<^verbatim>\<open>Identity\<close> (an address; the tagged
  addresses are all this type), \<open>'f\<close> is \<^verbatim>\<open>passport::PublicPmid\<close>, \<open>'k\<close> is
  \<^verbatim>\<open>asymm::PublicKey\<close>, \<open>'e\<close> is \<^verbatim>\<open>asio::ip::udp::endpoint\<close>. Their operations are the
  fields of the record \<open>lib\<close>, which every definition that uses one of them takes as an
  argument, together with the build setting \<^verbatim>\<open>NDEBUG\<close>.
\<close>

subsection \<open>Constants and enumerations of types.h\<close>

definition GroupSize :: nat where
  "GroupSize = 23"

definition QuorumSize :: nat where
  "QuorumSize = 19"

datatype FromType =
  ft_client_manager | ft_nae_manager | ft_node_manager | ft_managed_client | ft_remote_client
  | ft_managed_node | ft_node

datatype Authority =
  client_manager | nae_manager | node_manager | managed_node | node | client

text \<open>
  The aliases. \<^verbatim>\<open>boost::expected\<close> is a sum with the error on the left, \<^verbatim>\<open>boost::variant\<close> a sum
  of its alternatives; \<open>'x\<close> is \<^verbatim>\<open>maidsafe_error\<close>. A callback that is only called, such as
  \<^verbatim>\<open>SendGetClientKey\<close>, is the list of the arguments it was called with.
\<close>

type_synonym MessageId = "32 word"
type_synonym byte = "8 word"
type_synonym SerialisedMessage = "byte list"
type_synonym Port = "16 word"
type_synonym 'a DestinationAddress = "'a \<times> 'a option"
type_synonym 'a FilterType = "'a \<times> MessageId"
type_synonym 'a CloseGroupDifference = "'a list \<times> 'a list"
type_synonym ('a, 'k) PublicKeyId = "'a \<times> 'k"
type_synonym ('a, 'x) HandleGetReturn = "'x + ('a DestinationAddress list + byte list)"
type_synonym ('a, 'x) HandlePutPostReturn = "'x + 'a DestinationAddress list"
type_synonym ('a, 'x) HandlePostReturn = "'x + ('a DestinationAddress list \<times> byte list)"

text \<open>The enumerators of \<^verbatim>\<open>Authority\<close> compare as their \<^verbatim>\<open>int32_t\<close> values.\<close>

fun authority_value :: "Authority \<Rightarrow> int" where
  "authority_value client_manager = 0"
| "authority_value nae_manager = 1"
| "authority_value node_manager = 2"
| "authority_value managed_node = 3"
| "authority_value node = 4"
| "authority_value client = 5"

lemma inj_authority_value: "inj authority_value"
proof (rule injI)
  fix x y assume "authority_value x = authority_value y"
  then show "x = y" by (cases x; cases y) simp_all
qed

instantiation Authority :: linorder
begin

definition less_eq_Authority :: "Authority \<Rightarrow> Authority \<Rightarrow> bool" where
  "less_eq_Authority x y \<longleftrightarrow> authority_value x \<le> authority_value y"

definition less_Authority :: "Authority \<Rightarrow> Authority \<Rightarrow> bool" where
  "less_Authority x y \<longleftrightarrow> authority_value x < authority_value y"

instance
  by standard (use inj_authority_value in
      \<open>auto simp: less_eq_Authority_def less_Authority_def inj_eq\<close>)

end

subsection \<open>The libraries the sources are built against\<close>

record ('a, 'f, 'k) lib =
  NDEBUG :: bool
  IsInitialised :: "'a \<Rightarrow> bool"
  CloserToTarget :: "'a \<Rightarrow> 'a \<Rightarrow> 'a \<Rightarrow> bool"
  CommonLeadingBits :: "'a \<Rightarrow> 'a \<Rightarrow> int"
  fob_name :: "'f \<Rightarrow> 'a"
  fob_public_key :: "'f \<Rightarrow> 'k"
  ValidateKey :: "'k \<Rightarrow> bool"

text \<open>
  What the routing sources rely on. \<open>CloserToTarget lhs rhs target\<close> compares exclusive-or
  distances to \<open>target\<close>: for a fixed target it is a strict linear order. An address that
  shares more leading bits with the target than another is the closer one.
  \<open>CommonLeadingBits\<close> of two different 512-bit addresses lies between 0 and 511.
\<close>

definition closer_order :: "('a, 'f, 'k, 'z) lib_scheme \<Rightarrow> bool" where
  "closer_order L \<longleftrightarrow> (\<forall>t. strict_linear_order (\<lambda>x y. CloserToTarget L x y t))"

definition leading_bits_closer :: "('a, 'f, 'k, 'z) lib_scheme \<Rightarrow> bool" where
  "leading_bits_closer L \<longleftrightarrow>
     (\<forall>t x y. CommonLeadingBits L t y < CommonLeadingBits L t x \<longrightarrow> CloserToTarget L x y t)"

definition leading_bits_range :: "('a, 'f, 'k, 'z) lib_scheme \<Rightarrow> bool" where
  "leading_bits_range L \<longleftrightarrow>
     (\<forall>t x. x \<noteq> t \<longrightarrow> 0 \<le> CommonLeadingBits L t x \<and> CommonLeadingBits L t x < 512)"

subsection \<open>NodeInfo, EndpointPair, Contact, SourceAddress\<close>

record ('a, 'f) NodeInfo =
  ni_id :: 'a
  dht_fob :: 'f
  connected :: bool

definition NodeInfo_new :: "'a \<Rightarrow> 'f \<Rightarrow> bool \<Rightarrow> ('a, 'f) NodeInfo" where
  "NodeInfo_new id_in dht_fob_in connected_in =
     \<lparr>ni_id = id_in, dht_fob = dht_fob_in, connected = connected_in\<rparr>"

text \<open>The default constructor, given the default values of \<^verbatim>\<open>Address\<close> and \<^verbatim>\<open>PublicPmid\<close>.\<close>

definition NodeInfo_default :: "'a \<Rightarrow> 'f \<Rightarrow> ('a, 'f) NodeInfo" where
  "NodeInfo_default no_id no_fob = \<lparr>ni_id = no_id, dht_fob = no_fob, connected = False\<rparr>"

text \<open>Two contacts are equal, or ordered, by their addresses alone.\<close>

definition NodeInfo_eq :: "('a, 'f) NodeInfo \<Rightarrow> ('a, 'f) NodeInfo \<Rightarrow> bool" where
  "NodeInfo_eq x y = (ni_id x = ni_id y)"

definition NodeInfo_neq :: "('a, 'f) NodeInfo \<Rightarrow> ('a, 'f) NodeInfo \<Rightarrow> bool" where
  "NodeInfo_neq x y = (ni_id x \<noteq> ni_id y)"

definition NodeInfo_less :: "('a::linorder, 'f) NodeInfo \<Rightarrow> ('a, 'f) NodeInfo \<Rightarrow> bool" where
  "NodeInfo_less x y = (ni_id x < ni_id y)"

definition NodeInfo_greater :: "('a::linorder, 'f) NodeInfo \<Rightarrow> ('a, 'f) NodeInfo \<Rightarrow> bool" where
  "NodeInfo_greater x y = (ni_id x > ni_id y)"

definition NodeInfo_le :: "('a::linorder, 'f) NodeInfo \<Rightarrow> ('a, 'f) NodeInfo \<Rightarrow> bool" where
  "NodeInfo_le x y = (ni_id x \<le> ni_id y)"

definition NodeInfo_ge :: "('a::linorder, 'f) NodeInfo \<Rightarrow> ('a, 'f) NodeInfo \<Rightarrow> bool" where
  "NodeInfo_ge x y = (ni_id x \<ge> ni_id y)"

lemmas NodeInfo_operators = NodeInfo_eq_def NodeInfo_neq_def NodeInfo_less_def NodeInfo_greater_def
  NodeInfo_le_def NodeInfo_ge_def

text \<open>
  The six operators agree with each other, as those of an ordered type do. They are not those of
  the struct: contacts with one address and different keys are equal for them.
\<close>

lemma NodeInfo_operators_agree:
  "NodeInfo_neq x y \<longleftrightarrow> \<not> NodeInfo_eq x y"
  "NodeInfo_greater x y \<longleftrightarrow> NodeInfo_less y x"
  "NodeInfo_le x y \<longleftrightarrow> NodeInfo_less x y \<or> NodeInfo_eq x y"
  "NodeInfo_ge x y \<longleftrightarrow> \<not> NodeInfo_less x y"
  by (auto simp: NodeInfo_operators)

lemma NodeInfo_eq_not_identity:
  "NodeInfo_eq (NodeInfo_new a f c) (NodeInfo_new a g d)"
  "NodeInfo_new a f c = NodeInfo_new a g d \<longleftrightarrow> f = g \<and> c = d"
  by (simp_all add: NodeInfo_operators NodeInfo_new_def)

record 'e EndpointPair =
  ep_local :: 'e
  ep_external :: 'e

definition EndpointPair_new :: "'e \<Rightarrow> 'e \<Rightarrow> 'e EndpointPair" where
  "EndpointPair_new local_in external_in = \<lparr>ep_local = local_in, ep_external = external_in\<rparr>"

definition EndpointPair_eq :: "'e EndpointPair \<Rightarrow> 'e EndpointPair \<Rightarrow> bool" where
  "EndpointPair_eq lhs rhs \<longleftrightarrow> ep_local lhs = ep_local rhs \<and> ep_external lhs = ep_external rhs"

definition EndpointPair_both :: "'e \<Rightarrow> 'e EndpointPair" where
  "EndpointPair_both both = \<lparr>ep_local = both, ep_external = both\<rparr>"

lemma EndpointPair_eq_iff: "EndpointPair_eq lhs rhs \<longleftrightarrow> lhs = rhs"
  by (auto simp: EndpointPair_eq_def)

lemma EndpointPair_both_new: "EndpointPair_both both = EndpointPair_new both both"
  by (simp add: EndpointPair_both_def EndpointPair_new_def)

record ('a, 'e, 'k) Contact =
  contact_id :: 'a
  endpoint_pair :: "'e EndpointPair"
  contact_public_key :: 'k

definition Contact_both :: "'a \<Rightarrow> 'e \<Rightarrow> 'k \<Rightarrow> ('a, 'e, 'k) Contact" where
  "Contact_both node_id both key =
     \<lparr>contact_id = node_id, endpoint_pair = EndpointPair_both both, contact_public_key = key\<rparr>"

definition Contact_new :: "'a \<Rightarrow> 'e EndpointPair \<Rightarrow> 'k \<Rightarrow> ('a, 'e, 'k) Contact" where
  "Contact_new node_id endpoint_pair_in key =
     \<lparr>contact_id = node_id, endpoint_pair = endpoint_pair_in, contact_public_key = key\<rparr>"

lemma Contact_both_new: "Contact_both node_id both key = Contact_new node_id (EndpointPair_both both) key"
  by (simp add: Contact_both_def Contact_new_def)

text \<open>
  What a debug build prints for an endpoint pair and for a contact. How an endpoint and an address
  are printed is up to their libraries. The key of a contact is not printed.
\<close>

definition EndpointPair_text :: "('e \<Rightarrow> string) \<Rightarrow> 'e EndpointPair \<Rightarrow> string" where
  "EndpointPair_text endpoint_text ep =
     ''(local: '' @ endpoint_text (ep_local ep) @ ''; external: '' @ endpoint_text (ep_external ep) @ '')''"

definition Contact_text ::
  "('a \<Rightarrow> string) \<Rightarrow> ('e \<Rightarrow> string) \<Rightarrow> ('a, 'e, 'k) Contact \<Rightarrow> string" where
  "Contact_text id_text endpoint_text c =
     ''(Contact '' @ id_text (contact_id c) @ '' '' @ EndpointPair_text endpoint_text (endpoint_pair c) @ '')''"

record 'a SourceAddress =
  node_address :: 'a
  group_address :: "'a option"
  reply_to_address :: "'a option"

definition SourceAddress_new :: "'a \<Rightarrow> 'a option \<Rightarrow> 'a option \<Rightarrow> 'a SourceAddress" where
  "SourceAddress_new node_address_in group_address_in reply_to_address_in =
     \<lparr>node_address = node_address_in, group_address = group_address_in,
      reply_to_address = reply_to_address_in\<rparr>"

definition SourceAddress_default :: "'a \<Rightarrow> 'a SourceAddress" where
  "SourceAddress_default no_id =
     \<lparr>node_address = no_id, group_address = None, reply_to_address = None\<rparr>"

definition SourceAddress_eq :: "'a SourceAddress \<Rightarrow> 'a SourceAddress \<Rightarrow> bool" where
  "SourceAddress_eq lhs rhs \<longleftrightarrow> node_address lhs = node_address rhs \<and>
     group_address lhs = group_address rhs \<and> reply_to_address lhs = reply_to_address rhs"

definition SourceAddress_neq :: "'a SourceAddress \<Rightarrow> 'a SourceAddress \<Rightarrow> bool" where
  "SourceAddress_neq lhs rhs = (\<not> SourceAddress_eq lhs rhs)"

definition SourceAddress_tie :: "'a SourceAddress \<Rightarrow> 'a \<times> 'a option \<times> 'a option" where
  "SourceAddress_tie s = (node_address s, group_address s, reply_to_address s)"

definition SourceAddress_less :: "'a::linorder SourceAddress \<Rightarrow> 'a SourceAddress \<Rightarrow> bool" where
  "SourceAddress_less lhs rhs =
     lex_less (<) (lex_less (opt_less (<)) (opt_less (<))) (SourceAddress_tie lhs) (SourceAddress_tie rhs)"

definition SourceAddress_greater :: "'a::linorder SourceAddress \<Rightarrow> 'a SourceAddress \<Rightarrow> bool" where
  "SourceAddress_greater lhs rhs = SourceAddress_less rhs lhs"

definition SourceAddress_le :: "'a::linorder SourceAddress \<Rightarrow> 'a SourceAddress \<Rightarrow> bool" where
  "SourceAddress_le lhs rhs = (\<not> SourceAddress_greater lhs rhs)"

definition SourceAddress_ge :: "'a::linorder SourceAddress \<Rightarrow> 'a SourceAddress \<Rightarrow> bool" where
  "SourceAddress_ge lhs rhs = (\<not> SourceAddress_less lhs rhs)"

lemma inj_SourceAddress_tie: "inj SourceAddress_tie"
  by (rule injI) (simp add: SourceAddress_tie_def)

lemma SourceAddress_eq_iff: "SourceAddress_eq lhs rhs \<longleftrightarrow> lhs = rhs"
  by (auto simp: SourceAddress_eq_def)

lemmas plain_constructors [simp] = NodeInfo_new_def EndpointPair_new_def Contact_new_def SourceAddress_new_def

interpretation source_order:
  strict_linear_order "SourceAddress_less :: 'a::linorder SourceAddress \<Rightarrow> _"
  unfolding SourceAddress_less_def
  by (rule key_order [OF _ inj_SourceAddress_tie]) (intro lex_less_order opt_less_order less_order)

subsection \<open>The exclusive-or address space\<close>

text \<open>
  The address space of the network: 64-byte addresses read as 512-bit numbers, with the
  exclusive-or distance. It satisfies what is assumed of the libraries, so the theorems that
  assume it apply to it.
\<close>

fun bit_width :: "nat \<Rightarrow> nat" where
  "bit_width n = (if n = 0 then 0 else Suc (bit_width (n div 2)))"

declare bit_width.simps [simp del]

definition xor_lib :: "bool \<Rightarrow> (512 word, 512 word, 512 word) lib" where
  "xor_lib nd = \<lparr>NDEBUG = nd, IsInitialised = (\<lambda>_. True),
     CloserToTarget = (\<lambda>x y t. (x XOR t) < (y XOR t)),
     CommonLeadingBits = (\<lambda>t x. 512 - int (bit_width (unat (t XOR x)))),
     fob_name = (\<lambda>f. f), fob_public_key = (\<lambda>f. f), ValidateKey = (\<lambda>_. True)\<rparr>"

lemma bit_width_mono: "m \<le> n \<Longrightarrow> bit_width m \<le> bit_width n"
proof (induction m arbitrary: n rule: bit_width.induct)
  case (1 m)
  show ?case
  proof (cases "m = 0")
    case True
    then show ?thesis by (simp add: bit_width.simps [of 0])
  next
    case False
    with "1.prems" have "n \<noteq> 0" "m div 2 \<le> n div 2" by auto
    with False "1.IH" show ?thesis
      by (simp add: bit_width.simps [of m] bit_width.simps [of n])
  qed
qed

lemma bit_width_less: "n < 2 ^ w \<Longrightarrow> bit_width n \<le> w"
proof (induction w arbitrary: n)
  case 0
  then show ?case by (simp add: bit_width.simps)
next
  case (Suc w)
  then have "n div 2 < 2 ^ w" by auto
  with Suc.IH show ?case by (subst bit_width.simps) auto
qed

lemma bit_width_pos: "0 < n \<Longrightarrow> 0 < bit_width n"
  by (subst bit_width.simps) simp

lemma xor_eq_iff: "(x XOR t = y XOR t) = (x = (y :: 'w::len word))"
proof
  assume "x XOR t = y XOR t"
  then have "(x XOR t) XOR t = (y XOR t) XOR t" by simp
  then show "x = y" by (simp add: xor.assoc)
qed simp

lemma xor_lib_closer_order: "closer_order (xor_lib nd)"
proof -
  have "strict_linear_order (\<lambda>x y. (x XOR t) < (y XOR (t :: 512 word)))" for t
    by (rule key_order [OF less_order]) (simp add: inj_def xor_eq_iff)
  then show ?thesis by (simp add: closer_order_def xor_lib_def)
qed

lemma xor_lib_leading_bits_closer: "leading_bits_closer (xor_lib nd)"
proof -
  have "(x XOR t) < (y XOR t)"
    if "bit_width (unat (t XOR x)) < bit_width (unat (t XOR y))" for t x y :: "512 word"
  proof -
    have "unat (t XOR x) < unat (t XOR y)"
      using that bit_width_mono [of "unat (t XOR y)" "unat (t XOR x)"] by linarith
    then show ?thesis by (simp add: word_less_nat_alt xor.commute)
  qed
  then show ?thesis by (simp add: leading_bits_closer_def xor_lib_def)
qed

lemma xor_lib_leading_bits_range: "leading_bits_range (xor_lib nd)"
proof -
  have "0 < bit_width (unat (t XOR x))" "bit_width (unat (t XOR x)) \<le> 512"
    if "x \<noteq> t" for t x :: "512 word"
  proof -
    have "t XOR x \<noteq> 0"
      using that xor_eq_iff [of t x x] by simp
    then show "0 < bit_width (unat (t XOR x))" by (intro bit_width_pos) (simp add: unat_gt_0)
    show "bit_width (unat (t XOR x)) \<le> 512"
      by (rule bit_width_less) (use unsigned_less [of "t XOR x", where ?'a = nat] in simp)
  qed
  then show ?thesis by (simp add: leading_bits_range_def xor_lib_def)
qed

lemmas xor_lib_laws = xor_lib_closer_order xor_lib_leading_bits_closer xor_lib_leading_bits_range

end
