(* ===== verification/Routing_Table.thy ===== *)
theory Routing_Table
  imports Routing_Types
begin

section \<open>The routing table\<close>

text \<open>
  Models \<^verbatim>\<open>src/maidsafe/routing/routing_table.h\<close> and \<^verbatim>\<open>routing_table.cc\<close>: the contacts a
  node keeps, ordered by closeness to its own address. The first \<open>GroupSize\<close> of them are its
  close group. An iterator into \<^verbatim>\<open>nodes_\<close> is the index it points at, the end iterator the
  length; a reverse iterator is its offset from the back. Every public operation holds the
  mutex while it reads or changes \<^verbatim>\<open>nodes_\<close>, so operations are modelled as atomic. The exception is
  \<open>CheckNode\<close>, which looks for a duplicate before it takes the mutex: \<open>CheckNode_interleaved\<close> is its
  run with another operation in between.
\<close>

subsection \<open>State and operations\<close>

definition BucketSize :: nat where
  "BucketSize = 1"

definition Parallelism :: nat where
  "Parallelism = 4"

definition OptimalSize :: nat where
  "OptimalSize = 64"

record ('a, 'f) RoutingTable =
  rt_our_id :: 'a
  rt_nodes :: "('a, 'f) NodeInfo list"

definition RoutingTable_new :: "('a, 'f, 'k) lib \<Rightarrow> 'a \<Rightarrow> ('a, 'f) RoutingTable result" where
  "RoutingTable_new L our_id =
     bindR (cpp_assert (NDEBUG L) (IsInitialised L our_id))
       (\<lambda>_. Inr \<lparr>rt_our_id = our_id, rt_nodes = []\<rparr>)"

definition Validate_id :: "('a, 'f, 'k) lib \<Rightarrow> 'a \<Rightarrow> unit result" where
  "Validate_id L a =
     bindR (cpp_assert (NDEBUG L) (IsInitialised L a))
       (\<lambda>_. if \<not> IsInitialised L a then Inl invalid_identity else Inr ())"

definition Comparison :: "('a, 'f, 'k) lib \<Rightarrow> 'a \<Rightarrow> ('a, 'f) NodeInfo \<Rightarrow> ('a, 'f) NodeInfo \<Rightarrow> bool" where
  "Comparison L t lhs rhs = CloserToTarget L (ni_id lhs) (ni_id rhs) t"

definition HaveNode :: "('a, 'f) RoutingTable \<Rightarrow> 'a \<Rightarrow> bool" where
  "HaveNode rt their_id = list_ex (\<lambda>n. ni_id n = their_id) (rt_nodes rt)"

definition BucketIndex :: "('a, 'f, 'k) lib \<Rightarrow> ('a, 'f) RoutingTable \<Rightarrow> 'a \<Rightarrow> int result" where
  "BucketIndex L rt a =
     bindR (cpp_assert (NDEBUG L) (a \<noteq> rt_our_id rt)) (\<lambda>_. Inr (CommonLeadingBits L (rt_our_id rt) a))"

definition PushBackThenSort ::
  "('a, 'f, 'k) lib \<Rightarrow> ('a, 'f) RoutingTable \<Rightarrow> ('a, 'f) NodeInfo \<Rightarrow> ('a, 'f) RoutingTable" where
  "PushBackThenSort L rt info =
     rt\<lparr>rt_nodes := std_sort (Comparison L (rt_our_id rt)) (rt_nodes rt @ [info])\<rparr>"

text \<open>
  The \<^verbatim>\<open>std::find_if\<close> of \<open>FindCandidateForRemoval\<close>, over the elements a reverse iterator
  visits, with the two variables its predicate updates. The result is the offset of the first
  element for which the predicate holds.
\<close>

fun scan_buckets ::
  "('a, 'f, 'k) lib \<Rightarrow> ('a, 'f) RoutingTable \<Rightarrow> nat \<Rightarrow> int \<Rightarrow> ('a, 'f) NodeInfo list \<Rightarrow> nat option result" where
  "scan_buckets L rt number_in_bucket bucket [] = Inr None"
| "scan_buckets L rt number_in_bucket bucket (n # ns) =
     bindR (BucketIndex L rt (ni_id n)) (\<lambda>b.
       let number = (if b \<noteq> bucket then 0 else number_in_bucket) + 1 in
       if number > BucketSize then Inr (Some 0)
       else bindR (scan_buckets L rt number b ns) (\<lambda>r. Inr (map_option Suc r)))"

text \<open>
  A reverse iterator at offset \<open>r\<close> has the base \<open>size - r\<close>: the element visited just before
  the one it points at.
\<close>

definition FindCandidateForRemoval :: "('a, 'f, 'k) lib \<Rightarrow> ('a, 'f) RoutingTable \<Rightarrow> nat result" where
  "FindCandidateForRemoval L rt =
     bindR (cpp_assert (NDEBUG L) (OptimalSize \<le> length (rt_nodes rt))) (\<lambda>_.
     if length (rt_nodes rt) < GroupSize then Inl undefined_behaviour
     else bindR (scan_buckets L rt 0 0 (rev (drop GroupSize (rt_nodes rt)))) (\<lambda>found.
       Inr (case found of None \<Rightarrow> length (rt_nodes rt) | Some r \<Rightarrow> length (rt_nodes rt) - r)))"

definition NewNodeIsBetterThanExisting ::
  "('a, 'f, 'k) lib \<Rightarrow> ('a, 'f) RoutingTable \<Rightarrow> 'a \<Rightarrow> nat \<Rightarrow> bool result" where
  "NewNodeIsBetterThanExisting L rt their_id removal_candidate =
     (if removal_candidate = length (rt_nodes rt) then Inr False
      else bindR (BucketIndex L rt their_id) (\<lambda>theirs.
           bindR (BucketIndex L rt (ni_id (rt_nodes rt ! removal_candidate))) (\<lambda>existing.
           Inr (theirs > existing))))"

definition AddNode ::
  "('a, 'f, 'k) lib \<Rightarrow> ('a, 'f) RoutingTable \<Rightarrow> ('a, 'f) NodeInfo \<Rightarrow>
     (('a, 'f) RoutingTable \<times> bool \<times> ('a, 'f) NodeInfo option) result" where
  "AddNode L rt info =
     bindR (Validate_id L (ni_id info)) (\<lambda>_.
     if ni_id info = rt_our_id rt \<or> \<not> ValidateKey L (fob_public_key L (dht_fob info))
       then Inr (rt, False, None)
     else if HaveNode rt (ni_id info) then Inr (rt, False, None)
     else if length (rt_nodes rt) < OptimalSize then Inr (PushBackThenSort L rt info, True, None)
     else bindR (vector_at (rt_nodes rt) GroupSize) (\<lambda>g.
       if CloserToTarget L (ni_id info) (ni_id g) (rt_our_id rt) then
         (let rt' = PushBackThenSort L rt info in
          bindR (FindCandidateForRemoval L rt') (\<lambda>c.
            if c = length (rt_nodes rt') then Inr (rt', True, None)
            else Inr (rt'\<lparr>rt_nodes := erase_at c (rt_nodes rt')\<rparr>, True, Some (rt_nodes rt' ! c))))
       else bindR (FindCandidateForRemoval L rt) (\<lambda>c.
            bindR (NewNodeIsBetterThanExisting L rt (ni_id info) c) (\<lambda>better.
              if better then
                Inr (PushBackThenSort L (rt\<lparr>rt_nodes := erase_at c (rt_nodes rt)\<rparr>) info, True,
                     Some (rt_nodes rt ! c))
              else Inr (rt, False, None)))))"

text \<open>The part of \<open>CheckNode\<close> under the mutex\<close>

definition CheckNode_locked :: "('a, 'f, 'k) lib \<Rightarrow> ('a, 'f) RoutingTable \<Rightarrow> 'a \<Rightarrow> bool result" where
  "CheckNode_locked L rt their_id =
     (if length (rt_nodes rt) < OptimalSize then Inr True
      else bindR (vector_at (rt_nodes rt) GroupSize) (\<lambda>g.
        if CloserToTarget L their_id (ni_id g) (rt_our_id rt) then Inr True
        else bindR (FindCandidateForRemoval L rt) (\<lambda>c. NewNodeIsBetterThanExisting L rt their_id c)))"

definition CheckNode :: "('a, 'f, 'k) lib \<Rightarrow> ('a, 'f) RoutingTable \<Rightarrow> 'a \<Rightarrow> bool result" where
  "CheckNode L rt their_id =
     bindR (Validate_id L their_id) (\<lambda>_.
     if their_id = rt_our_id rt then Inr False
     else if HaveNode rt their_id then Inr False
     else CheckNode_locked L rt their_id)"

text \<open>
  \<open>CheckNode\<close> when another thread has changed the table from \<open>rt\<close> to \<open>rt'\<close> by the time the mutex is
  taken. (A change in the middle of the duplicate check is a data race and has no meaning.)
\<close>

definition CheckNode_interleaved ::
  "('a, 'f, 'k) lib \<Rightarrow> ('a, 'f) RoutingTable \<Rightarrow> ('a, 'f) RoutingTable \<Rightarrow> 'a \<Rightarrow> bool result" where
  "CheckNode_interleaved L rt rt' their_id =
     bindR (Validate_id L their_id) (\<lambda>_.
     if their_id = rt_our_id rt then Inr False
     else if HaveNode rt their_id then Inr False
     else CheckNode_locked L rt' their_id)"

definition DropNode ::
  "('a, 'f, 'k) lib \<Rightarrow> ('a, 'f) RoutingTable \<Rightarrow> 'a \<Rightarrow> ('a, 'f) RoutingTable result" where
  "DropNode L rt node_to_drop =
     bindR (Validate_id L node_to_drop) (\<lambda>_.
       Inr (rt\<lparr>rt_nodes := filter (\<lambda>n. ni_id n \<noteq> node_to_drop) (rt_nodes rt)\<rparr>))"

definition TargetNodes ::
  "('a, 'f, 'k) lib \<Rightarrow> ('a, 'f) RoutingTable \<Rightarrow> 'a \<Rightarrow> ('a, 'f) NodeInfo list result" where
  "TargetNodes L rt target =
     bindR (Validate_id L target) (\<lambda>_.
     let nodes = rt_nodes rt;
         parallelism = min Parallelism (length nodes);
         our_close_group = filter (\<lambda>itr. itr < GroupSize) [0..<length nodes];
         closest_to_target = partial_sort_prefix
           (\<lambda>i j. Comparison L target (nodes ! i) (nodes ! j)) parallelism [0..<length nodes]
     in if nodes = [] then Inr []
        else if list_ex (\<lambda>group_itr. group_itr = hd closest_to_target) our_close_group
          then Inr (map ((!) nodes) our_close_group)
        else Inr (map ((!) nodes) closest_to_target))"

definition OurCloseGroup :: "('a, 'f) RoutingTable \<Rightarrow> ('a, 'f) NodeInfo list" where
  "OurCloseGroup rt = take (min GroupSize (length (rt_nodes rt))) (rt_nodes rt)"

text \<open>\<open>GetPublicKey\<close> asserts that the table is sorted (\<^verbatim>\<open>std::is_sorted\<close>: no element less than its predecessor).\<close>

definition is_sorted_by :: "('x \<Rightarrow> 'x \<Rightarrow> bool) \<Rightarrow> 'x list \<Rightarrow> bool" where
  "is_sorted_by lt xs = list_all (\<lambda>(x, y). \<not> lt y x) (zip xs (tl xs))"

definition GetPublicKey ::
  "('a, 'f, 'k) lib \<Rightarrow> ('a, 'f) RoutingTable \<Rightarrow> 'a \<Rightarrow> 'k option result" where
  "GetPublicKey L rt their_id =
     bindR (Validate_id L their_id) (\<lambda>_.
     bindR (cpp_assert (NDEBUG L) (is_sorted_by (Comparison L (rt_our_id rt)) (rt_nodes rt))) (\<lambda>_.
       Inr (map_option (\<lambda>n. fob_public_key L (dht_fob n))
              (find (\<lambda>n. ni_id n = their_id) (rt_nodes rt)))))"

definition Size :: "('a, 'f) RoutingTable \<Rightarrow> nat" where
  "Size rt = length (rt_nodes rt)"

subsection \<open>The invariant\<close>

definition rt_inv :: "('a, 'f, 'k) lib \<Rightarrow> ('a, 'f) RoutingTable \<Rightarrow> bool" where
  "rt_inv L rt \<longleftrightarrow>
     ordered_by (\<lambda>x y. CloserToTarget L x y (rt_our_id rt)) ni_id (rt_nodes rt) \<and>
     (\<forall>n \<in> set (rt_nodes rt). ni_id n \<noteq> rt_our_id rt \<and> IsInitialised L (ni_id n) \<and>
        ValidateKey L (fob_public_key L (dht_fob n)))"

text \<open>The bucket of a contact, where the assertion of \<open>BucketIndex\<close> holds.\<close>

definition bucket_of :: "('a, 'f, 'k) lib \<Rightarrow> 'a \<Rightarrow> ('a, 'f) NodeInfo \<Rightarrow> int" where
  "bucket_of L our n = CommonLeadingBits L our (ni_id n)"

text \<open>A contact that is not us, is not in the table yet and has a valid address and key.\<close>

definition fresh_contact :: "('a, 'f, 'k) lib \<Rightarrow> ('a, 'f) RoutingTable \<Rightarrow> ('a, 'f) NodeInfo \<Rightarrow> bool" where
  "fresh_contact L rt info \<longleftrightarrow> IsInitialised L (ni_id info) \<and> ni_id info \<noteq> rt_our_id rt \<and>
     ValidateKey L (fob_public_key L (dht_fob info)) \<and> \<not> HaveNode rt (ni_id info)"

definition insert_contact ::
  "('a, 'f, 'k) lib \<Rightarrow> ('a, 'f) RoutingTable \<Rightarrow> ('a, 'f) NodeInfo \<Rightarrow> ('a, 'f) NodeInfo list" where
  "insert_contact L rt info = insort_by (Comparison L (rt_our_id rt)) info (rt_nodes rt)"

subsection \<open>Lemmas about the helpers\<close>

lemma closer_orderD: "closer_order L \<Longrightarrow> strict_linear_order (\<lambda>x y. CloserToTarget L x y t)"
  by (simp add: closer_order_def)

lemma Comparison_eq: "Comparison L t = (\<lambda>x y. CloserToTarget L (ni_id x) (ni_id y) t)"
  by (intro ext) (simp add: Comparison_def)

lemma HaveNode_iff: "HaveNode rt a \<longleftrightarrow> a \<in> ni_id ` set (rt_nodes rt)"
  by (auto simp: HaveNode_def list_ex_iff)

lemma Validate_id_ok [simp]: "IsInitialised L a \<Longrightarrow> Validate_id L a = Inr ()"
  by (simp add: Validate_id_def)

lemma Validate_id_error:
  "\<not> IsInitialised L a \<Longrightarrow> Validate_id L a = Inl (if NDEBUG L then invalid_identity else assertion_failed)"
  by (simp add: Validate_id_def cpp_assert_def)

lemma BucketIndex_ok:
  "a \<noteq> rt_our_id rt \<Longrightarrow> BucketIndex L rt a = Inr (CommonLeadingBits L (rt_our_id rt) a)"
  by (simp add: BucketIndex_def)

text \<open>Sorting after a push is inserting at the right place.\<close>

lemma PushBackThenSort_insert:
  assumes "closer_order L" "rt_inv L rt" "\<not> HaveNode rt (ni_id info)"
  shows "PushBackThenSort L rt info = rt\<lparr>rt_nodes := insert_contact L rt info\<rparr>"
proof -
  have "std_sort (Comparison L (rt_our_id rt)) (rt_nodes rt @ [info]) = insert_contact L rt info"
    unfolding insert_contact_def Comparison_eq
    by (rule strict_linear_order.std_sort_snoc [OF closer_orderD [OF assms(1)]])
       (use assms in \<open>auto simp: rt_inv_def HaveNode_iff\<close>)
  then show ?thesis by (simp add: PushBackThenSort_def)
qed

lemma rt_inv_distinct:
  "closer_order L \<Longrightarrow> rt_inv L rt \<Longrightarrow> distinct (map ni_id (rt_nodes rt))"
  using strict_linear_order.ordered_by_distinct [OF closer_orderD] by (auto simp: rt_inv_def)

lemma rt_inv_insert:
  assumes "closer_order L" "rt_inv L rt" "fresh_contact L rt info"
  shows "rt_inv L (rt\<lparr>rt_nodes := insert_contact L rt info\<rparr>)"
  using assms strict_linear_order.ordered_by_insort [OF closer_orderD [OF assms(1)], of _ ni_id]
  by (auto simp: rt_inv_def insert_contact_def Comparison_eq fresh_contact_def HaveNode_iff)

lemma rt_inv_erase:
  "rt_inv L rt \<Longrightarrow> rt_inv L (rt\<lparr>rt_nodes := erase_at c (rt_nodes rt)\<rparr>)"
  using set_erase_at_subset [of c "rt_nodes rt"]
  by (auto simp: rt_inv_def ordered_by_erase_at)

lemma fresh_contact_erase:
  "fresh_contact L rt info \<Longrightarrow> fresh_contact L (rt\<lparr>rt_nodes := erase_at c (rt_nodes rt)\<rparr>) info"
  using set_erase_at_subset [of c "rt_nodes rt"] by (auto simp: fresh_contact_def HaveNode_iff)

subsubsection \<open>The candidate for removal\<close>

text \<open>The scan looks for the first contact in the same bucket as the one visited before it.\<close>

fun first_repeat :: "int \<Rightarrow> int list \<Rightarrow> nat option" where
  "first_repeat b [] = None"
| "first_repeat b (c # cs) = (if c = b then Some 0 else map_option Suc (first_repeat c cs))"

lemma first_repeat_Some:
  "first_repeat b cs = Some i \<Longrightarrow> i < length cs \<and> cs ! i = (b # cs) ! i \<and> (\<forall>j < i. cs ! j \<noteq> (b # cs) ! j)"
  by (induction b cs arbitrary: i rule: first_repeat.induct)
     (auto simp: less_Suc_eq_0_disj split: if_splits)

lemma first_repeat_None:
  "first_repeat b cs = None \<Longrightarrow> i < length cs \<Longrightarrow> cs ! i \<noteq> (b # cs) ! i"
proof (induction b cs arbitrary: i rule: first_repeat.induct)
  case (2 b c cs)
  then show ?case by (cases i) (auto split: if_splits)
qed simp

lemma scan_buckets_one:
  "\<forall>n \<in> set ns. ni_id n \<noteq> rt_our_id rt \<Longrightarrow>
    scan_buckets L rt 1 b ns = Inr (first_repeat b (map (bucket_of L (rt_our_id rt)) ns))"
  by (induction ns arbitrary: b) (auto simp: BucketIndex_ok bucket_of_def BucketSize_def)

lemma scan_buckets_start:
  assumes "\<forall>n \<in> set (m # ns). ni_id n \<noteq> rt_our_id rt"
  shows "scan_buckets L rt 0 0 (m # ns) = Inr (map_option Suc
    (first_repeat (bucket_of L (rt_our_id rt) m) (map (bucket_of L (rt_our_id rt)) ns)))"
  using assms scan_buckets_one [of ns rt L]
  by (auto simp: BucketIndex_ok bucket_of_def BucketSize_def)

text \<open>
  What the scan over a full table finds, in positions of the table: nothing when no two neighbours
  outside the close group share a bucket, and otherwise the last contact that shares its bucket with
  the one before it.
\<close>

lemma scan_table:
  fixes rt :: "('a, 'f) RoutingTable" and L :: "('a, 'f, 'k) lib"
  assumes size: "OptimalSize \<le> length (rt_nodes rt)"
    and ids: "\<forall>n \<in> set (rt_nodes rt). ni_id n \<noteq> rt_our_id rt"
  obtains bs where "length bs = length (rt_nodes rt) - GroupSize" "GroupSize < length (rt_nodes rt)"
    "scan_buckets L rt 0 0 (rev (drop GroupSize (rt_nodes rt))) = Inr (map_option Suc (first_repeat (hd bs) (tl bs)))"
    "\<And>j. j < length bs \<Longrightarrow> bs ! j = bucket_of L (rt_our_id rt) (rt_nodes rt ! (length (rt_nodes rt) - Suc j))"
proof -
  let ?xs = "rt_nodes rt" and ?b = "bucket_of L (rt_our_id rt)"
  define ys where "ys = rev (drop GroupSize ?xs)"
  have len: "length ys = length ?xs - GroupSize" by (simp add: ys_def)
  have gs: "GroupSize < length ?xs" using size by (simp add: OptimalSize_def GroupSize_def)
  have nth: "map ?b ys ! j = ?b (?xs ! (length ?xs - Suc j))" if "j < length ys" for j
    using that gs by (simp add: ys_def rev_nth len Suc_diff_Suc)
  from gs len obtain m ns where ys: "ys = m # ns" by (cases ys) auto
  have "set ys \<subseteq> set ?xs" by (auto simp: ys_def dest: in_set_dropD)
  then have "scan_buckets L rt 0 0 ys = Inr (map_option Suc (first_repeat (?b m) (map ?b ns)))"
    unfolding ys by (intro scan_buckets_start) (use ids ys in auto)
  then show thesis using nth gs len by (intro that [of "map ?b ys"]) (simp_all add: ys ys_def [symmetric])
qed

lemma FindCandidate_cases:
  fixes rt :: "('a, 'f) RoutingTable" and L :: "('a, 'f, 'k) lib"
  assumes size: "OptimalSize \<le> length (rt_nodes rt)"
    and ids: "\<forall>n \<in> set (rt_nodes rt). ni_id n \<noteq> rt_our_id rt"
  obtains (none) "FindCandidateForRemoval L rt = Inr (length (rt_nodes rt))"
      "\<And>i. GroupSize \<le> i \<Longrightarrow> Suc i < length (rt_nodes rt) \<Longrightarrow>
         bucket_of L (rt_our_id rt) (rt_nodes rt ! i) \<noteq> bucket_of L (rt_our_id rt) (rt_nodes rt ! Suc i)"
    | (some) c where "FindCandidateForRemoval L rt = Inr c" "GroupSize < c" "c < length (rt_nodes rt)"
      "bucket_of L (rt_our_id rt) (rt_nodes rt ! c) = bucket_of L (rt_our_id rt) (rt_nodes rt ! (c - 1))"
      "\<And>i. c \<le> i \<Longrightarrow> Suc i < length (rt_nodes rt) \<Longrightarrow>
         bucket_of L (rt_our_id rt) (rt_nodes rt ! i) \<noteq> bucket_of L (rt_our_id rt) (rt_nodes rt ! Suc i)"
proof -
  let ?xs = "rt_nodes rt" and ?b = "bucket_of L (rt_our_id rt)"
  obtain bs where bs: "length bs = length ?xs - GroupSize" "GroupSize < length ?xs"
    "scan_buckets L rt 0 0 (rev (drop GroupSize ?xs)) = Inr (map_option Suc (first_repeat (hd bs) (tl bs)))"
    and nth: "\<And>j. j < length bs \<Longrightarrow> bs ! j = ?b (?xs ! (length ?xs - Suc j))"
    using scan_table [OF size ids, of L] by blast
  have split: "bs = hd bs # tl bs" using bs(1,2) by (cases bs) auto
  have neighbours: "(tl bs ! j = (hd bs # tl bs) ! j) = (?b (?xs ! i) = ?b (?xs ! Suc i))"
    if "GroupSize \<le> i" "Suc i < length ?xs" "j = length ?xs - Suc (Suc i)" for i j
    using that bs(1) nth [of j] nth [of "Suc j"] split by (simp add: nth_tl Suc_diff_Suc)
  have find: "FindCandidateForRemoval L rt = Inr (case first_repeat (hd bs) (tl bs) of
      None \<Rightarrow> length ?xs | Some i \<Rightarrow> length ?xs - Suc i)"
    using bs(2,3) size by (simp add: FindCandidateForRemoval_def split: option.split)
  show thesis
  proof (cases "first_repeat (hd bs) (tl bs)")
    case None
    have "?b (?xs ! i) \<noteq> ?b (?xs ! Suc i)" if "GroupSize \<le> i" "Suc i < length ?xs" for i
      using first_repeat_None [OF None, of "length ?xs - Suc (Suc i)"] neighbours [OF that refl] that bs(1)
      by simp
    then show ?thesis using that(1) find None by simp
  next
    case (Some i)
    let ?c = "length ?xs - Suc i"
    note first = first_repeat_Some [OF Some]
    have c: "GroupSize < ?c" "?c < length ?xs" using first bs(1,2) by auto
    have last: "?b (?xs ! k) \<noteq> ?b (?xs ! Suc k)" if "?c \<le> k" "Suc k < length ?xs" for k
      using first neighbours [of k "length ?xs - Suc (Suc k)"] that c by simp
    have "Suc (?c - 1) = ?c" "i = length ?xs - Suc (Suc (?c - 1))" using c by simp_all
    then have "?b (?xs ! ?c) = ?b (?xs ! (?c - 1))"
      using first neighbours [of "?c - 1" i] c by auto
    then show ?thesis using that(2) [of ?c] find Some c last by simp
  qed
qed

subsubsection \<open>What AddNode does, branch by branch\<close>

lemma length_insert_contact [simp]: "length (insert_contact L rt info) = Suc (length (rt_nodes rt))"
  by (simp add: insert_contact_def)

lemma set_insert_contact [simp]: "set (insert_contact L rt info) = insert info (set (rt_nodes rt))"
  by (simp add: insert_contact_def)

lemma AddNode_close_cases:
  fixes rt :: "('a, 'f) RoutingTable" and L :: "('a, 'f, 'k) lib"
  assumes order: "closer_order L" and inv: "rt_inv L rt" and fresh: "fresh_contact L rt info"
    and size: "OptimalSize \<le> length (rt_nodes rt)"
    and closer: "CloserToTarget L (ni_id info) (ni_id (rt_nodes rt ! GroupSize)) (rt_our_id rt)"
  obtains (grown)
        "AddNode L rt info = Inr (rt\<lparr>rt_nodes := insert_contact L rt info\<rparr>, True, None)"
        "\<And>i. GroupSize \<le> i \<Longrightarrow> i < length (rt_nodes rt) \<Longrightarrow>
           bucket_of L (rt_our_id rt) (insert_contact L rt info ! i) \<noteq>
           bucket_of L (rt_our_id rt) (insert_contact L rt info ! Suc i)"
    | (close_evict) c where
        "AddNode L rt info = Inr (rt\<lparr>rt_nodes := erase_at c (insert_contact L rt info)\<rparr>, True,
           Some (insert_contact L rt info ! c))"
        "GroupSize < c" "c < Suc (length (rt_nodes rt))"
        "bucket_of L (rt_our_id rt) (insert_contact L rt info ! c) =
         bucket_of L (rt_our_id rt) (insert_contact L rt info ! (c - 1))"
proof -
  let ?rt = "rt\<lparr>rt_nodes := insert_contact L rt info\<rparr>"
  have gs: "GroupSize < length (rt_nodes rt)" "\<not> length (rt_nodes rt) < OptimalSize"
    using size by (simp_all add: OptimalSize_def GroupSize_def)
  have have_not: "\<not> HaveNode rt (ni_id info)" using fresh by (simp add: fresh_contact_def)
  have add: "AddNode L rt info = bindR (FindCandidateForRemoval L ?rt) (\<lambda>c.
      if c = length (rt_nodes ?rt) then Inr (?rt, True, None)
      else Inr (?rt\<lparr>rt_nodes := erase_at c (rt_nodes ?rt)\<rparr>, True, Some (rt_nodes ?rt ! c)))"
    using fresh closer gs PushBackThenSort_insert [OF order inv have_not]
    by (auto simp: AddNode_def fresh_contact_def Let_def)
  have size': "OptimalSize \<le> length (rt_nodes ?rt)" using size by simp
  have ids': "\<forall>n \<in> set (rt_nodes ?rt). ni_id n \<noteq> rt_our_id ?rt"
    using inv fresh by (auto simp: fresh_contact_def rt_inv_def)
  from size' ids' show thesis
  proof (cases rule: FindCandidate_cases [where L = L])
    case none
    then show ?thesis using add by (intro that(1)) auto
  next
    case (some c)
    then show ?thesis using add by (intro that(2) [of c]) auto
  qed
qed

lemma AddNode_far_cases:
  fixes rt :: "('a, 'f) RoutingTable" and L :: "('a, 'f, 'k) lib"
  assumes order: "closer_order L" and inv: "rt_inv L rt" and fresh: "fresh_contact L rt info"
    and size: "OptimalSize \<le> length (rt_nodes rt)"
    and far: "\<not> CloserToTarget L (ni_id info) (ni_id (rt_nodes rt ! GroupSize)) (rt_our_id rt)"
  obtains (far_evict) c where
        "AddNode L rt info = Inr (rt\<lparr>rt_nodes :=
           insert_contact L (rt\<lparr>rt_nodes := erase_at c (rt_nodes rt)\<rparr>) info\<rparr>, True,
           Some (rt_nodes rt ! c))"
        "GroupSize < c" "c < length (rt_nodes rt)"
        "bucket_of L (rt_our_id rt) (rt_nodes rt ! c) = bucket_of L (rt_our_id rt) (rt_nodes rt ! (c - 1))"
        "bucket_of L (rt_our_id rt) (rt_nodes rt ! c) < bucket_of L (rt_our_id rt) info"
    | (far_keep) "AddNode L rt info = Inr (rt, False, None)"
proof -
  let ?xs = "rt_nodes rt" and ?b = "bucket_of L (rt_our_id rt)"
  have ids: "\<forall>n \<in> set ?xs. ni_id n \<noteq> rt_our_id rt" using inv by (auto simp: rt_inv_def)
  have gs: "GroupSize < length ?xs" "\<not> length ?xs < OptimalSize"
    using size by (simp_all add: OptimalSize_def GroupSize_def)
  have add: "AddNode L rt info = bindR (FindCandidateForRemoval L rt) (\<lambda>c.
      bindR (NewNodeIsBetterThanExisting L rt (ni_id info) c) (\<lambda>better.
        if better then Inr (PushBackThenSort L (rt\<lparr>rt_nodes := erase_at c ?xs\<rparr>) info, True, Some (?xs ! c))
        else Inr (rt, False, None)))"
    using fresh far gs by (auto simp: AddNode_def fresh_contact_def)
  from size ids show thesis
  proof (cases rule: FindCandidate_cases [where L = L])
    case none
    then show ?thesis using add by (intro that(2)) (simp add: NewNodeIsBetterThanExisting_def)
  next
    case (some c)
    let ?erased = "rt\<lparr>rt_nodes := erase_at c ?xs\<rparr>"
    have "PushBackThenSort L ?erased info = ?erased\<lparr>rt_nodes := insert_contact L ?erased info\<rparr>"
      using order rt_inv_erase [OF inv] fresh_contact_erase [OF fresh]
      by (intro PushBackThenSort_insert) (auto simp: fresh_contact_def)
    moreover have "NewNodeIsBetterThanExisting L rt (ni_id info) c = Inr (?b info > ?b (?xs ! c))"
      using fresh some ids
      by (auto simp: NewNodeIsBetterThanExisting_def BucketIndex_ok bucket_of_def fresh_contact_def)
    ultimately show ?thesis
      using add some that by (cases "?b info > ?b (?xs ! c)") auto
  qed
qed

lemma AddNode_cases:
  fixes rt :: "('a, 'f) RoutingTable" and L :: "('a, 'f, 'k) lib"
  assumes order: "closer_order L" and inv: "rt_inv L rt" and init: "IsInitialised L (ni_id info)"
  obtains (rejected) "AddNode L rt info = Inr (rt, False, None)" "\<not> fresh_contact L rt info"
    | (small) "fresh_contact L rt info" "length (rt_nodes rt) < OptimalSize"
        "AddNode L rt info = Inr (rt\<lparr>rt_nodes := insert_contact L rt info\<rparr>, True, None)"
    | (grown) "fresh_contact L rt info" "OptimalSize \<le> length (rt_nodes rt)"
        "CloserToTarget L (ni_id info) (ni_id (rt_nodes rt ! GroupSize)) (rt_our_id rt)"
        "AddNode L rt info = Inr (rt\<lparr>rt_nodes := insert_contact L rt info\<rparr>, True, None)"
        "\<And>i. GroupSize \<le> i \<Longrightarrow> i < length (rt_nodes rt) \<Longrightarrow>
           bucket_of L (rt_our_id rt) (insert_contact L rt info ! i) \<noteq>
           bucket_of L (rt_our_id rt) (insert_contact L rt info ! Suc i)"
    | (close_evict) c where "fresh_contact L rt info" "OptimalSize \<le> length (rt_nodes rt)"
        "CloserToTarget L (ni_id info) (ni_id (rt_nodes rt ! GroupSize)) (rt_our_id rt)"
        "AddNode L rt info = Inr (rt\<lparr>rt_nodes := erase_at c (insert_contact L rt info)\<rparr>, True,
           Some (insert_contact L rt info ! c))"
        "GroupSize < c" "c < Suc (length (rt_nodes rt))"
        "bucket_of L (rt_our_id rt) (insert_contact L rt info ! c) =
         bucket_of L (rt_our_id rt) (insert_contact L rt info ! (c - 1))"
    | (far_evict) c where "fresh_contact L rt info" "OptimalSize \<le> length (rt_nodes rt)"
        "CloserToTarget L (ni_id (rt_nodes rt ! GroupSize)) (ni_id info) (rt_our_id rt)"
        "AddNode L rt info = Inr (rt\<lparr>rt_nodes :=
           insert_contact L (rt\<lparr>rt_nodes := erase_at c (rt_nodes rt)\<rparr>) info\<rparr>, True,
           Some (rt_nodes rt ! c))"
        "GroupSize < c" "c < length (rt_nodes rt)"
        "bucket_of L (rt_our_id rt) (rt_nodes rt ! c) = bucket_of L (rt_our_id rt) (rt_nodes rt ! (c - 1))"
        "bucket_of L (rt_our_id rt) (rt_nodes rt ! c) < bucket_of L (rt_our_id rt) info"
    | (far_keep) "fresh_contact L rt info" "OptimalSize \<le> length (rt_nodes rt)"
        "CloserToTarget L (ni_id (rt_nodes rt ! GroupSize)) (ni_id info) (rt_our_id rt)"
        "AddNode L rt info = Inr (rt, False, None)"
proof (cases "fresh_contact L rt info")
  case False
  then have "AddNode L rt info = Inr (rt, False, None)"
    using init by (auto simp: AddNode_def fresh_contact_def)
  then show ?thesis using False by (rule that(1))
next
  case fresh: True
  then have have_not: "\<not> HaveNode rt (ni_id info)" by (simp add: fresh_contact_def)
  show ?thesis
  proof (cases "length (rt_nodes rt) < OptimalSize")
    case True
    then show ?thesis
      using fresh PushBackThenSort_insert [OF order inv have_not]
      by (intro that(2)) (auto simp: AddNode_def fresh_contact_def)
  next
    case False
    then have size: "OptimalSize \<le> length (rt_nodes rt)" by simp
    show ?thesis
    proof (cases "CloserToTarget L (ni_id info) (ni_id (rt_nodes rt ! GroupSize)) (rt_our_id rt)")
      case True
      show ?thesis
        by (rule AddNode_close_cases [OF order inv fresh size True])
           (use that(3,4) fresh size True in blast)+
    next
      case False
      have "GroupSize < length (rt_nodes rt)" using size by (simp add: OptimalSize_def GroupSize_def)
      then have "ni_id (rt_nodes rt ! GroupSize) \<noteq> ni_id info"
        using have_not by (metis HaveNode_iff image_eqI nth_mem)
      then have far: "CloserToTarget L (ni_id (rt_nodes rt ! GroupSize)) (ni_id info) (rt_our_id rt)"
        using False strict_linear_order.not_lt_iff [OF closer_orderD [OF order, of "rt_our_id rt"],
            of "ni_id info" "ni_id (rt_nodes rt ! GroupSize)"] by auto
      show ?thesis
        by (rule AddNode_far_cases [OF order inv fresh size False])
           (use that(5,6) fresh size far in blast)+
    qed
  qed
qed

lemma AddNode_initialised:
  "AddNode L rt info = Inr r \<Longrightarrow> IsInitialised L (ni_id info)"
  using Validate_id_error [of L "ni_id info"] by (cases "IsInitialised L (ni_id info)") (auto simp: AddNode_def)

lemma AddNode_our_id:
  assumes "closer_order L" "rt_inv L rt" "AddNode L rt info = Inr (rt', b, d)"
  shows "rt_our_id rt' = rt_our_id rt"
  using assms(1,2) AddNode_initialised [OF assms(3)]
  by (cases rule: AddNode_cases) (use assms(3) in auto)

subsection \<open>The invariant is kept\<close>

lemma AddNode_inv:
  assumes order: "closer_order L" and inv: "rt_inv L rt" and add: "AddNode L rt info = Inr (rt', b, d)"
  shows "rt_inv L rt'"
  using order inv AddNode_initialised [OF add]
proof (cases rule: AddNode_cases)
  case (close_evict c)
  from rt_inv_erase [OF rt_inv_insert [OF order inv close_evict(1)], of c]
  show ?thesis using close_evict(4) add by auto
next
  case (far_evict c)
  from rt_inv_insert [OF order rt_inv_erase [OF inv, of c] fresh_contact_erase [OF far_evict(1)]]
  show ?thesis using far_evict(4) add by auto
qed (use add inv order rt_inv_insert [OF order inv] in auto)

lemma DropNode_inv: "rt_inv L rt \<Longrightarrow> DropNode L rt a = Inr rt' \<Longrightarrow> rt_inv L rt'"
  by (auto simp: DropNode_def result_simps rt_inv_def ordered_by_filter)

lemma RoutingTable_new_inv: "RoutingTable_new L our = Inr rt \<Longrightarrow> rt_inv L rt"
  by (auto simp: RoutingTable_new_def result_simps rt_inv_def)

text \<open>The tables a program can have: built by the constructor and changed by the two mutators.\<close>

inductive rt_reachable :: "('a, 'f, 'k) lib \<Rightarrow> ('a, 'f) RoutingTable \<Rightarrow> bool" for L where
  new: "RoutingTable_new L our = Inr rt \<Longrightarrow> rt_reachable L rt"
| add: "rt_reachable L rt \<Longrightarrow> AddNode L rt info = Inr (rt', b, d) \<Longrightarrow> rt_reachable L rt'"
| drop: "rt_reachable L rt \<Longrightarrow> DropNode L rt a = Inr rt' \<Longrightarrow> rt_reachable L rt'"

lemma reachable_inv: "rt_reachable L rt \<Longrightarrow> closer_order L \<Longrightarrow> rt_inv L rt"
proof (induction rule: rt_reachable.induct)
  case (new our rt)
  then show ?case by (blast intro: RoutingTable_new_inv)
next
  case (add rt info rt' b d)
  then show ?case by (blast intro: AddNode_inv)
next
  case (drop rt a rt')
  then show ?case by (blast intro: DropNode_inv)
qed

subsection \<open>The size of the table\<close>

lemma bucket_antimono:
  assumes "closer_order L" "leading_bits_closer L" "CloserToTarget L (ni_id x) (ni_id y) our"
  shows "bucket_of L our y \<le> bucket_of L our x"
proof (rule ccontr)
  assume "\<not> bucket_of L our y \<le> bucket_of L our x"
  then have "CloserToTarget L (ni_id y) (ni_id x) our"
    using assms(2) by (simp add: leading_bits_closer_def bucket_of_def)
  then show False
    using strict_linear_order.lt_asym [OF closer_orderD [OF assms(1)]] assms(3) by blast
qed

lemma distinct_buckets_bound:
  assumes laws: "closer_order L" "leading_bits_closer L" "leading_bits_range L"
    and inv: "rt_inv L rt"
    and diff: "\<And>i. GroupSize \<le> i \<Longrightarrow> Suc i < length (rt_nodes rt) \<Longrightarrow>
      bucket_of L (rt_our_id rt) (rt_nodes rt ! i) \<noteq> bucket_of L (rt_our_id rt) (rt_nodes rt ! Suc i)"
  shows "length (rt_nodes rt) \<le> GroupSize + 512"
proof -
  let ?b = "bucket_of L (rt_our_id rt)" and ?xs = "rt_nodes rt"
  define bs where "bs = map ?b (drop GroupSize ?xs)"
  have "bs ! Suc j < bs ! j" if "Suc j < length bs" for j
  proof -
    let ?i = "GroupSize + j"
    have i: "Suc ?i < length ?xs" using that by (simp add: bs_def)
    have "CloserToTarget L (ni_id (?xs ! ?i)) (ni_id (?xs ! Suc ?i)) (rt_our_id rt)"
      using inv i ordered_by_nth_less
        [of "\<lambda>x y. CloserToTarget L x y (rt_our_id rt)" ni_id ?xs ?i "Suc ?i"]
      by (simp add: rt_inv_def)
    then have "?b (?xs ! Suc ?i) < ?b (?xs ! ?i)"
      using bucket_antimono [OF laws(1,2)] diff [of ?i] i by fastforce
    then show ?thesis using i by (simp add: bs_def)
  qed
  then have "sorted_wrt (>) bs"
    by (simp add: sorted_wrt_iff_nth_Suc_transp transp_def)
  then have "distinct bs" by (induction bs) auto
  have "set bs \<subseteq> {0..<512}"
  proof
    fix b assume "b \<in> set bs"
    then obtain n where n: "n \<in> set ?xs" "b = ?b n" by (auto simp: bs_def dest: in_set_dropD)
    then have "ni_id n \<noteq> rt_our_id rt" using inv by (simp add: rt_inv_def)
    with laws(3) n show "b \<in> {0..<512}" by (simp add: leading_bits_range_def bucket_of_def)
  qed
  then have "card (set bs) \<le> card {0..<512::int}" by (intro card_mono) auto
  then have "length bs \<le> 512" using \<open>distinct bs\<close> by (simp add: distinct_card)
  then show ?thesis by (simp add: bs_def)
qed

lemma length_erase_insert:
  assumes "c < length (rt_nodes rt)"
  shows "length (insert_contact L (rt\<lparr>rt_nodes := erase_at c (rt_nodes rt)\<rparr>) info) = length (rt_nodes rt)"
  using assms by simp

lemma AddNode_bound:
  assumes laws: "closer_order L" "leading_bits_closer L" "leading_bits_range L"
    and inv: "rt_inv L rt" and add: "AddNode L rt info = Inr (rt', b, d)"
    and bound: "length (rt_nodes rt) \<le> GroupSize + 512"
  shows "length (rt_nodes rt') \<le> GroupSize + 512"
  using laws(1) inv AddNode_initialised [OF add]
proof (cases rule: AddNode_cases)
  case grown
  have "rt_inv L (rt\<lparr>rt_nodes := insert_contact L rt info\<rparr>)"
    using laws(1) inv grown(1) by (rule rt_inv_insert)
  from distinct_buckets_bound [OF laws this] grown(4,5) add show ?thesis by auto
next
  case small
  then show ?thesis using add by (auto simp: OptimalSize_def GroupSize_def)
next
  case (close_evict c)
  then show ?thesis using add bound by auto
next
  case (far_evict c)
  then show ?thesis using add bound length_erase_insert [of c rt L info] by auto
qed (use add bound in auto)

lemma reachable_size_bound:
  assumes laws: "closer_order L" "leading_bits_closer L" "leading_bits_range L"
  shows "rt_reachable L rt \<Longrightarrow> length (rt_nodes rt) \<le> GroupSize + 512"
proof (induction rule: rt_reachable.induct)
  case (new our rt)
  then show ?case by (auto simp: RoutingTable_new_def result_simps)
next
  case (add rt info rt' b d)
  then show ?case using laws by (blast intro: AddNode_bound reachable_inv)
next
  case (drop rt a rt')
  then show ?case by (auto simp: DropNode_def result_simps intro: le_trans [OF length_filter_le])
qed

subsection \<open>The close group\<close>

lemma OurCloseGroup_take: "OurCloseGroup rt = take GroupSize (rt_nodes rt)"
  by (simp add: OurCloseGroup_def min_def)

lemma take_insert_far:
  assumes "closer_order L" "rt_inv L rt" "GroupSize < length (rt_nodes rt)"
    "CloserToTarget L (ni_id (rt_nodes rt ! GroupSize)) (ni_id info) (rt_our_id rt)"
  shows "take GroupSize (insert_contact L rt info) = take GroupSize (rt_nodes rt)"
  unfolding insert_contact_def Comparison_eq
  by (rule strict_linear_order.take_insort_far [OF closer_orderD [OF assms(1)]])
     (use assms in \<open>auto simp: rt_inv_def\<close>)

lemma insert_close_in_take:
  assumes "closer_order L" "rt_inv L rt" "GroupSize < length (rt_nodes rt)"
    "CloserToTarget L (ni_id info) (ni_id (rt_nodes rt ! GroupSize)) (rt_our_id rt)"
  shows "info \<in> set (take (Suc GroupSize) (insert_contact L rt info))"
  unfolding insert_contact_def Comparison_eq
  by (rule strict_linear_order.insort_in_take [OF closer_orderD [OF assms(1)]])
     (use assms in \<open>auto simp: rt_inv_def\<close>)

lemma full_table: "OptimalSize \<le> length (rt_nodes rt) \<Longrightarrow> GroupSize < length (rt_nodes rt)"
  by (simp add: OptimalSize_def GroupSize_def)

lemma nth_erase_at_less: "i < c \<Longrightarrow> c < length xs \<Longrightarrow> erase_at c xs ! i = xs ! i"
  by (simp add: erase_at_def nth_append)

lemma AddNode_take_group:
  assumes order: "closer_order L" and inv: "rt_inv L rt" and fresh: "fresh_contact L rt info"
    and add: "AddNode L rt info = Inr (rt', b, d)"
  shows "take GroupSize (rt_nodes rt') = take GroupSize (insert_contact L rt info)"
  using order inv AddNode_initialised [OF add]
proof (cases rule: AddNode_cases)
  case (close_evict c)
  then show ?thesis using add by auto
next
  case (far_evict c)
  let ?erased = "rt\<lparr>rt_nodes := erase_at c (rt_nodes rt)\<rparr>"
  have "rt_nodes ?erased ! GroupSize = rt_nodes rt ! GroupSize" "GroupSize < length (rt_nodes ?erased)"
    using far_evict(5,6) full_table [OF far_evict(2)] by (auto simp: nth_erase_at_less)
  then have "take GroupSize (insert_contact L ?erased info) = take GroupSize (rt_nodes ?erased)"
    using order rt_inv_erase [OF inv] far_evict(3) by (intro take_insert_far) auto
  moreover have "take GroupSize (insert_contact L rt info) = take GroupSize (rt_nodes rt)"
    using order inv full_table [OF far_evict(2)] far_evict(3) by (rule take_insert_far)
  ultimately show ?thesis using far_evict(4,5) add by auto
next
  case far_keep
  from take_insert_far [OF order inv full_table [OF far_keep(2)] far_keep(3)]
  show ?thesis using far_keep(4) add by auto
qed (use add fresh in auto)

subsection \<open>What is given up for a new contact\<close>

lemma close_eviction:
  assumes order: "closer_order L" and inv: "rt_inv L rt" and fresh: "fresh_contact L rt info"
    and full: "GroupSize < length (rt_nodes rt)"
    and closer: "CloserToTarget L (ni_id info) (ni_id (rt_nodes rt ! GroupSize)) (rt_our_id rt)"
    and c: "GroupSize < c" "c < Suc (length (rt_nodes rt))"
  defines "n \<equiv> insert_contact L rt info ! c"
  shows "n \<in> set (rt_nodes rt)" "n \<noteq> info" "n \<notin> set (OurCloseGroup rt)"
    "set (erase_at c (insert_contact L rt info)) = insert info (set (rt_nodes rt)) - {n}"
proof -
  let ?ins = "insert_contact L rt info"
  have d: "distinct (map ni_id ?ins)"
    using rt_inv_distinct [OF order rt_inv_insert [OF order inv fresh]] by simp
  then have "distinct ?ins" by (simp add: distinct_map)
  then have n_out: "n \<notin> set (take (Suc GroupSize) ?ins)"
    unfolding n_def by (rule distinct_nth_notin_take) (use c in auto)
  then show "n \<noteq> info" using insert_close_in_take [OF order inv full closer] by auto
  have "n \<in> set ?ins" unfolding n_def by (rule nth_mem) (use c in simp)
  with \<open>n \<noteq> info\<close> show "n \<in> set (rt_nodes rt)" by simp
  show "n \<notin> set (OurCloseGroup rt)"
    using n_out set_take_insort_by [of GroupSize "rt_nodes rt" "Comparison L (rt_our_id rt)" info]
    by (auto simp: OurCloseGroup_take insert_contact_def)
  show "set (erase_at c ?ins) = insert info (set (rt_nodes rt)) - {n}"
    using set_erase_at_distinct [OF _ \<open>distinct ?ins\<close>, of c] c unfolding n_def by simp
qed

lemma far_eviction:
  assumes order: "closer_order L" and inv: "rt_inv L rt" and fresh: "fresh_contact L rt info"
    and c: "GroupSize < c" "c < length (rt_nodes rt)"
  defines "n \<equiv> rt_nodes rt ! c"
  shows "n \<in> set (rt_nodes rt)" "n \<noteq> info" "n \<notin> set (OurCloseGroup rt)"
    "insert info (set (erase_at c (rt_nodes rt))) = insert info (set (rt_nodes rt)) - {n}"
proof -
  let ?xs = "rt_nodes rt"
  have d: "distinct (map ni_id ?xs)" using order inv by (rule rt_inv_distinct)
  show n: "n \<in> set ?xs" using c by (simp add: n_def)
  then show "n \<noteq> info" using fresh by (auto simp: fresh_contact_def HaveNode_iff)
  show "n \<notin> set (OurCloseGroup rt)"
    unfolding OurCloseGroup_take n_def
    by (rule distinct_nth_notin_take) (use c d in \<open>auto simp: distinct_map\<close>)
  have "set (erase_at c ?xs) = set ?xs - {n}"
    using c d unfolding n_def by (intro set_erase_at_distinct) (auto simp: distinct_map)
  then show "insert info (set (erase_at c ?xs)) = insert info (set ?xs) - {n}"
    using \<open>n \<noteq> info\<close> by blast
qed

subsection \<open>Target nodes\<close>

lemma filter_less_upt: "filter (\<lambda>i. i < m) [0..<n] = [0..<min m n]"
  by (induction n) (auto simp: min_def le_Suc_eq)

lemma map_nth_take: "map ((!) xs) [0..<min n (length xs)] = take n xs"
  by (rule nth_equalityI) auto

lemma sorted_indices:
  "map ((!) xs) (std_sort (\<lambda>i j. lt (xs ! i) (xs ! j)) [0..<length xs]) = std_sort lt xs"
  using map_std_sort [of "(!) xs" lt "[0..<length xs]"] by (simp add: map_nth)

lemma TargetNodes_eq:
  assumes order: "closer_order L" and inv: "rt_inv L rt" and init: "IsInitialised L t"
    and ne: "rt_nodes rt \<noteq> []"
  shows "TargetNodes L rt t = Inr
    (if hd (std_sort (Comparison L t) (rt_nodes rt)) \<in> set (OurCloseGroup rt)
     then OurCloseGroup rt else take Parallelism (std_sort (Comparison L t) (rt_nodes rt)))"
proof -
  let ?xs = "rt_nodes rt"
  define idx where "idx = std_sort (\<lambda>i j. Comparison L t (?xs ! i) (?xs ! j)) [0..<length ?xs]"
  have idx_map: "map ((!) ?xs) idx = std_sort (Comparison L t) ?xs"
    unfolding idx_def by (rule sorted_indices)
  have idx_ne: "idx \<noteq> []" using ne by (auto simp: idx_def simp flip: length_greater_0_conv)
  then have hd_in: "hd idx < length ?xs"
    using hd_in_set [OF idx_ne] by (auto simp: idx_def)
  have hd_eq: "hd (std_sort (Comparison L t) ?xs) = ?xs ! hd idx"
    using idx_map idx_ne by (metis hd_map)
  have dist: "distinct ?xs"
    using rt_inv_distinct [OF order inv] by (simp add: distinct_map)
  have "?xs ! hd idx \<in> set (take GroupSize ?xs) \<longleftrightarrow> hd idx < GroupSize"
    using dist hd_in by (auto simp: in_set_conv_nth nth_eq_iff_index_eq)
  moreover have "hd (take (min Parallelism (length ?xs)) idx) = hd idx"
    using ne idx_ne by (simp add: hd_take Parallelism_def)
  moreover have "map ((!) ?xs) (take (min Parallelism (length ?xs)) idx) =
      take Parallelism (std_sort (Comparison L t) ?xs)"
    by (simp add: take_map [symmetric] idx_map min_def)
  ultimately show ?thesis
    using init ne hd_eq hd_in
    by (auto simp: TargetNodes_def Let_def partial_sort_prefix_def idx_def [symmetric]
        filter_less_upt map_nth_take OurCloseGroup_take list_ex_iff)
qed

lemma closest_contact:
  assumes "closer_order L" "rt_inv L rt" "n \<in> set (rt_nodes rt)"
    "c = hd (std_sort (Comparison L t) (rt_nodes rt))"
  shows "c \<in> set (rt_nodes rt)" and "n = c \<or> CloserToTarget L (ni_id c) (ni_id n) t"
proof -
  let ?ys = "std_sort (Comparison L t) (rt_nodes rt)"
  have "?ys \<noteq> []" using assms(3) by (metis empty_iff list.set(1) set_std_sort)
  then have "c \<in> set ?ys" using assms(4) hd_in_set by blast
  then show "c \<in> set (rt_nodes rt)" by simp
  have d: "distinct (map ni_id (rt_nodes rt))" using assms(1,2) by (rule rt_inv_distinct)
  have "ni_id c = ni_id n \<or> CloserToTarget L (ni_id c) (ni_id n) t"
    using strict_linear_order.hd_std_sort_least [OF closer_orderD [OF assms(1), of t] d assms(3)] assms(4)
    by (simp add: Comparison_eq)
  then show "n = c \<or> CloserToTarget L (ni_id c) (ni_id n) t"
    using d \<open>c \<in> set (rt_nodes rt)\<close> assms(3) by (metis distinct_map inj_onD)
qed

lemma is_sorted_by_ordered:
  "ordered_by lt key xs \<Longrightarrow> (\<And>a b. lt a b \<Longrightarrow> \<not> lt b a) \<Longrightarrow> is_sorted_by (\<lambda>x y. lt (key x) (key y)) xs"
  unfolding is_sorted_by_def list_all_iff
  by (auto simp: set_zip nth_tl ordered_by_nth_less)

lemma rt_inv_is_sorted:
  assumes "closer_order L" "rt_inv L rt"
  shows "is_sorted_by (Comparison L (rt_our_id rt)) (rt_nodes rt)"
  unfolding Comparison_eq
  by (rule is_sorted_by_ordered [where lt = "\<lambda>x y. CloserToTarget L x y (rt_our_id rt)"])
     (use assms strict_linear_order.lt_asym [OF closer_orderD [OF assms(1)]] in \<open>auto simp: rt_inv_def\<close>)

lemma GetPublicKey_eq:
  assumes "closer_order L" "rt_inv L rt" "IsInitialised L a"
  shows "GetPublicKey L rt a =
    Inr (map_option (\<lambda>n. fob_public_key L (dht_fob n)) (find (\<lambda>n. ni_id n = a) (rt_nodes rt)))"
  using assms rt_inv_is_sorted [OF assms(1,2)] by (simp add: GetPublicKey_def)

lemma find_distinct:
  "distinct (map key xs) \<Longrightarrow> n \<in> set xs \<Longrightarrow> find (\<lambda>x. key x = key n) xs = Some n"
  by (induction xs) auto

lemma CheckNode_AddNode_flag:
  assumes "IsInitialised L (ni_id info)" "ValidateKey L (fob_public_key L (dht_fob info))"
    "closer_order L" "rt_inv L rt" "AddNode L rt info = Inr (rt', b, d)"
  shows "CheckNode L rt (ni_id info) = Inr b"
proof (cases "fresh_contact L rt info \<and> OptimalSize \<le> length (rt_nodes rt)")
  case False
  then show ?thesis
    using assms by (auto simp: CheckNode_def CheckNode_locked_def AddNode_def fresh_contact_def split: if_splits)
next
  case True
  then have fresh: "fresh_contact L rt info" and size: "OptimalSize \<le> length (rt_nodes rt)" by auto
  let ?closer = "CloserToTarget L (ni_id info) (ni_id (rt_nodes rt ! GroupSize)) (rt_our_id rt)"
  have check: "CheckNode L rt (ni_id info) = (if ?closer then Inr True else
      bindR (FindCandidateForRemoval L rt) (\<lambda>c. NewNodeIsBetterThanExisting L rt (ni_id info) c))"
    using fresh size full_table [OF size] by (auto simp: CheckNode_def CheckNode_locked_def fresh_contact_def)
  show ?thesis
  proof (cases ?closer)
    case True
    show ?thesis
      by (rule AddNode_close_cases [OF assms(3,4) fresh size True]) (use check True assms(5) in auto)
  next
    case False
    then show ?thesis
      using check assms(5) fresh size full_table [OF size]
      by (auto simp: AddNode_def fresh_contact_def result_simps split: if_splits)
  qed
qed

lemma find_filter_other:
  "b \<noteq> a \<Longrightarrow> find (\<lambda>n. key n = b) (filter (\<lambda>n. key n \<noteq> a) xs) = find (\<lambda>n. key n = b) xs"
  by (induction xs) auto

lemma AddNode_added:
  assumes order: "closer_order L" and inv: "rt_inv L rt" and add: "AddNode L rt info = Inr (rt', True, d)"
  shows "info \<in> set (rt_nodes rt')"
  using order inv AddNode_initialised [OF add]
proof (cases rule: AddNode_cases)
  case (close_evict c)
  from close_eviction(2,4) [OF order inv close_evict(1) full_table [OF close_evict(2)] close_evict(3,5,6)]
  show ?thesis using close_evict(4) add by auto
qed (use add in auto)

lemma CheckNode_locked_total:
  assumes inv: "rt_inv L rt" and other: "a \<noteq> rt_our_id rt"
  shows "\<exists>b. CheckNode_locked L rt a = Inr b"
proof (cases "length (rt_nodes rt) < OptimalSize")
  case True
  then show ?thesis by (auto simp: CheckNode_locked_def)
next
  case False
  then have size: "OptimalSize \<le> length (rt_nodes rt)" by simp
  have ids: "\<forall>n \<in> set (rt_nodes rt). ni_id n \<noteq> rt_our_id rt" using inv by (auto simp: rt_inv_def)
  from size ids have "\<exists>c b. FindCandidateForRemoval L rt = Inr c \<and> NewNodeIsBetterThanExisting L rt a c = Inr b"
  proof (cases rule: FindCandidate_cases [where L = L])
    case none
    then show ?thesis by (auto simp: NewNodeIsBetterThanExisting_def)
  next
    case (some c)
    then show ?thesis using ids other by (simp add: NewNodeIsBetterThanExisting_def BucketIndex_ok)
  qed
  then show ?thesis using False full_table [OF size] by (auto simp: CheckNode_locked_def)
qed

lemma CheckNode_total:
  assumes "rt_inv L rt" "IsInitialised L a"
  shows "\<exists>b. CheckNode L rt a = Inr b"
  using assms CheckNode_locked_total [OF assms(1), of a] by (auto simp: CheckNode_def)

text \<open>
  An \<open>AddNode\<close> between the duplicate check and the mutex cannot be told from one before or after:
  the answer is the one for the old or the one for the new table.
\<close>

lemma CheckNode_interleaved_AddNode:
  assumes order: "closer_order L" and inv: "rt_inv L rt" and init: "IsInitialised L a"
    and add: "AddNode L rt info = Inr (rt', added, dropped)"
  shows "CheckNode_interleaved L rt rt' a \<in> {CheckNode L rt a, CheckNode L rt' a}"
proof (cases "a = rt_our_id rt \<or> HaveNode rt a \<or> \<not> HaveNode rt' a")
  case True
  then show ?thesis
    using init AddNode_our_id [OF order inv add] by (auto simp: CheckNode_interleaved_def CheckNode_def)
next
  case False
  then have new: "a \<noteq> rt_our_id rt" "\<not> HaveNode rt a" "HaveNode rt' a" by auto
  have inv': "rt_inv L rt'" using order inv add by (rule AddNode_inv)
  have our: "rt_our_id rt' = rt_our_id rt" using order inv add by (rule AddNode_our_id)
  have a: "ni_id info = a" "added" "fresh_contact L rt info"
    using order inv AddNode_initialised [OF add] new add
    by (atomize (full), cases rule: AddNode_cases)
       (use set_erase_at_subset in \<open>fastforce simp: HaveNode_iff\<close>)+
  have "CheckNode L rt a = Inr True"
    using CheckNode_AddNode_flag [OF init [folded a(1)] _ order inv add] a by (simp add: fresh_contact_def)
  moreover have "CheckNode L rt' a = Inr False" using new our init by (simp add: CheckNode_def)
  moreover obtain b where "CheckNode_locked L rt' a = Inr b"
    using CheckNode_locked_total [OF inv'] new(1) our by metis
  ultimately show ?thesis using new init by (cases b) (simp_all add: CheckNode_interleaved_def)
qed

subsection \<open>The documented rules for adding a contact\<close>

text \<open>
  The rules of \<^verbatim>\<open>routing_table.h\<close>, lines 61 to 69: a contact that is not us, not in the table and has a
  valid key is added if the table is not full, or it comes within the close group, or there is a
  candidate for removal, a contact outside the close group in a bucket with more than \<open>BucketSize\<close>
  contacts, and the new contact's bucket is closer to our own.
\<close>

definition removal_documented ::
  "('a, 'f, 'k) lib \<Rightarrow> ('a, 'f) RoutingTable \<Rightarrow> ('a, 'f) NodeInfo \<Rightarrow> bool" where
  "removal_documented L rt info \<longleftrightarrow> (\<exists>n \<in> set (drop GroupSize (rt_nodes rt)).
     BucketSize < length (filter (\<lambda>m. bucket_of L (rt_our_id rt) m = bucket_of L (rt_our_id rt) n) (rt_nodes rt)) \<and>
     bucket_of L (rt_our_id rt) n < bucket_of L (rt_our_id rt) info)"

definition addition_documented ::
  "('a, 'f, 'k) lib \<Rightarrow> ('a, 'f) RoutingTable \<Rightarrow> ('a, 'f) NodeInfo \<Rightarrow> bool" where
  "addition_documented L rt info \<longleftrightarrow> fresh_contact L rt info \<and>
     (length (rt_nodes rt) < OptimalSize \<or>
      CloserToTarget L (ni_id info) (ni_id (rt_nodes rt ! (GroupSize - 1))) (rt_our_id rt) \<or>
      removal_documented L rt info)"

text \<open>The new contact would be the first one after the close group.\<close>

definition just_outside_group ::
  "('a, 'f, 'k) lib \<Rightarrow> ('a, 'f) RoutingTable \<Rightarrow> ('a, 'f) NodeInfo \<Rightarrow> bool" where
  "just_outside_group L rt info \<longleftrightarrow>
     \<not> CloserToTarget L (ni_id info) (ni_id (rt_nodes rt ! (GroupSize - 1))) (rt_our_id rt) \<and>
     CloserToTarget L (ni_id info) (ni_id (rt_nodes rt ! GroupSize)) (rt_our_id rt)"

lemma bucket_nth_antimono:
  assumes "closer_order L" "leading_bits_closer L" "rt_inv L rt" "i \<le> j" "j < length (rt_nodes rt)"
  shows "bucket_of L (rt_our_id rt) (rt_nodes rt ! j) \<le> bucket_of L (rt_our_id rt) (rt_nodes rt ! i)"
proof (cases "i = j")
  case False
  then have "CloserToTarget L (ni_id (rt_nodes rt ! i)) (ni_id (rt_nodes rt ! j)) (rt_our_id rt)"
    using assms ordered_by_nth_less [of "\<lambda>x y. CloserToTarget L x y (rt_our_id rt)" ni_id "rt_nodes rt" i j]
    by (simp add: rt_inv_def)
  then show ?thesis by (rule bucket_antimono [OF assms(1,2)])
qed simp

text \<open>
  For a contact that is no closer than the first one after the close group, the documented candidate
  exists exactly if two neighbours outside the close group share a bucket further than the new
  contact's.
\<close>

lemma removal_documented_neighbours:
  assumes laws: "closer_order L" "leading_bits_closer L" and inv: "rt_inv L rt"
    and size: "GroupSize < length (rt_nodes rt)"
    and far: "CloserToTarget L (ni_id (rt_nodes rt ! GroupSize)) (ni_id info) (rt_our_id rt)"
  shows "removal_documented L rt info \<longleftrightarrow> (\<exists>p. GroupSize \<le> p \<and> Suc p < length (rt_nodes rt) \<and>
    bucket_of L (rt_our_id rt) (rt_nodes rt ! p) = bucket_of L (rt_our_id rt) (rt_nodes rt ! Suc p) \<and>
    bucket_of L (rt_our_id rt) (rt_nodes rt ! p) < bucket_of L (rt_our_id rt) info)"
    (is "_ \<longleftrightarrow> (\<exists>p. ?pair p)")
proof
  let ?xs = "rt_nodes rt" and ?b = "bucket_of L (rt_our_id rt)"
  note anti = bucket_nth_antimono [OF laws inv]
  assume "removal_documented L rt info"
  then obtain n p q where n: "?b n < ?b info" and pq: "p < q" "q < length ?xs" "?b (?xs ! p) = ?b n" "?b (?xs ! q) = ?b n"
    unfolding removal_documented_def BucketSize_def two_in_filter by blast
  have "?b info \<le> ?b (?xs ! GroupSize)" using far by (rule bucket_antimono [OF laws])
  then have "GroupSize \<le> p" using n pq(3) anti [of p GroupSize] size by (cases "GroupSize \<le> p") auto
  moreover have "?b (?xs ! Suc p) = ?b (?xs ! p)"
    using anti [of p "Suc p"] anti [of "Suc p" q] pq by simp
  ultimately show "\<exists>p. ?pair p" using n pq by (intro exI [of _ p]) auto
next
  let ?xs = "rt_nodes rt" and ?b = "bucket_of L (rt_our_id rt)"
  assume "\<exists>p. ?pair p"
  then obtain p where p: "?pair p" by blast
  then have "?xs ! p \<in> set (drop GroupSize ?xs)"
    by (auto simp: in_set_conv_nth intro!: exI [of _ "p - GroupSize"])
  moreover have "BucketSize < length (filter (\<lambda>m. ?b m = ?b (?xs ! p)) ?xs)"
    unfolding BucketSize_def two_in_filter using p by (intro exI [of _ p] exI [of _ "Suc p"]) auto
  ultimately show "removal_documented L rt info"
    using p unfolding removal_documented_def by (intro bexI [of _ "?xs ! p"]) auto
qed

text \<open>So \<open>AddNode\<close> takes a contact outside the close group exactly by the documented rule.\<close>

lemma CheckNode_locked_far:
  assumes laws: "closer_order L" "leading_bits_closer L" and inv: "rt_inv L rt"
    and size: "OptimalSize \<le> length (rt_nodes rt)" and other: "ni_id info \<noteq> rt_our_id rt"
    and far: "CloserToTarget L (ni_id (rt_nodes rt ! GroupSize)) (ni_id info) (rt_our_id rt)"
  shows "CheckNode_locked L rt (ni_id info) = Inr (removal_documented L rt info)"
proof -
  let ?xs = "rt_nodes rt" and ?b = "bucket_of L (rt_our_id rt)"
  note gs = full_table [OF size] and anti = bucket_nth_antimono [OF laws inv]
  have ids: "\<forall>n \<in> set ?xs. ni_id n \<noteq> rt_our_id rt" using inv by (auto simp: rt_inv_def)
  have far': "\<not> CloserToTarget L (ni_id info) (ni_id (?xs ! GroupSize)) (rt_our_id rt)"
    using far strict_linear_order.lt_asym [OF closer_orderD [OF laws(1)]] by blast
  have check: "CheckNode_locked L rt (ni_id info) =
      bindR (FindCandidateForRemoval L rt) (\<lambda>c. NewNodeIsBetterThanExisting L rt (ni_id info) c)"
    using size gs far' by (simp add: CheckNode_locked_def)
  from size ids show ?thesis
  proof (cases rule: FindCandidate_cases [where L = L])
    case none
    then have "\<not> removal_documented L rt info"
      unfolding removal_documented_neighbours [OF laws inv gs far] by blast
    then show ?thesis using check none by (simp add: NewNodeIsBetterThanExisting_def)
  next
    case (some c)
    have "removal_documented L rt info \<longleftrightarrow> ?b (?xs ! c) < ?b info"
      unfolding removal_documented_neighbours [OF laws inv gs far]
    proof
      assume "\<exists>p. GroupSize \<le> p \<and> Suc p < length ?xs \<and> ?b (?xs ! p) = ?b (?xs ! Suc p) \<and> ?b (?xs ! p) < ?b info"
      then obtain p where p: "Suc p < length ?xs" "?b (?xs ! p) = ?b (?xs ! Suc p)" "?b (?xs ! p) < ?b info" by blast
      then have "Suc p \<le> c" using some(5) [of p] by (meson not_less_eq_eq)
      then show "?b (?xs ! c) < ?b info" using anti [of "Suc p" c] some(3) p by simp
    next
      assume "?b (?xs ! c) < ?b info"
      then show "\<exists>p. GroupSize \<le> p \<and> Suc p < length ?xs \<and> ?b (?xs ! p) = ?b (?xs ! Suc p) \<and> ?b (?xs ! p) < ?b info"
        using some(2,3,4) by (intro exI [of _ "c - 1"]) auto
    qed
    then show ?thesis
      using check some ids other by (simp add: NewNodeIsBetterThanExisting_def BucketIndex_ok bucket_of_def)
  qed
qed

lemma AddNode_added_iff:
  assumes laws: "closer_order L" "leading_bits_closer L" and inv: "rt_inv L rt"
    and add: "AddNode L rt info = Inr (rt', added, dropped)"
  shows "added \<longleftrightarrow> addition_documented L rt info \<or>
    fresh_contact L rt info \<and> OptimalSize \<le> length (rt_nodes rt) \<and> just_outside_group L rt info"
proof (cases "fresh_contact L rt info")
  case False
  with laws(1) inv AddNode_initialised [OF add] show ?thesis
    by (cases rule: AddNode_cases) (use add in \<open>auto simp: addition_documented_def\<close>)
next
  case fresh: True
  let ?lt = "\<lambda>x y. CloserToTarget L (ni_id x) (ni_id y) (rt_our_id rt)" and ?xs = "rt_nodes rt"
  have flag: "CheckNode_locked L rt (ni_id info) = Inr added"
    using CheckNode_AddNode_flag [OF AddNode_initialised [OF add] _ laws(1) inv add] fresh
      AddNode_initialised [OF add] by (simp add: CheckNode_def fresh_contact_def)
  show ?thesis
  proof (cases "OptimalSize \<le> length ?xs \<and> \<not> ?lt info (?xs ! GroupSize)")
    case False
    then have "added"
      using flag full_table [of rt] by (cases "OptimalSize \<le> length ?xs") (auto simp: CheckNode_locked_def)
    then show ?thesis
      using False fresh by (auto simp: addition_documented_def just_outside_group_def)
  next
    case True
    then have size: "OptimalSize \<le> length ?xs" and not_closer: "\<not> ?lt info (?xs ! GroupSize)" by auto
    note order = closer_orderD [OF laws(1), of "rt_our_id rt"]
    have "?xs ! GroupSize \<in> set ?xs" using full_table [OF size] by simp
    then have "ni_id info \<noteq> ni_id (?xs ! GroupSize)" using fresh by (auto simp: fresh_contact_def HaveNode_iff)
    then have far: "?lt (?xs ! GroupSize) info"
      using not_closer strict_linear_order.not_lt_iff [OF order] by auto
    have "?lt (?xs ! (GroupSize - 1)) (?xs ! GroupSize)"
      using inv full_table [OF size]
        ordered_by_nth_less [of "\<lambda>x y. CloserToTarget L x y (rt_our_id rt)" ni_id ?xs "GroupSize - 1" GroupSize]
      by (simp add: rt_inv_def GroupSize_def)
    then have "\<not> ?lt info (?xs ! (GroupSize - 1))"
      using not_closer strict_linear_order.lt_trans [OF order] by blast
    then show ?thesis
      using CheckNode_locked_far [OF laws inv size _ far] flag fresh size not_closer
      by (auto simp: addition_documented_def just_outside_group_def fresh_contact_def)
  qed
qed

lemma uninitialised_fails:
  assumes "\<not> IsInitialised L a"
  shows "\<exists>e. CheckNode L rt a = Inl e" "\<exists>e. DropNode L rt a = Inl e"
    "\<exists>e. TargetNodes L rt a = Inl e" "\<exists>e. GetPublicKey L rt a = Inl e"
    "ni_id info = a \<Longrightarrow> \<exists>e. AddNode L rt info = Inl e"
  using Validate_id_error [OF assms]
  by (simp_all add: CheckNode_def DropNode_def TargetNodes_def GetPublicKey_def AddNode_def)

subsection \<open>A full table in the exclusive-or space\<close>

definition ex_node :: "nat \<Rightarrow> (512 word, 512 word) NodeInfo" where
  "ex_node i = \<lparr>ni_id = of_nat i, dht_fob = of_nat i, connected = True\<rparr>"

definition ex_table :: "nat \<Rightarrow> (512 word, 512 word) RoutingTable" where
  "ex_table n = \<lparr>rt_our_id = 0, rt_nodes = map (\<lambda>i. ex_node (2 * i)) [1..<Suc n]\<rparr>"

definition ex_one_bucket :: "(512 word, 512 word) RoutingTable" where
  "ex_one_bucket = \<lparr>rt_our_id = 0, rt_nodes = map (\<lambda>i. ex_node (256 + 2 * i)) [1..<65]\<rparr>"

lemma insort_by_last: "\<forall>y \<in> set xs. lt y x \<Longrightarrow> insort_by lt x xs = xs @ [x]"
  by (induction xs) auto

lemma ex_less:
  assumes "i < j" "j \<le> 500"
  shows "(of_nat i :: 512 word) < of_nat j"
proof -
  have "(500::nat) < 2 ^ 512" by simp
  then have "i < 2 ^ 512" "j < 2 ^ 512" using assms by linarith+
  with assms(1) show ?thesis by (simp add: word_less_nat_alt unat_of_nat)
qed

lemma ex_node_closer:
  assumes "i < j" "j \<le> 500"
  shows "Comparison (xor_lib nd) 0 (ex_node i) (ex_node j)" and "ni_id (ex_node i) \<noteq> ni_id (ex_node j)"
  using ex_less [OF assms] by (auto simp: Comparison_def xor_lib_def ex_node_def)

lemma ex_one_bucket_inv: "rt_inv (xor_lib nd) ex_one_bucket"
proof -
  have "sorted_wrt (Comparison (xor_lib nd) 0) (map (\<lambda>i. ex_node (256 + 2 * i)) [1..<65])"
    unfolding sorted_wrt_map
    by (rule sorted_wrt_mono_rel [OF _ sorted_wrt_upt]) (auto intro!: ex_node_closer)
  moreover have "ni_id (ex_node (256 + 2 * i)) \<noteq> 0" if "i \<in> set [1..<65]" for i
    using that ex_node_closer(2) [of 0 "256 + 2 * i"] by (auto simp: ex_node_def)
  ultimately show ?thesis
    by (auto simp: rt_inv_def ordered_by_def ex_one_bucket_def Comparison_eq xor_lib_def)
qed

lemma ex_bucket:
  assumes "256 \<le> i" "i < 512"
  shows "bucket_of (xor_lib nd) 0 (ex_node i) = 503"
proof -
  have "(512::nat) < 2 ^ 512" by simp
  then have "unat (of_nat i :: 512 word) = i" using assms by (simp add: unat_of_nat)
  moreover have "bit_width 256 \<le> bit_width i" "bit_width i \<le> 9"
    using assms by (auto intro: bit_width_mono bit_width_less)
  moreover have "bit_width 256 = 9" by (simp add: bit_width.simps)
  ultimately show ?thesis by (simp add: bucket_of_def xor_lib_def ex_node_def)
qed

lemma ex_one_bucket_no_removal: "\<not> removal_documented (xor_lib nd) ex_one_bucket (ex_node 303)"
proof -
  have "bucket_of (xor_lib nd) 0 n = 503" if "n \<in> set (drop GroupSize (rt_nodes ex_one_bucket))" for n
    using in_set_dropD [OF that] by (auto simp: ex_one_bucket_def intro!: ex_bucket)
  moreover have "bucket_of (xor_lib nd) 0 (ex_node 303) = 503" by (rule ex_bucket) simp_all
  ultimately show ?thesis by (auto simp: removal_documented_def ex_one_bucket_def)
qed

lemma ex_table_inv: "n \<le> 64 \<Longrightarrow> rt_inv (xor_lib nd) (ex_table n)"
proof -
  assume n: "n \<le> 64"
  have "sorted_wrt (Comparison (xor_lib nd) 0) (map (\<lambda>i. ex_node (2 * i)) [1..<Suc n])"
    unfolding sorted_wrt_map
    by (rule sorted_wrt_mono_rel [OF _ sorted_wrt_upt]) (use n in \<open>auto intro!: ex_node_closer\<close>)
  moreover have "ni_id (ex_node (2 * i)) \<noteq> 0" if "i \<in> set [1..<Suc n]" for i
    using that n ex_node_closer(2) [of 0 "2 * i"] by (auto simp: ex_node_def)
  ultimately show ?thesis
    by (auto simp: rt_inv_def ordered_by_def ex_table_def Comparison_eq xor_lib_def)
qed

lemma ex_table_add:
  assumes "n < 64"
  shows "AddNode (xor_lib nd) (ex_table n) (ex_node (2 * Suc n)) = Inr (ex_table (Suc n), True, None)"
proof -
  let ?L = "xor_lib nd" and ?x = "ex_node (2 * Suc n)"
  have older: "Comparison ?L 0 y ?x" "ni_id y \<noteq> ni_id ?x" if "y \<in> set (rt_nodes (ex_table n))" for y
  proof -
    from that obtain i where "y = ex_node (2 * i)" "i < Suc n" by (auto simp: ex_table_def)
    then show "Comparison ?L 0 y ?x" "ni_id y \<noteq> ni_id ?x"
      using assms ex_node_closer [of "2 * i" "2 * Suc n"] by auto
  qed
  have "ni_id ?x \<noteq> rt_our_id (ex_table n)"
    using ex_node_closer(2) [of 0 "2 * Suc n"] assms by (auto simp: ex_table_def ex_node_def)
  moreover have "\<not> HaveNode (ex_table n) (ni_id ?x)"
  proof
    assume "HaveNode (ex_table n) (ni_id ?x)"
    then obtain y where "y \<in> set (rt_nodes (ex_table n))" "ni_id ?x = ni_id y"
      unfolding HaveNode_iff by (elim imageE)
    then show False using older(2) [of y] by argo
  qed
  ultimately have fresh: "ni_id ?x \<noteq> rt_our_id (ex_table n)" "\<not> HaveNode (ex_table n) (ni_id ?x)"
    by blast+
  have "insert_contact ?L (ex_table n) ?x = rt_nodes (ex_table n) @ [?x]"
    unfolding insert_contact_def using older(1) by (intro insort_by_last) (simp add: ex_table_def)
  then have "PushBackThenSort ?L (ex_table n) ?x = ex_table (Suc n)"
    using PushBackThenSort_insert [OF xor_lib_closer_order ex_table_inv fresh(2)] assms
    by (simp add: ex_table_def)
  then show ?thesis
    using fresh assms by (simp add: AddNode_def xor_lib_def ex_table_def OptimalSize_def)
qed

lemma ex_table_reachable: "n \<le> 64 \<Longrightarrow> rt_reachable (xor_lib nd) (ex_table n)"
proof (induction n)
  case 0
  have "RoutingTable_new (xor_lib nd) 0 = Inr (ex_table 0)"
    by (simp add: RoutingTable_new_def ex_table_def xor_lib_def)
  then show ?case by (rule rt_reachable.new)
next
  case (Suc n)
  then show ?case using ex_table_add [of n nd] by (auto intro: rt_reachable.add)
qed

lemma ex_table_evicts:
  "AddNode (xor_lib False) (ex_table 64) (ex_node 1) = Inr
     (\<lparr>rt_our_id = 0, rt_nodes = map ex_node (1 # map (\<lambda>i. 2 * i) ([1..<63] @ [64]))\<rparr>,
      True, Some (ex_node 126))"
  by code_simp

lemma ex_fresh: "fresh_contact (xor_lib False) (ex_table 64) (ex_node 1)"
  by code_simp

subsection \<open>Properties\<close>

text \<open>
  C1. In every table the program can build, the contacts are strictly ordered by closeness to
  our address (so no address occurs twice), our own address is not among them, and every
  contact has a valid address and a valid public key.
\<close>

theorem routing_table_invariant:
  assumes "closer_order L" and "rt_reachable L rt"
  shows "rt_inv L rt"
  using assms(2,1) by (rule reachable_inv)

theorem routing_table_invariant_witness:
  "closer_order (xor_lib False) \<and> rt_reachable (xor_lib False) (ex_table 64) \<and>
   rt_inv (xor_lib False) (ex_table 64)"
  using routing_table_invariant [OF xor_lib_closer_order ex_table_reachable [OF order_refl], of False]
    xor_lib_closer_order ex_table_reachable by auto

text \<open>
  C2. The close group stays right: adding a contact that is not yet in the table leaves, as the
  close group, exactly the \<open>GroupSize\<close> contacts closest to us among the old ones and the new
  one, whether the contact is taken, refused or taken in exchange for another.
\<close>

theorem AddNode_close_group:
  assumes "closer_order L" and "rt_reachable L rt" and "fresh_contact L rt info"
    and "AddNode L rt info = Inr (rt', added, dropped)"
  shows "OurCloseGroup rt' = take GroupSize (std_sort (Comparison L (rt_our_id rt)) (info # rt_nodes rt))"
proof -
  have inv: "rt_inv L rt" using assms(2,1) by (rule reachable_inv)
  then have "std_sort (Comparison L (rt_our_id rt)) (info # rt_nodes rt) = insert_contact L rt info"
    using strict_linear_order.std_sort_ordered [OF closer_orderD [OF assms(1)], of _ ni_id "rt_nodes rt"]
    by (simp add: insert_contact_def Comparison_eq rt_inv_def)
  then show ?thesis
    using AddNode_take_group [OF assms(1) inv assms(3,4)] by (simp add: OurCloseGroup_take)
qed

theorem AddNode_close_group_witness:
  "fresh_contact (xor_lib False) (ex_table 64) (ex_node 1) \<and>
   (\<exists>rt'. AddNode (xor_lib False) (ex_table 64) (ex_node 1) = Inr (rt', True, Some (ex_node 126)) \<and>
     OurCloseGroup rt' = take GroupSize (std_sort (Comparison (xor_lib False) 0)
       (ex_node 1 # rt_nodes (ex_table 64))))"
proof -
  have "rt_our_id (ex_table 64) = 0" by (simp add: ex_table_def)
  then show ?thesis
    using AddNode_close_group [OF xor_lib_closer_order ex_table_reachable [OF order_refl] ex_fresh ex_table_evicts]
      ex_table_evicts ex_fresh by metis
qed

text \<open>
  C3. What a full table gives up for a new contact: never a member of the close group, and never
  the last contact of its bucket, so every bucket that was occupied stays occupied. The dropped
  contact leaves the table, the new one enters it and nothing else changes.
\<close>

theorem AddNode_eviction:
  assumes "closer_order L" and "rt_reachable L rt"
    and "AddNode L rt info = Inr (rt', added, Some n)"
  shows "added \<and> n \<in> set (rt_nodes rt) \<and> n \<noteq> info \<and> n \<notin> set (OurCloseGroup rt) \<and>
    set (rt_nodes rt') = insert info (set (rt_nodes rt)) - {n} \<and>
    (\<exists>m \<in> set (rt_nodes rt'). bucket_of L (rt_our_id rt) m = bucket_of L (rt_our_id rt) n)"
proof -
  have inv: "rt_inv L rt" using assms(2,1) by (rule reachable_inv)
  from assms(1) inv AddNode_initialised [OF assms(3)] show ?thesis
  proof (cases rule: AddNode_cases)
    case (close_evict c)
    let ?ins = "insert_contact L rt info"
    have "?ins ! (c - 1) \<in> set (erase_at c ?ins)"
      using close_evict(5,6) by (intro nth_in_erase_at) auto
    then show ?thesis
      using close_eviction [OF assms(1) inv close_evict(1) full_table [OF close_evict(2)] close_evict(3,5,6)]
        close_evict(4,7) assms(3) by auto
  next
    case (far_evict c)
    have "rt_nodes rt ! (c - 1) \<in> set (erase_at c (rt_nodes rt))"
      using far_evict(5,6) by (intro nth_in_erase_at) auto
    then show ?thesis
      using far_eviction [OF assms(1) inv far_evict(1,5,6)] far_evict(4,7) assms(3) by auto
  qed (use assms(3) in auto)
qed

theorem AddNode_eviction_witness:
  "\<exists>rt'. AddNode (xor_lib False) (ex_table 64) (ex_node 1) = Inr (rt', True, Some (ex_node 126)) \<and>
     ex_node 126 \<in> set (rt_nodes (ex_table 64)) \<and> ex_node 126 \<notin> set (OurCloseGroup (ex_table 64)) \<and>
     set (rt_nodes rt') = insert (ex_node 1) (set (rt_nodes (ex_table 64))) - {ex_node 126}"
  using AddNode_eviction [OF xor_lib_closer_order ex_table_reachable [OF order_refl] ex_table_evicts]
    ex_table_evicts by blast

text \<open>
  C4. \<open>CheckNode\<close> predicts \<open>AddNode\<close>: for a contact with a valid key the two give the same
  answer, so the public key is fetched exactly for the contacts that will be added.
\<close>

theorem CheckNode_predicts_AddNode:
  assumes "closer_order L" and "rt_reachable L rt" and "IsInitialised L (ni_id info)"
    and "ValidateKey L (fob_public_key L (dht_fob info))"
  shows "\<exists>rt' added dropped. AddNode L rt info = Inr (rt', added, dropped) \<and>
    CheckNode L rt (ni_id info) = Inr added"
proof -
  have inv: "rt_inv L rt" using assms(2,1) by (rule reachable_inv)
  obtain rt' added dropped where "AddNode L rt info = Inr (rt', added, dropped)"
    using assms(1) inv assms(3) by (rule AddNode_cases) auto
  then show ?thesis using CheckNode_AddNode_flag [OF assms(3,4,1) inv] by blast
qed

theorem CheckNode_predicts_AddNode_witness:
  "\<exists>rt'. AddNode (xor_lib False) (ex_table 64) (ex_node 1) = Inr (rt', True, Some (ex_node 126)) \<and>
     CheckNode (xor_lib False) (ex_table 64) (ni_id (ex_node 1)) = Inr True"
proof -
  have "IsInitialised (xor_lib False) (ni_id (ex_node 1))"
    "ValidateKey (xor_lib False) (fob_public_key (xor_lib False) (dht_fob (ex_node 1)))"
    by (simp_all add: xor_lib_def)
  from CheckNode_predicts_AddNode [OF xor_lib_closer_order ex_table_reachable [OF order_refl] this]
  show ?thesis using ex_table_evicts by auto
qed

text \<open>
  C5. The table stays bounded: however many contacts are offered, it never holds more than the
  close group and one contact for each of the 512 buckets.
\<close>

theorem routing_table_size_bound:
  assumes "closer_order L" and "leading_bits_closer L" and "leading_bits_range L"
    and "rt_reachable L rt"
  shows "Size rt \<le> GroupSize + 512"
  using reachable_size_bound [OF assms] by (simp add: Size_def)

theorem routing_table_size_bound_witness:
  "rt_reachable (xor_lib False) (ex_table 64) \<and> Size (ex_table 64) \<le> GroupSize + 512"
  using routing_table_size_bound [OF xor_lib_laws ex_table_reachable [OF order_refl]]
    ex_table_reachable by blast

text \<open>
  C6. Where a message for \<open>target\<close> is sent: to the whole close group when the contact closest to
  the target belongs to it, and to the four contacts closest to the target otherwise; the contact
  closest to the target is always among them.
\<close>

theorem TargetNodes_closest:
  assumes "closer_order L" and "rt_reachable L rt" and "IsInitialised L target"
    and "rt_nodes rt \<noteq> []"
  shows "\<exists>c \<in> set (rt_nodes rt).
    (\<forall>n \<in> set (rt_nodes rt). n = c \<or> CloserToTarget L (ni_id c) (ni_id n) target) \<and>
    (\<exists>result. TargetNodes L rt target = Inr result \<and> c \<in> set result \<and>
      result = (if c \<in> set (OurCloseGroup rt) then OurCloseGroup rt
                else take 4 (std_sort (Comparison L target) (rt_nodes rt))))"
proof -
  have inv: "rt_inv L rt" using assms(2,1) by (rule reachable_inv)
  let ?ys = "std_sort (Comparison L target) (rt_nodes rt)"
  obtain n where n: "n \<in> set (rt_nodes rt)" using assms(4) by (cases "rt_nodes rt") auto
  have "?ys \<noteq> []" using n by (metis empty_iff list.set(1) set_std_sort)
  then have "hd ?ys \<in> set (take 4 ?ys)" by (cases ?ys) auto
  then show ?thesis
    using closest_contact [OF assms(1) inv _ refl, of _ target] n TargetNodes_eq [OF assms(1) inv assms(3,4)]
    by (intro bexI [of _ "hd ?ys"]) (auto simp: Parallelism_def)
qed

theorem TargetNodes_closest_witness:
  "\<exists>c \<in> set (rt_nodes (ex_table 64)). \<exists>result.
     TargetNodes (xor_lib False) (ex_table 64) 5 = Inr result \<and> c \<in> set result"
proof -
  have "IsInitialised (xor_lib False) 5" "rt_nodes (ex_table 64) \<noteq> []"
    by (simp_all add: xor_lib_def ex_table_def)
  from TargetNodes_closest [OF xor_lib_closer_order ex_table_reachable [OF order_refl] this]
  show ?thesis by blast
qed

text \<open>
  C7. An operation of a reachable table fails exactly when it is given an address that is not
  initialised; no assertion inside the operations can fail, \<open>nodes_.at(GroupSize)\<close> is always
  in range, and no iterator leaves its range.
\<close>

theorem routing_table_fails_iff:
  assumes "closer_order L" and "rt_reachable L rt"
  shows "(\<exists>e. AddNode L rt info = Inl e) = (\<not> IsInitialised L (ni_id info)) \<and>
    (\<exists>e. CheckNode L rt a = Inl e) = (\<not> IsInitialised L a) \<and>
    (\<exists>e. DropNode L rt a = Inl e) = (\<not> IsInitialised L a) \<and>
    (\<exists>e. TargetNodes L rt a = Inl e) = (\<not> IsInitialised L a) \<and>
    (\<exists>e. GetPublicKey L rt a = Inl e) = (\<not> IsInitialised L a)"
proof -
  have inv: "rt_inv L rt" using assms(2,1) by (rule reachable_inv)
  have "\<exists>r. AddNode L rt info = Inr r" if "IsInitialised L (ni_id info)"
    using assms(1) inv that by (rule AddNode_cases) auto
  moreover have "\<exists>r. TargetNodes L rt a = Inr r" if "IsInitialised L a"
    using that TargetNodes_eq [OF assms(1) inv that]
    by (cases "rt_nodes rt = []") (auto simp: TargetNodes_def)
  moreover have "\<exists>r. DropNode L rt a = Inr r" "\<exists>r. GetPublicKey L rt a = Inr r"
    if "IsInitialised L a"
    using that GetPublicKey_eq [OF assms(1) inv that] by (auto simp: DropNode_def)
  ultimately show ?thesis
    using CheckNode_total [OF inv] uninitialised_fails [of L]
    by (intro conjI fails_iffI) simp_all
qed

theorem routing_table_fails_iff_witness:
  "rt_reachable (xor_lib False) (ex_table 64) \<and>
   (\<exists>e. AddNode (xor_lib False) (ex_table 64) (ex_node 7) = Inl e) =
     (\<not> IsInitialised (xor_lib False) (ni_id (ex_node 7)))"
  using routing_table_fails_iff [OF xor_lib_closer_order ex_table_reachable [OF order_refl],
      where info = "ex_node 7"] ex_table_reachable by blast

text \<open>
  C8. \<open>AddNode\<close> adds a contact by the rules that its documentation gives, with one exception: to a full table
  it also adds, as if it belonged to the close group, a contact that would be the first one after the close group,
  whatever the buckets say.
\<close>

theorem AddNode_follows_rules:
  assumes "closer_order L" and "leading_bits_closer L" and "rt_inv L rt" and "IsInitialised L (ni_id info)"
  shows "\<exists>rt' added dropped. AddNode L rt info = Inr (rt', added, dropped) \<and>
    (added \<longleftrightarrow> addition_documented L rt info \<or>
      fresh_contact L rt info \<and> OptimalSize \<le> Size rt \<and> just_outside_group L rt info)"
proof -
  obtain rt' added dropped where add: "AddNode L rt info = Inr (rt', added, dropped)"
    using assms(1,3,4) by (rule AddNode_cases) auto
  then show ?thesis using AddNode_added_iff [OF assms(1-3) add] by (auto simp: Size_def)
qed

text \<open>A table of one bucket: the contact 303 is not among the 23 closest, no bucket is further, and it is added.\<close>

theorem AddNode_follows_rules_witness:
  "\<exists>rt' dropped. AddNode (xor_lib False) ex_one_bucket (ex_node 303) = Inr (rt', True, dropped) \<and>
     \<not> addition_documented (xor_lib False) ex_one_bucket (ex_node 303)"
proof -
  have full: "OptimalSize \<le> Size ex_one_bucket" by code_simp
  have new: "fresh_contact (xor_lib False) ex_one_bucket (ex_node 303)" by code_simp
  have outside: "just_outside_group (xor_lib False) ex_one_bucket (ex_node 303)" by code_simp
  then have "\<not> addition_documented (xor_lib False) ex_one_bucket (ex_node 303)"
    using full ex_one_bucket_no_removal
    by (auto simp: addition_documented_def just_outside_group_def Size_def)
  moreover have "IsInitialised (xor_lib False) (ni_id (ex_node 303))" by (simp add: xor_lib_def)
  note AddNode_follows_rules [OF xor_lib_laws(1,2) ex_one_bucket_inv this]
  ultimately show ?thesis using full new outside by auto
qed

text \<open>
  What is added can be looked up and what is dropped is gone: after a contact was taken its
  public key is returned for its address; after \<open>DropNode\<close> there is no key for that address and
  every other address gives the key it gave before.
\<close>

lemma public_key_lookup:
  assumes "closer_order L" and "rt_reachable L rt"
  shows "(AddNode L rt info = Inr (rt', True, dropped) \<longrightarrow>
      GetPublicKey L rt' (ni_id info) = Inr (Some (fob_public_key L (dht_fob info)))) \<and>
    (DropNode L rt a = Inr rt'' \<longrightarrow> GetPublicKey L rt'' a = Inr None \<and>
      (\<forall>b. b \<noteq> a \<longrightarrow> GetPublicKey L rt'' b = GetPublicKey L rt b))"
proof (intro conjI impI)
  have inv: "rt_inv L rt" using assms(2,1) by (rule reachable_inv)
  {
    assume add: "AddNode L rt info = Inr (rt', True, dropped)"
    have inv': "rt_inv L rt'" using assms(1) inv add by (rule AddNode_inv)
    have "info \<in> set (rt_nodes rt')" using assms(1) inv add by (rule AddNode_added)
    then have "find (\<lambda>n. ni_id n = ni_id info) (rt_nodes rt') = Some info"
      using rt_inv_distinct [OF assms(1) inv'] by (intro find_distinct)
    then show "GetPublicKey L rt' (ni_id info) = Inr (Some (fob_public_key L (dht_fob info)))"
      using GetPublicKey_eq [OF assms(1) inv' AddNode_initialised [OF add]] by simp
  }
  {
    assume drop: "DropNode L rt a = Inr rt''"
    have inv'': "rt_inv L rt''" using inv drop by (rule DropNode_inv)
    have a: "IsInitialised L a" using drop uninitialised_fails(2) [of L a rt] by fastforce
    have nodes: "rt_nodes rt'' = filter (\<lambda>n. ni_id n \<noteq> a) (rt_nodes rt)" "rt_our_id rt'' = rt_our_id rt"
      using drop a by (auto simp: DropNode_def)
    then show "GetPublicKey L rt'' a = Inr None"
      using GetPublicKey_eq [OF assms(1) inv'' a] by (simp add: find_None_iff)
    show "\<forall>b. b \<noteq> a \<longrightarrow> GetPublicKey L rt'' b = GetPublicKey L rt b"
    proof (intro allI impI)
      fix b assume "b \<noteq> a"
      then have "find (\<lambda>n. ni_id n = b) (rt_nodes rt'') = find (\<lambda>n. ni_id n = b) (rt_nodes rt)"
        unfolding nodes by (rule find_filter_other)
      then show "GetPublicKey L rt'' b = GetPublicKey L rt b"
        using GetPublicKey_eq [OF assms(1) inv''] GetPublicKey_eq [OF assms(1) inv]
          rt_inv_is_sorted [OF assms(1) inv''] rt_inv_is_sorted [OF assms(1) inv]
        by (simp add: GetPublicKey_def)
    qed
  }
qed

lemma public_key_lookup_witness:
  "\<exists>rt'. AddNode (xor_lib False) (ex_table 64) (ex_node 1) = Inr (rt', True, Some (ex_node 126)) \<and>
     GetPublicKey (xor_lib False) rt' (ni_id (ex_node 1)) = Inr (Some 1)"
proof -
  have key: "fob_public_key (xor_lib False) (dht_fob (ex_node 1)) = 1"
    by (simp add: xor_lib_def ex_node_def)
  obtain rt' where add: "AddNode (xor_lib False) (ex_table 64) (ex_node 1) = Inr (rt', True, Some (ex_node 126))"
    using ex_table_evicts by blast
  have reach: "rt_reachable (xor_lib False) (ex_table 64)" by (simp add: ex_table_reachable)
  have "GetPublicKey (xor_lib False) rt' (ni_id (ex_node 1)) =
      Inr (Some (fob_public_key (xor_lib False) (dht_fob (ex_node 1))))"
    by (rule public_key_lookup [OF xor_lib_closer_order reach, THEN conjunct1, THEN mp, OF add])
  with add show ?thesis unfolding key by blast
qed

end
