(* ===== verification/Accumulator.thy ===== *)
theory Accumulator
  imports Ordered_Containers Routing_Types "HOL-Library.Product_Lexorder"
begin

text \<open>
  The accumulator (\<^verbatim>\<open>accumulator.h\<close>): it collects the values that different senders give for
  one name until a quorum of senders is reached, and forgets names by age.

  A \<^verbatim>\<open>std::list\<close> is the list of its nodes. A node has an identity, which is what the iterators
  kept in the storage point at, and a name. \<open>next_node\<close> is the identity of the next node the
  list allocates. A clock is the sequence of the readings of \<^verbatim>\<open>steady_clock::now()\<close> that one
  operation makes, in ticks.
\<close>

subsection \<open>State and operations\<close>

type_synonym clock = "nat \<Rightarrow> int"
type_synonym ('a, 'v) senders = "('a, 'v) smap"

record ('n, 'v, 'a) Accumulator =
  time_to_live :: int
  quorum :: "32 word"
  name_order :: "(nat \<times> 'n) list"
  storage :: "('n, ('a, 'v) senders \<times> nat \<times> int) smap"
  next_node :: nat

definition Accumulator_new :: "int \<Rightarrow> 32 word \<Rightarrow> ('n, 'v, 'a) Accumulator" where
  "Accumulator_new ttl q =
     \<lparr>time_to_live = ttl, quorum = q, name_order = [], storage = [], next_node = 0\<rparr>"

definition HaveName :: "('n::linorder, 'v, 'a) Accumulator \<Rightarrow> 'n \<Rightarrow> bool" where
  "HaveName acc name \<longleftrightarrow> smap_find (<) name (storage acc) \<noteq> None"

definition CheckQuorumReached :: "('n::linorder, 'v, 'a) Accumulator \<Rightarrow> 'n \<Rightarrow> bool" where
  "CheckQuorumReached acc name =
     (case smap_find (<) name (storage acc) of
        None \<Rightarrow> False
      | Some (m, _, _) \<Rightarrow> unat (quorum acc) \<le> length m)"

definition GetAll ::
  "('n::linorder, 'v, 'a) Accumulator \<Rightarrow> 'n \<Rightarrow> ('n \<times> ('a, 'v) senders) option" where
  "GetAll acc name =
     (case smap_find (<) name (storage acc) of None \<Rightarrow> None | Some (m, _, _) \<Rightarrow> Some (name, m))"

definition accumulator_size :: "('n, 'v, 'a) Accumulator \<Rightarrow> nat" where
  "accumulator_size acc = length (storage acc)"

text \<open>\<open>splice\<close> to the end and to the beginning of the list, of the node an iterator points at\<close>

definition splice_end :: "nat \<Rightarrow> (nat \<times> 'n) list \<Rightarrow> (nat \<times> 'n) list" where
  "splice_end h xs = filter (\<lambda>p. fst p \<noteq> h) xs @ filter (\<lambda>p. fst p = h) xs"

definition splice_begin :: "nat \<Rightarrow> (nat \<times> 'n) list \<Rightarrow> (nat \<times> 'n) list" where
  "splice_begin h xs = filter (\<lambda>p. fst p = h) xs @ filter (\<lambda>p. fst p \<noteq> h) xs"

text \<open>
  \<open>front\<close> and \<open>pop_front\<close> of an empty list, and the erasure of an end iterator, are undefined
  when the assertions before them are compiled out.
\<close>

definition RemoveOldestElement ::
  "bool \<Rightarrow> ('n::linorder, 'v, 'a) Accumulator \<Rightarrow> ('n, 'v, 'a) Accumulator result" where
  "RemoveOldestElement ndebug acc =
     bindR (cpp_assert ndebug (name_order acc \<noteq> [])) (\<lambda>_.
     case name_order acc of
       [] \<Rightarrow> Inl undefined_behaviour
     | (_, oldest) # rest \<Rightarrow>
         bindR (cpp_assert ndebug (smap_find (<) oldest (storage acc) \<noteq> None)) (\<lambda>_.
         if smap_find (<) oldest (storage acc) = None then Inl undefined_behaviour
         else Inr (acc\<lparr>storage := smap_erase (<) oldest (storage acc), name_order := rest\<rparr>)))"

definition CheckTimeExpired ::
  "bool \<Rightarrow> int \<Rightarrow> ('n::linorder, 'v, 'a) Accumulator \<Rightarrow> bool result" where
  "CheckTimeExpired ndebug now acc =
     (if time_to_live acc = 0 \<or> storage acc = [] then Inr False
      else case name_order acc of
        [] \<Rightarrow> Inl undefined_behaviour
      | (_, oldest) # _ \<Rightarrow>
          bindR (cpp_assert ndebug (smap_find (<) oldest (storage acc) \<noteq> None)) (\<lambda>_.
          case smap_find (<) oldest (storage acc) of
            None \<Rightarrow> Inl undefined_behaviour
          | Some (_, _, t) \<Rightarrow> Inr (t + time_to_live acc < now)))"

definition ReOrder ::
  "bool \<Rightarrow> ('n::linorder, 'v, 'a) Accumulator \<Rightarrow> 'n \<Rightarrow> ('n, 'v, 'a) Accumulator result" where
  "ReOrder ndebug acc name =
     bindR (cpp_assert ndebug (smap_find (<) name (storage acc) \<noteq> None)) (\<lambda>_.
     case smap_find (<) name (storage acc) of
       None \<Rightarrow> Inl undefined_behaviour
     | Some (_, h, _) \<Rightarrow> Inr (acc\<lparr>name_order := splice_end h (name_order acc)\<rparr>))"

lemma RemoveOldestElement_shorter:
  "RemoveOldestElement nd acc = Inr acc' \<Longrightarrow> length (name_order acc') < length (name_order acc)"
  by (auto simp: RemoveOldestElement_def bindR_eq_Inr split: list.splits if_splits)

text \<open>
  The loop of \<open>AddNew\<close>. The result has the number of clock readings made. Each round removes
  an element of \<open>name_order_\<close>, so the loop ends.
\<close>

function remove_expired ::
  "bool \<Rightarrow> clock \<Rightarrow> nat \<Rightarrow> ('n::linorder, 'v, 'a) Accumulator \<Rightarrow> (nat \<times> ('n, 'v, 'a) Accumulator) result" where
  "remove_expired ndebug now i acc =
     bindR (CheckTimeExpired ndebug (now i) acc) (\<lambda>expired.
     if expired
     then bindR (RemoveOldestElement ndebug acc) (\<lambda>acc'. remove_expired ndebug now (Suc i) acc')
     else Inr (Suc i, acc))"
  by pat_completeness auto
termination
  by (relation "measure (\<lambda>(_, _, _, acc). length (name_order acc))")
    (auto dest: RemoveOldestElement_shorter)

declare remove_expired.simps [simp del]

definition AddNew ::
  "bool \<Rightarrow> clock \<Rightarrow> ('n::linorder, 'v, 'a::linorder) Accumulator \<Rightarrow> 'n \<Rightarrow> 'v \<Rightarrow> 'a \<Rightarrow>
     ('n, 'v, 'a) Accumulator result" where
  "AddNew ndebug now acc name value sender =
     bindR (remove_expired ndebug now 0 acc) (\<lambda>(i, acc').
     let it = next_node acc' in
     Inr (acc'\<lparr>name_order := name_order acc' @ [(it, name)],
               next_node := Suc it,
               storage := smap_insert (<) name (smap_insert (<) sender value [], it, now i) (storage acc')\<rparr>))"

definition Accumulator_Add ::
  "bool \<Rightarrow> clock \<Rightarrow> ('n::linorder, 'v, 'a::linorder) Accumulator \<Rightarrow> 'n \<Rightarrow> 'v \<Rightarrow> 'a \<Rightarrow>
     (('n, 'v, 'a) Accumulator \<times> ('n \<times> ('a, 'v) senders) option) result" where
  "Accumulator_Add ndebug now acc name value sender =
     bindR (if smap_find (<) name (storage acc) = None
            then AddNew ndebug now acc name value sender else Inr acc) (\<lambda>acc1.
     case smap_find (<) name (storage acc1) of
       None \<Rightarrow> Inl undefined_behaviour
     | Some (m, h, t) \<Rightarrow>
         let m' = smap_insert (<) sender value m;
             acc2 = acc1\<lparr>storage := smap_assign (<) name (m', h, t) (storage acc1)\<rparr>
         in bindR (ReOrder ndebug acc2 name) (\<lambda>acc3.
            Inr (acc3, if unat (quorum acc3) \<le> length m' then Some (name, m') else None)))"

definition Accumulator_Delete ::
  "bool \<Rightarrow> int \<Rightarrow> ('n::linorder, 'v, 'a) Accumulator \<Rightarrow> 'n \<Rightarrow> ('n, 'v, 'a) Accumulator result" where
  "Accumulator_Delete ndebug now acc key =
     (case smap_find (<) key (storage acc) of
        None \<Rightarrow> Inr acc
      | Some (m, h, t) \<Rightarrow>
          RemoveOldestElement ndebug
            (acc\<lparr>storage := smap_assign (<) key (m, h, now - time_to_live acc) (storage acc),
                 name_order := splice_begin h (name_order acc)\<rparr>))"

subsection \<open>Abstract specification\<close>

text \<open>
  What the two containers stand for together: the names, least recently used first, each with
  the time it was created and the value of each of its senders.
\<close>

type_synonym ('n, 'v, 'a) entries = "('n \<times> int \<times> ('a \<rightharpoonup> 'v)) list"

definition entry_of :: "('n, 'v, 'a) Accumulator \<Rightarrow> 'n \<Rightarrow> 'n \<times> int \<times> ('a \<rightharpoonup> 'v)" where
  "entry_of acc n = (case map_of (storage acc) n of
     None \<Rightarrow> (n, 0, Map.empty) | Some (m, _, t) \<Rightarrow> (n, t, map_of m))"

definition entries :: "('n, 'v, 'a) Accumulator \<Rightarrow> ('n, 'v, 'a) entries" where
  "entries acc = map (entry_of acc) (map snd (name_order acc))"

definition spec_expired :: "int \<Rightarrow> int \<Rightarrow> ('n, 'v, 'a) entries \<Rightarrow> bool" where
  "spec_expired ttl now es \<longleftrightarrow> ttl \<noteq> 0 \<and> (case es of [] \<Rightarrow> False | (_, t, _) # _ \<Rightarrow> t + ttl < now)"

fun spec_expire :: "int \<Rightarrow> clock \<Rightarrow> nat \<Rightarrow> ('n, 'v, 'a) entries \<Rightarrow> nat \<times> ('n, 'v, 'a) entries" where
  "spec_expire ttl now i [] = (Suc i, [])"
| "spec_expire ttl now i (e # es) =
     (if spec_expired ttl (now i) (e # es) then spec_expire ttl now (Suc i) es else (Suc i, e # es))"

definition spec_add ::
  "int \<Rightarrow> clock \<Rightarrow> 'n \<Rightarrow> 'v \<Rightarrow> 'a \<Rightarrow> ('n, 'v, 'a) entries \<Rightarrow> ('n, 'v, 'a) entries" where
  "spec_add ttl now n v s es =
     (case map_of es n of
        None \<Rightarrow> (case spec_expire ttl now 0 es of (i, es') \<Rightarrow> es' @ [(n, now i, [s \<mapsto> v])])
      | Some (t, m) \<Rightarrow> filter (\<lambda>e. fst e \<noteq> n) es @ [(n, t, if m s = None then m(s \<mapsto> v) else m)])"

definition spec_delete :: "'n \<Rightarrow> ('n, 'v, 'a) entries \<Rightarrow> ('n, 'v, 'a) entries" where
  "spec_delete n es = filter (\<lambda>e. fst e \<noteq> n) es"

subsection \<open>The invariant\<close>

definition acc_inv :: "('n::linorder, 'v, 'a::linorder) Accumulator \<Rightarrow> bool" where
  "acc_inv acc \<longleftrightarrow>
     smap_wf (<) (storage acc)
   \<and> distinct (map fst (name_order acc)) \<and> distinct (map snd (name_order acc))
   \<and> (\<forall>h n. (h, n) \<in> set (name_order acc) \<longleftrightarrow> (\<exists>m t. map_of (storage acc) n = Some (m, h, t)))
   \<and> (\<forall>h n. (h, n) \<in> set (name_order acc) \<longrightarrow> h < next_node acc)
   \<and> (\<forall>n m h t. map_of (storage acc) n = Some (m, h, t) \<longrightarrow> smap_wf (<) m \<and> m \<noteq> [])"

lemmas smap_less = std_less.smap_find_map_of std_less.smap_wf_insert std_less.smap_wf_erase
  std_less.smap_wf_assign std_less.map_of_smap_insert std_less.map_of_smap_erase
  std_less.map_of_smap_assign

lemma acc_invD:
  assumes "acc_inv acc"
  shows acc_inv_wf: "smap_wf (<) (storage acc)"
    and acc_inv_handles: "distinct (map fst (name_order acc))"
    and acc_inv_names: "distinct (map snd (name_order acc))"
    and acc_inv_sync: "(h, n) \<in> set (name_order acc) \<longleftrightarrow> (\<exists>m t. map_of (storage acc) n = Some (m, h, t))"
    and acc_inv_fresh: "(h, n) \<in> set (name_order acc) \<Longrightarrow> h < next_node acc"
    and acc_inv_senders: "map_of (storage acc) n = Some (m, h, t) \<Longrightarrow> smap_wf (<) m \<and> m \<noteq> []"
  using assms unfolding acc_inv_def by blast+

lemma acc_inv_new: "acc_inv (Accumulator_new ttl q)"
  by (simp add: acc_inv_def Accumulator_new_def)

lemma entries_new [simp]: "entries (Accumulator_new ttl q) = []"
  by (simp add: entries_def Accumulator_new_def)

lemma fst_entry_of [simp]: "fst (entry_of acc n) = n"
  by (simp add: entry_of_def split: option.splits prod.splits)

lemma map_fst_entries [simp]: "map fst (entries acc) = map snd (name_order acc)"
  by (simp add: entries_def comp_def)

lemma acc_inv_dom:
  assumes "acc_inv acc"
  shows "n \<in> snd ` set (name_order acc) \<longleftrightarrow> map_of (storage acc) n \<noteq> None"
  using acc_inv_sync [OF assms, of _ n] by (force simp: image_iff)

lemma map_of_entries:
  assumes "acc_inv acc"
  shows "map_of (entries acc) n = map_option (\<lambda>(m, h, t). (t, map_of m)) (map_of (storage acc) n)"
proof (cases "map_of (storage acc) n")
  case None
  then have "n \<notin> fst ` set (entries acc)"
    using acc_inv_dom [OF assms, of n] map_fst_entries [of acc] by (metis list.set_map)
  then have "map_of (entries acc) n = None" by (simp add: map_of_eq_None_iff)
  with None show ?thesis by simp
next
  case (Some e)
  obtain m h t where e: "e = (m, h, t)" by (cases e) auto
  have "n \<in> snd ` set (name_order acc)" unfolding acc_inv_dom [OF assms] Some by (rule option.distinct(2))
  then have "entry_of acc n \<in> set (entries acc)" by (auto simp: entries_def)
  then have "(n, t, map_of m) \<in> set (entries acc)" by (simp add: entry_of_def Some e)
  moreover have "distinct (map fst (entries acc))" using acc_inv_names [OF assms] by simp
  ultimately show ?thesis by (simp add: Some e)
qed

lemma not_in_entries:
  assumes "acc_inv acc"
  shows "n \<notin> fst ` set (entries acc) \<longleftrightarrow> map_of (storage acc) n = None"
  unfolding list.set_map [symmetric] map_fst_entries unfolding list.set_map
  using acc_inv_dom [OF assms, of n] by blast

lemma smap_insert_not_Nil [simp]: "smap_insert lt k v m \<noteq> []"
  by (induction lt k v m rule: smap_insert.induct) simp_all

text \<open>Two accumulators agree on a name's entry when their storage does, up to the list node.\<close>

lemma entry_of_cong: "map_of (storage acc') n = map_of (storage acc) n \<Longrightarrow> entry_of acc' n = entry_of acc n"
  by (simp add: entry_of_def)

lemma entries_restrict:
  assumes "\<And>n. n \<in> snd ` set xs \<Longrightarrow> map_of (storage acc') n = map_of (storage acc) n" "name_order acc' = xs"
  shows "entries acc' = map (entry_of acc) (map snd xs)"
  using assms by (auto simp: entries_def intro!: entry_of_cong)

subsection \<open>Each operation implements the specification\<close>

lemma RemoveOldestElement_ok:
  assumes inv: "acc_inv acc" and ne: "name_order acc \<noteq> []"
  shows "\<exists>acc'. RemoveOldestElement nd acc = Inr acc' \<and> acc_inv acc' \<and> entries acc' = tl (entries acc)
    \<and> time_to_live acc' = time_to_live acc \<and> quorum acc' = quorum acc"
proof -
  obtain h n rest where no: "name_order acc = (h, n) # rest" using ne by (cases "name_order acc") auto
  have in_st: "map_of (storage acc) n \<noteq> None" using acc_inv_dom [OF inv, of n] no by simp
  define acc' where "acc' = acc\<lparr>storage := smap_erase (<) n (storage acc), name_order := rest\<rparr>"
  have n_rest: "n \<notin> snd ` set rest" and h_rest: "h \<notin> fst ` set rest"
    using acc_inv_names [OF inv] acc_inv_handles [OF inv] no by auto
  have st: "map_of (storage acc') = (map_of (storage acc))(n := None)"
    by (simp add: acc'_def std_less.map_of_smap_erase)
  have n_rest': "(h', n) \<notin> set rest" for h' using n_rest by force
  have acc'_name: "name_order acc' = rest" by (simp add: acc'_def)
  have "RemoveOldestElement nd acc = Inr acc'"
    using in_st by (simp add: RemoveOldestElement_def no acc'_def cpp_assert_def std_less.smap_find_map_of)
  moreover have "acc_inv acc'"
    unfolding acc_inv_def
  proof (intro conjI allI impI)
    show "smap_wf (<) (storage acc')"
      using acc_inv_wf [OF inv] by (simp add: acc'_def std_less.smap_wf_erase)
    show "distinct (map fst (name_order acc'))" "distinct (map snd (name_order acc'))"
      using acc_inv_names [OF inv] acc_inv_handles [OF inv] no by (auto simp: acc'_def)
    fix h' n'
    show "(h', n') \<in> set (name_order acc') \<longleftrightarrow> (\<exists>m t. map_of (storage acc') n' = Some (m, h', t))"
      using acc_inv_sync [OF inv, of h' n'] n_rest' no by (cases "n' = n") (auto simp: st acc'_name)
    show "(h', n') \<in> set (name_order acc') \<Longrightarrow> h' < next_node acc'"
      using acc_inv_fresh [OF inv, of h' n'] no by (simp add: acc'_def)
  next
    fix n' m h' t assume "map_of (storage acc') n' = Some (m, h', t)"
    then have "map_of (storage acc) n' = Some (m, h', t)" by (simp add: st split: if_splits)
    then show "smap_wf (<) m" "m \<noteq> []" using acc_inv_senders [OF inv] by blast+
  qed
  moreover have "entries acc' = map (entry_of acc) (map snd rest)"
    by (rule entries_restrict) (use n_rest in \<open>auto simp: st acc'_name\<close>)
  ultimately show ?thesis by (simp add: no entries_def acc'_def)
qed

lemma CheckTimeExpired_ok:
  assumes inv: "acc_inv acc"
  shows "CheckTimeExpired nd now acc = Inr (spec_expired (time_to_live acc) now (entries acc))"
proof (cases "name_order acc")
  case Nil
  then have "map_of (storage acc) n = None" for n
    using acc_inv_dom [OF inv, of n] Nil by (metis image_empty empty_iff list.set(1))
  then have "map_of (storage acc) = Map.empty" by (rule ext)
  then have "storage acc = []" by simp
  with Nil show ?thesis by (simp add: CheckTimeExpired_def spec_expired_def entries_def)
next
  case (Cons p rest)
  obtain h n where p: "p = (h, n)" by (cases p)
  obtain m t where n: "map_of (storage acc) n = Some (m, h, t)"
    using acc_inv_sync [OF inv, of h n] Cons p by auto
  then have "storage acc \<noteq> []" by auto
  with n show ?thesis
    by (simp add: CheckTimeExpired_def spec_expired_def entries_def Cons p entry_of_def cpp_assert_def
        std_less.smap_find_map_of)
qed

lemma remove_expired_ok:
  assumes "acc_inv acc"
  shows "\<exists>j acc'. remove_expired nd now i acc = Inr (j, acc') \<and> acc_inv acc'
    \<and> (j, entries acc') = spec_expire (time_to_live acc) now i (entries acc)
    \<and> time_to_live acc' = time_to_live acc \<and> quorum acc' = quorum acc"
  using assms
proof (induction "length (name_order acc)" arbitrary: acc i rule: less_induct)
  case less
  show ?case
  proof (cases "spec_expired (time_to_live acc) (now i) (entries acc)")
    case False
    then have "spec_expire (time_to_live acc) now i (entries acc) = (Suc i, entries acc)"
      by (cases "entries acc") auto
    with False less.prems show ?thesis
      by (simp add: remove_expired.simps [of nd now i acc] CheckTimeExpired_ok)
  next
    case True
    then have ne: "entries acc \<noteq> []" by (auto simp: spec_expired_def)
    then have "name_order acc \<noteq> []" by (auto simp: entries_def)
    then obtain acc1 where r: "RemoveOldestElement nd acc = Inr acc1" "acc_inv acc1"
      "entries acc1 = tl (entries acc)" "time_to_live acc1 = time_to_live acc" "quorum acc1 = quorum acc"
      using RemoveOldestElement_ok [OF less.prems, of nd] by blast
    obtain j acc' where "remove_expired nd now (Suc i) acc1 = Inr (j, acc')" "acc_inv acc'"
      "(j, entries acc') = spec_expire (time_to_live acc1) now (Suc i) (entries acc1)"
      "time_to_live acc' = time_to_live acc1" "quorum acc' = quorum acc1"
      using less.hyps [OF RemoveOldestElement_shorter [OF r(1)] r(2), of "Suc i"] by blast
    moreover have "spec_expire (time_to_live acc) now i (entries acc)
        = spec_expire (time_to_live acc) now (Suc i) (tl (entries acc))"
      using True ne by (cases "entries acc") auto
    ultimately show ?thesis
      using True r less.prems by (simp add: remove_expired.simps [of nd now i acc] CheckTimeExpired_ok)
  qed
qed

lemma splice_node:
  assumes "distinct (map fst xs)" "distinct (map snd xs)" "(h, n) \<in> set xs"
  shows "filter (\<lambda>p. fst p = h) xs = [(h, n)]"
    and "filter (\<lambda>p. fst p \<noteq> h) xs = filter (\<lambda>p. snd p \<noteq> n) xs"
proof -
  have eq: "fst p = h \<longleftrightarrow> snd p = n" if "p \<in> set xs" for p
    using assms that by (cases p) (metis eq_key_imp_eq_value fst_conv snd_conv inj_on_eq_iff distinct_map)
  show "filter (\<lambda>p. fst p \<noteq> h) xs = filter (\<lambda>p. snd p \<noteq> n) xs"
    using eq by (intro filter_cong) auto
  show "filter (\<lambda>p. fst p = h) xs = [(h, n)]"
    using assms(1,3)
  proof (induction xs)
    case (Cons p ps)
    show ?case
    proof (cases "(h, n) \<in> set ps")
      case True
      then have "h \<in> fst ` set ps" by (rule rev_image_eqI) simp
      then have "fst p \<noteq> h" using Cons.prems(1) by auto
      with True Cons show ?thesis by simp
    next
      case False
      then have "p = (h, n)" using Cons.prems(2) by simp
      moreover have "filter (\<lambda>q. fst q = h) ps = []"
        using Cons.prems(1) \<open>p = (h, n)\<close> by (force simp: filter_empty_conv)
      ultimately show ?thesis by simp
    qed
  qed simp
qed

text \<open>
  The step \<open>Add\<close> and \<open>Delete\<close> share: the entry of a name gets new senders and a new time
  and its node moves.
\<close>

lemma update_entry_inv:
  assumes inv: "acc_inv acc" and n: "map_of (storage acc) n = Some (m, h, t)"
    and m': "smap_wf (<) m'" "m' \<noteq> []"
    and xs: "set xs = set (name_order acc)" "distinct (map fst xs)" "distinct (map snd xs)"
  shows "acc_inv (acc\<lparr>storage := smap_assign (<) n (m', h, t') (storage acc), name_order := xs\<rparr>)"
proof -
  have st: "map_of (smap_assign (<) n (m', h, t') (storage acc)) = (map_of (storage acc))(n \<mapsto> (m', h, t'))"
    using acc_inv_wf [OF inv] by (simp add: std_less.map_of_smap_assign)
  have sync: "(h', n') \<in> set (name_order acc) \<longleftrightarrow>
      (\<exists>mx tx. ((map_of (storage acc))(n \<mapsto> (m', h, t'))) n' = Some (mx, h', tx))" for h' n'
    using acc_inv_sync [OF inv, of h' n'] n by (cases "n' = n") auto
  have sm: "smap_wf (<) mx \<and> mx \<noteq> []"
    if "((map_of (storage acc))(n \<mapsto> (m', h, t'))) n' = Some (mx, h', tx)" for n' mx h' tx
    using that m' acc_inv_senders [OF inv, of n' mx h' tx] by (cases "n' = n") auto
  show ?thesis
    unfolding acc_inv_def
    using acc_inv_wf [OF inv] xs sync sm acc_inv_fresh [OF inv]
    by (simp add: st std_less.smap_wf_assign)
qed

lemma entries_update_entry:
  assumes inv: "acc_inv acc" and xs: "n \<notin> snd ` set xs"
  shows "map (entry_of (acc\<lparr>storage := smap_assign (<) n e (storage acc), name_order := ys\<rparr>)) (map snd xs)
    = map (entry_of acc) (map snd xs)"
  using xs acc_inv_wf [OF inv]
  by (auto intro!: entry_of_cong simp: std_less.map_of_smap_assign image_iff)

lemma filter_entries: "filter (\<lambda>e. fst e \<noteq> n) (entries acc)
    = map (entry_of acc) (map snd (filter (\<lambda>p. snd p \<noteq> n) (name_order acc)))"
  by (simp add: entries_def filter_map comp_def)

lemma splice_end_perm:
  assumes "acc_inv acc" "map_of (storage acc) n = Some (m, h, t)"
  shows "splice_end h (name_order acc) = filter (\<lambda>p. snd p \<noteq> n) (name_order acc) @ [(h, n)]"
    and "splice_begin h (name_order acc) = (h, n) # filter (\<lambda>p. snd p \<noteq> n) (name_order acc)"
    and "set (filter (\<lambda>p. snd p \<noteq> n) (name_order acc)) \<union> {(h, n)} = set (name_order acc)"
    and "h \<notin> fst ` set (filter (\<lambda>p. snd p \<noteq> n) (name_order acc))"
proof -
  have hn: "(h, n) \<in> set (name_order acc)" using acc_inv_sync [OF assms(1)] assms(2) by blast
  note sp = splice_node [OF acc_inv_handles [OF assms(1)] acc_inv_names [OF assms(1)] hn]
  show "splice_end h (name_order acc) = filter (\<lambda>p. snd p \<noteq> n) (name_order acc) @ [(h, n)]"
    "splice_begin h (name_order acc) = (h, n) # filter (\<lambda>p. snd p \<noteq> n) (name_order acc)"
    using sp by (simp_all add: splice_end_def splice_begin_def)
  have split: "set (filter (\<lambda>p. fst p \<noteq> h) (name_order acc)) \<union> set (filter (\<lambda>p. fst p = h) (name_order acc))
      = set (name_order acc)" by auto
  show "set (filter (\<lambda>p. snd p \<noteq> n) (name_order acc)) \<union> {(h, n)} = set (name_order acc)"
    using split unfolding sp by simp
  show "h \<notin> fst ` set (filter (\<lambda>p. snd p \<noteq> n) (name_order acc))"
    unfolding sp(2) [symmetric] by auto
qed

lemma distinct_map_filter_node:
  "distinct (map f xs) \<Longrightarrow> distinct (map f (filter P xs))"
  by (induction xs) auto

lemma touch_ok:
  assumes inv: "acc_inv acc" and n: "map_of (storage acc) n = Some (m, h, t)"
    and m': "smap_wf (<) m'" "m' \<noteq> []"
    and acc3: "acc3 = acc\<lparr>storage := smap_assign (<) n (m', h, t) (storage acc),
      name_order := splice_end h (name_order acc)\<rparr>"
  shows "acc_inv acc3" "entries acc3 = filter (\<lambda>e. fst e \<noteq> n) (entries acc) @ [(n, t, map_of m')]"
    "map_of (storage acc3) n = Some (m', h, t)"
proof -
  note sp = splice_end_perm [OF inv n]
  have "n \<notin> snd ` set (filter (\<lambda>p. snd p \<noteq> n) (name_order acc))" by auto
  note old = entries_update_entry [OF inv this]
  show "acc_inv acc3"
    unfolding acc3
  proof (rule update_entry_inv [OF inv n m'])
    show "set (splice_end h (name_order acc)) = set (name_order acc)"
      unfolding sp(1) using sp(3) by simp
    show "distinct (map fst (splice_end h (name_order acc)))"
      unfolding sp(1) using sp(4) acc_inv_handles [OF inv] by (auto simp: distinct_map_filter_node)
    show "distinct (map snd (splice_end h (name_order acc)))"
      unfolding sp(1) using acc_inv_names [OF inv] by (auto simp: distinct_map_filter_node)
  qed
  show st: "map_of (storage acc3) n = Some (m', h, t)"
    using acc_inv_wf [OF inv] by (simp add: acc3 std_less.map_of_smap_assign)
  then have en: "entry_of acc3 n = (n, t, map_of m')" by (simp add: entry_of_def)
  have no: "name_order acc3 = filter (\<lambda>p. snd p \<noteq> n) (name_order acc) @ [(h, n)]"
    by (simp add: acc3 sp(1))
  have "entries acc3 = map (entry_of acc3) (map snd (filter (\<lambda>p. snd p \<noteq> n) (name_order acc))) @ [entry_of acc3 n]"
    unfolding entries_def no by simp
  then show "entries acc3 = filter (\<lambda>e. fst e \<noteq> n) (entries acc) @ [(n, t, map_of m')]"
    unfolding en filter_entries
      old [where e = "(m', h, t)" and ys = "splice_end h (name_order acc)", folded acc3] .
qed

lemma Add_step:
  assumes inv: "acc_inv acc" and n: "map_of (storage acc) n = Some (m, h, t)"
    and m'_def: "m' = smap_insert (<) s v m"
  shows "\<exists>acc3. bindR (ReOrder nd (acc\<lparr>storage := smap_assign (<) n (m', h, t) (storage acc)\<rparr>) n) (\<lambda>acc3.
        Inr (acc3, if unat (quorum acc3) \<le> length m' then Some (n, m') else None))
      = Inr (acc3, if unat (quorum acc) \<le> length m' then Some (n, m') else None)
    \<and> acc_inv acc3 \<and> entries acc3 = filter (\<lambda>e. fst e \<noteq> n) (entries acc) @ [(n, t, map_of m')]
    \<and> map_of (storage acc3) n = Some (m', h, t)
    \<and> time_to_live acc3 = time_to_live acc \<and> quorum acc3 = quorum acc"
proof -
  define acc3 where acc3: "acc3 = acc\<lparr>storage := smap_assign (<) n (m', h, t) (storage acc),
      name_order := splice_end h (name_order acc)\<rparr>"
  have wf: "smap_wf (<) m" using acc_inv_senders [OF inv n] by blast
  have m': "smap_wf (<) m'" "m' \<noteq> []"
    using wf by (simp_all add: m'_def std_less.smap_wf_insert)
  have "map_of (smap_assign (<) n (m', h, t) (storage acc)) n = Some (m', h, t)"
    using acc_inv_wf [OF inv] by (simp add: std_less.map_of_smap_assign)
  then have "ReOrder nd (acc\<lparr>storage := smap_assign (<) n (m', h, t) (storage acc)\<rparr>) n = Inr acc3"
    by (simp add: ReOrder_def std_less.smap_find_map_of cpp_assert_def acc3)
  then show ?thesis using touch_ok [OF inv n m' acc3] by (auto simp: acc3)
qed

lemma spec_expire_suffix: "\<exists>k. snd (spec_expire ttl now i es) = drop k es"
proof (induction es arbitrary: i)
  case (Cons e es)
  obtain k where "snd (spec_expire ttl now (Suc i) es) = drop k es" using Cons by blast
  then have "snd (spec_expire ttl now (Suc i) es) = drop (Suc k) (e # es)" by simp
  moreover have "snd (spec_expire ttl now i (e # es)) = e # es \<or>
      snd (spec_expire ttl now i (e # es)) = snd (spec_expire ttl now (Suc i) es)" by simp
  ultimately show ?case by (metis drop0)
qed simp

lemma set_spec_expire: "e \<in> set (snd (spec_expire ttl now i es)) \<Longrightarrow> e \<in> set es"
  using spec_expire_suffix [of ttl now i es] by (auto dest: in_set_dropD)

text \<open>A new name at the end of both indices, where there was none\<close>

definition with_entry :: "'n::linorder \<Rightarrow> 's \<Rightarrow> 'v \<Rightarrow> int \<Rightarrow> ('n, 'v, 's) Accumulator \<Rightarrow> ('n, 'v, 's) Accumulator" where
  "with_entry n s v t acc = acc\<lparr>name_order := name_order acc @ [(next_node acc, n)], next_node := Suc (next_node acc),
     storage := smap_insert (<) n ([(s, v)], next_node acc, t) (storage acc)\<rparr>"

lemma with_entry_ok:
  assumes inv: "acc_inv acc" and n: "map_of (storage acc) n = None"
  shows "acc_inv (with_entry n s v t acc)" "entries (with_entry n s v t acc) = entries acc @ [(n, t, [s \<mapsto> v])]"
    "map_of (storage (with_entry n s v t acc)) n = Some ([(s, v)], next_node acc, t)"
proof -
  let ?acc1 = "with_entry n s v t acc" and ?h = "next_node acc"
  note acc1 = with_entry_def [of n s v t acc]
  have n': "n \<notin> snd ` set (name_order acc)" using acc_inv_dom [OF inv, of n] n by simp
  have st: "map_of (storage ?acc1) = (map_of (storage acc))(n \<mapsto> ([(s, v)], ?h, t))"
    using acc_inv_wf [OF inv] n by (simp add: acc1 std_less.map_of_smap_insert)
  then show "map_of (storage ?acc1) n = Some ([(s, v)], ?h, t)" by simp
  have fr: "h' < ?h" if "(h', n') \<in> set (name_order acc)" for h' n' by (rule acc_inv_fresh [OF inv that])
  show "acc_inv ?acc1"
    unfolding acc_inv_def
  proof (intro conjI allI impI)
    show "smap_wf (<) (storage ?acc1)" using acc_inv_wf [OF inv] by (simp add: acc1 std_less.smap_wf_insert)
    show "distinct (map fst (name_order ?acc1))" using acc_inv_handles [OF inv] fr by (force simp: acc1)
    show "distinct (map snd (name_order ?acc1))" using acc_inv_names [OF inv] n' by (auto simp: acc1)
    fix h' n'
    show "(h', n') \<in> set (name_order ?acc1) \<longleftrightarrow> (\<exists>m t. map_of (storage ?acc1) n' = Some (m, h', t))"
      using acc_inv_sync [OF inv, of h' n'] n unfolding st by (cases "n' = n") (auto simp: acc1)
    show "(h', n') \<in> set (name_order ?acc1) \<Longrightarrow> h' < next_node ?acc1" using fr by (force simp: acc1)
  next
    fix n' m h' t' assume "map_of (storage ?acc1) n' = Some (m, h', t')"
    then have "m = [(s, v)] \<or> map_of (storage acc) n' = Some (m, h', t')" by (simp add: st split: if_splits)
    then show "smap_wf (<) m" "m \<noteq> []" using acc_inv_senders [OF inv] by (auto simp: smap_wf_def)
  qed
  have "map (entry_of ?acc1) (map snd (name_order acc)) = entries acc"
    unfolding entries_def using n' by (intro map_cong refl entry_of_cong) (auto simp: st)
  moreover have "name_order ?acc1 = name_order acc @ [(?h, n)]" by (simp add: acc1)
  moreover have "entry_of ?acc1 n = (n, t, [s \<mapsto> v])" by (simp add: entry_of_def st)
  ultimately show "entries ?acc1 = entries acc @ [(n, t, [s \<mapsto> v])]" by (simp add: entries_def)
qed

lemma AddNew_ok:
  assumes inv: "acc_inv acc" and n: "map_of (storage acc) n = None"
    and e: "spec_expire (time_to_live acc) now 0 (entries acc) = (i, es)"
  shows "\<exists>acc1 h. AddNew nd now acc n v s = Inr acc1 \<and> acc_inv acc1
    \<and> entries acc1 = es @ [(n, now i, [s \<mapsto> v])] \<and> n \<notin> fst ` set es
    \<and> map_of (storage acc1) n = Some ([(s, v)], h, now i)
    \<and> time_to_live acc1 = time_to_live acc \<and> quorum acc1 = quorum acc"
proof -
  obtain acc0 where r: "remove_expired nd now 0 acc = Inr (i, acc0)" "acc_inv acc0" "entries acc0 = es"
    "time_to_live acc0 = time_to_live acc" "quorum acc0 = quorum acc"
    using remove_expired_ok [OF inv, of nd now 0] e by auto
  have "n \<notin> fst ` set (entries acc)" using not_in_entries [OF inv, of n] n by blast
  then have fresh: "n \<notin> fst ` set es"
    using set_spec_expire [of _ "time_to_live acc" now 0 "entries acc"] e by auto
  then have n0: "map_of (storage acc0) n = None" using not_in_entries [OF r(2), of n] unfolding r(3) by blast
  have "AddNew nd now acc n v s = Inr (with_entry n s v (now i) acc0)"
    by (simp add: AddNew_def r(1) with_entry_def Let_def)
  then show ?thesis
    using with_entry_ok [OF r(2) n0, of s v "now i"] fresh r(3-5) by (auto simp: with_entry_def)
qed

text \<open>\<open>Add\<close> for a name that is not kept, and for one that is\<close>

lemma Add_new_ok:
  assumes inv: "acc_inv acc" and None: "map_of (storage acc) n = None"
  shows "\<exists>acc' m h t. Accumulator_Add nd now acc n v s
      = Inr (acc', if unat (quorum acc) \<le> length m then Some (n, m) else None)
    \<and> acc_inv acc' \<and> entries acc' = spec_add (time_to_live acc) now n v s (entries acc)
    \<and> map_of (storage acc') n = Some (m, h, t)
    \<and> time_to_live acc' = time_to_live acc \<and> quorum acc' = quorum acc"
proof -
  obtain i es where e: "spec_expire (time_to_live acc) now 0 (entries acc) = (i, es)" by force
  obtain acc1 h where a: "AddNew nd now acc n v s = Inr acc1" "acc_inv acc1"
    "entries acc1 = es @ [(n, now i, [s \<mapsto> v])]" "n \<notin> fst ` set es"
    "map_of (storage acc1) n = Some ([(s, v)], h, now i)"
    "time_to_live acc1 = time_to_live acc" "quorum acc1 = quorum acc"
    using AddNew_ok [OF inv None e, of nd v s] by blast
  have "filter (\<lambda>e. fst e \<noteq> n) es = es" using a(4) by (force simp: filter_id_conv)
  moreover have "map_of (entries acc) n = None" using map_of_entries [OF inv, of n] None by simp
  ultimately have sp: "filter (\<lambda>e. fst e \<noteq> n) (entries acc1) @ [(n, now i, [s \<mapsto> v])]
      = spec_add (time_to_live acc) now n v s (entries acc)"
    by (simp add: a(3) spec_add_def e)
  define m' where "m' = smap_insert (<) s v [(s, v)]"
  have m': "map_of m' = [s \<mapsto> v]" by (simp add: m'_def)
  have "Accumulator_Add nd now acc n v s
      = bindR (ReOrder nd (acc1\<lparr>storage := smap_assign (<) n (m', h, now i) (storage acc1)\<rparr>) n) (\<lambda>acc3.
          Inr (acc3, if unat (quorum acc3) \<le> length m' then Some (n, m') else None))"
    unfolding Accumulator_Add_def m'_def
    using None a(1,5) by (simp add: std_less.smap_find_map_of Let_def cong: if_cong)
  moreover obtain acc3 where "bindR (ReOrder nd (acc1\<lparr>storage := smap_assign (<) n (m', h, now i) (storage acc1)\<rparr>) n)
        (\<lambda>acc3. Inr (acc3, if unat (quorum acc3) \<le> length m' then Some (n, m') else None))
      = Inr (acc3, if unat (quorum acc) \<le> length m' then Some (n, m') else None)"
    "acc_inv acc3" "entries acc3 = spec_add (time_to_live acc) now n v s (entries acc)"
    "map_of (storage acc3) n = Some (m', h, now i)" "time_to_live acc3 = time_to_live acc" "quorum acc3 = quorum acc"
    using Add_step [OF a(2,5) m'_def, of nd] unfolding m' sp a(6,7) by blast
  ultimately show ?thesis by (intro exI [of _ acc3] exI [of _ m'] exI [of _ h] exI [of _ "now i"]) simp
qed

lemma Add_known_ok:
  assumes inv: "acc_inv acc" and n: "map_of (storage acc) n = Some (m, h, t)"
  shows "\<exists>acc' m h t. Accumulator_Add nd now acc n v s
      = Inr (acc', if unat (quorum acc) \<le> length m then Some (n, m) else None)
    \<and> acc_inv acc' \<and> entries acc' = spec_add (time_to_live acc) now n v s (entries acc)
    \<and> map_of (storage acc') n = Some (m, h, t)
    \<and> time_to_live acc' = time_to_live acc \<and> quorum acc' = quorum acc"
proof -
  define m' where "m' = smap_insert (<) s v m"
  have "map_of (entries acc) n = Some (t, map_of m)" using map_of_entries [OF inv, of n] n by simp
  moreover have "map_of m' = (if map_of m s = None then (map_of m)(s \<mapsto> v) else map_of m)"
    using acc_inv_senders [OF inv n] by (simp add: m'_def std_less.map_of_smap_insert)
  ultimately have sp: "filter (\<lambda>e. fst e \<noteq> n) (entries acc) @ [(n, t, map_of m')]
      = spec_add (time_to_live acc) now n v s (entries acc)"
    by (simp add: spec_add_def)
  have "Accumulator_Add nd now acc n v s
      = bindR (ReOrder nd (acc\<lparr>storage := smap_assign (<) n (m', h, t) (storage acc)\<rparr>) n) (\<lambda>acc3.
          Inr (acc3, if unat (quorum acc3) \<le> length m' then Some (n, m') else None))"
    unfolding Accumulator_Add_def m'_def using n by (simp add: std_less.smap_find_map_of Let_def)
  moreover obtain acc3 where "bindR (ReOrder nd (acc\<lparr>storage := smap_assign (<) n (m', h, t) (storage acc)\<rparr>) n)
        (\<lambda>acc3. Inr (acc3, if unat (quorum acc3) \<le> length m' then Some (n, m') else None))
      = Inr (acc3, if unat (quorum acc) \<le> length m' then Some (n, m') else None)"
    "acc_inv acc3" "entries acc3 = spec_add (time_to_live acc) now n v s (entries acc)"
    "map_of (storage acc3) n = Some (m', h, t)" "time_to_live acc3 = time_to_live acc" "quorum acc3 = quorum acc"
    using Add_step [OF inv n m'_def, of nd] unfolding sp by blast
  ultimately show ?thesis by (intro exI [of _ acc3] exI [of _ m'] exI [of _ h] exI [of _ t]) simp
qed

lemma Add_ok:
  assumes inv: "acc_inv acc"
  shows "\<exists>acc' m h t. Accumulator_Add nd now acc n v s
      = Inr (acc', if unat (quorum acc) \<le> length m then Some (n, m) else None)
    \<and> acc_inv acc' \<and> entries acc' = spec_add (time_to_live acc) now n v s (entries acc)
    \<and> map_of (storage acc') n = Some (m, h, t)
    \<and> time_to_live acc' = time_to_live acc \<and> quorum acc' = quorum acc"
  using Add_new_ok [OF inv] Add_known_ok [OF inv] by (cases "map_of (storage acc) n") (simp, simp add: split_paired_all)

lemma Delete_ok:
  assumes inv: "acc_inv acc"
  shows "\<exists>acc'. Accumulator_Delete nd now acc n = Inr acc' \<and> acc_inv acc'
    \<and> entries acc' = spec_delete n (entries acc)
    \<and> time_to_live acc' = time_to_live acc \<and> quorum acc' = quorum acc"
proof (cases "map_of (storage acc) n")
  case None
  then have "n \<notin> fst ` set (entries acc)" using not_in_entries [OF inv, of n] by blast
  then have "spec_delete n (entries acc) = entries acc" by (force simp: spec_delete_def filter_id_conv)
  with None inv show ?thesis by (simp add: Accumulator_Delete_def std_less.smap_find_map_of)
next
  case (Some e)
  obtain m h t where "e = (m, h, t)" by (cases e) auto
  with Some have n: "map_of (storage acc) n = Some (m, h, t)" by simp
  note sp = splice_end_perm [OF inv n]
  define acc1 where "acc1 = acc\<lparr>storage := smap_assign (<) n (m, h, now - time_to_live acc) (storage acc),
      name_order := splice_begin h (name_order acc)\<rparr>"
  have inv1: "acc_inv acc1"
    unfolding acc1_def
  proof (rule update_entry_inv [OF inv n])
    show "smap_wf (<) m" "m \<noteq> []" using acc_inv_senders [OF inv n] by blast+
    show "set (splice_begin h (name_order acc)) = set (name_order acc)"
      unfolding sp(2) using sp(3) by simp
    show "distinct (map fst (splice_begin h (name_order acc)))"
      unfolding sp(2) using sp(4) acc_inv_handles [OF inv] by (auto simp: distinct_map_filter_node)
    show "distinct (map snd (splice_begin h (name_order acc)))"
      unfolding sp(2) using acc_inv_names [OF inv] by (auto simp: distinct_map_filter_node)
  qed
  have no: "name_order acc1 = (h, n) # filter (\<lambda>p. snd p \<noteq> n) (name_order acc)"
    by (simp add: acc1_def sp(2))
  have "n \<notin> snd ` set (filter (\<lambda>p. snd p \<noteq> n) (name_order acc))" by auto
  from entries_update_entry [OF inv this, where e = "(m, h, now - time_to_live acc)" and ys = "splice_begin h (name_order acc)"]
  have "tl (entries acc1) = spec_delete n (entries acc)"
    unfolding spec_delete_def filter_entries by (simp add: entries_def no acc1_def [symmetric])
  moreover have "name_order acc1 \<noteq> []" by (simp add: no)
  moreover have "time_to_live acc1 = time_to_live acc" "quorum acc1 = quorum acc" by (simp_all add: acc1_def)
  ultimately show ?thesis
    using RemoveOldestElement_ok [OF inv1, of nd] n
    by (simp add: Accumulator_Delete_def std_less.smap_find_map_of acc1_def)
qed

subsection \<open>What a client of a quorum store relies on\<close>

definition held :: "('n, 'v, 'a) Accumulator \<Rightarrow> 'n \<Rightarrow> ('a \<rightharpoonup> 'v) option" where
  "held acc n = map_option snd (map_of (entries acc) n)"

definition all_held :: "('q \<Rightarrow> 'n \<Rightarrow> ('a \<rightharpoonup> 'v) option) \<Rightarrow> ('n \<Rightarrow> 'a \<Rightarrow> 'v \<Rightarrow> bool) \<Rightarrow> 'q \<Rightarrow> bool" where
  "all_held cont P q \<longleftrightarrow> (\<forall>n h s v. cont q n = Some h \<longrightarrow> h s = Some v \<longrightarrow> P n s v)"

definition put_first :: "'a \<Rightarrow> 'v \<Rightarrow> ('a \<rightharpoonup> 'v) option \<Rightarrow> ('a \<rightharpoonup> 'v)" where
  "put_first s v old = (case old of None \<Rightarrow> [s \<mapsto> v] | Some h \<Rightarrow> if h s = None then h(s \<mapsto> v) else h)"

lemma senders_map_of:
  fixes m :: "('k::linorder, 'w) smap"
  assumes "smap_wf (<) m" "(s, v) \<in> set m"
  shows "map_of m s = Some v"
  using assms(2) std_less.smap_wf_distinct [OF assms(1)] by simp

locale quorum_store =
  fixes inv :: "'q \<Rightarrow> bool"
    and contents :: "'q \<Rightarrow> 'n \<Rightarrow> ('a::linorder \<rightharpoonup> 'v) option"
    and need :: "'q \<Rightarrow> nat"
    and add :: "bool \<Rightarrow> clock \<Rightarrow> 'q \<Rightarrow> 'n \<Rightarrow> 'v \<Rightarrow> 'a \<Rightarrow> ('q \<times> ('n \<times> ('a, 'v) senders) option) result"
    and have_name :: "'q \<Rightarrow> 'n \<Rightarrow> bool"
    and get_all :: "'q \<Rightarrow> 'n \<Rightarrow> ('n \<times> ('a, 'v) senders) option"
    and del :: "bool \<Rightarrow> int \<Rightarrow> 'q \<Rightarrow> 'n \<Rightarrow> 'q result"
  assumes add_law: "inv q \<Longrightarrow> \<exists>q' m. add nd now q n v s = Inr (q', if need q \<le> length m then Some (n, m) else None)
      \<and> inv q' \<and> need q' = need q \<and> smap_wf (<) m \<and> contents q' n = Some (map_of m)
      \<and> map_of m = put_first s v (contents q n)
      \<and> (\<forall>n'. n' \<noteq> n \<longrightarrow> contents q' n' = contents q n' \<or> contents q' n' = None)"
    and have_law: "inv q \<Longrightarrow> have_name q n \<longleftrightarrow> contents q n \<noteq> None"
    and get_law: "inv q \<Longrightarrow> contents q n = None \<and> get_all q n = None
      \<or> (\<exists>m. get_all q n = Some (n, m) \<and> smap_wf (<) m \<and> contents q n = Some (map_of m))"
    and del_law: "inv q \<Longrightarrow> \<exists>q'. del nd t q n = Inr q' \<and> inv q' \<and> need q' = need q
      \<and> contents q' = (contents q)(n := None)"
begin

lemma add_D:
  assumes "inv q" "add nd now q n v s = Inr (q', r)"
  shows "inv q'" "need q' = need q" "contents q' n = Some (put_first s v (contents q n))"
    "n' \<noteq> n \<Longrightarrow> contents q' n' = contents q n' \<or> contents q' n' = None"
    "\<And>n' m. r = Some (n', m) \<Longrightarrow> n' = n \<and> need q \<le> length m \<and> smap_wf (<) m \<and> contents q' n = Some (map_of m)"
  using add_law [OF assms(1), of nd now n v s] assms(2) by (auto split: if_splits)

lemma add_returns:
  assumes "inv q" shows "\<exists>q' r. add nd now q n v s = Inr (q', r)"
  using add_law [OF assms] by blast

lemma del_D:
  assumes "inv q" "del nd t q n = Inr q'"
  shows "inv q'" "need q' = need q" "contents q' = (contents q)(n := None)"
  using del_law [OF assms(1), of nd t n] assms(2) by auto

lemma all_held_add:
  assumes "inv q" "all_held contents P q" "P n s v" "add nd now q n v s = Inr (q', r)"
  shows "all_held contents P q'"
  unfolding all_held_def
proof (intro allI impI)
  fix n' h s' v' assume h: "contents q' n' = Some h" "h s' = Some v'"
  note d = add_D [OF assms(1,4)]
  show "P n' s' v'"
  proof (cases "n' = n")
    case True
    then have "h = put_first s v (contents q n)" using d(3) h(1) by simp
    then show ?thesis
      using True h(2) assms(2,3) by (auto simp: put_first_def all_held_def split: option.splits if_splits)
  next
    case False
    then show ?thesis using d(4) [OF False] h assms(2) unfolding all_held_def by force
  qed
qed

lemma all_held_del:
  assumes "inv q" "all_held contents P q" "del nd t q n = Inr q'"
  shows "all_held contents P q'"
  using assms(2) del_D(3) [OF assms(1,3)] by (auto simp: all_held_def split: if_splits)

lemma all_held_result:
  assumes "inv q" "all_held contents P q" "P n s v" "add nd now q n v s = Inr (q', Some (n', m))" "(s', v') \<in> set m"
  shows "P n s' v'"
proof -
  have m: "smap_wf (<) m" "contents q' n = Some (map_of m)" using add_D(5) [OF assms(1,4) refl] by auto
  then show ?thesis
    using all_held_add [OF assms(1-4)] senders_map_of [OF m(1) assms(5)] unfolding all_held_def by blast
qed

lemma all_held_get:
  assumes "inv q" "all_held contents P q" "get_all q n = Some (n', m)" "(s, v) \<in> set m"
  shows "P n s v" "n' = n"
proof -
  have m: "n' = n" "smap_wf (<) m" "contents q n = Some (map_of m)" using get_law [OF assms(1), of n] assms(3) by auto
  then show "P n s v" using assms(2) senders_map_of [OF m(2) assms(4)] unfolding all_held_def by blast
  show "n' = n" by (rule m(1))
qed

end

lemma map_of_filter_snoc: "map_of (filter (\<lambda>e. fst e \<noteq> n) es @ [(n, x)]) = (map_of es)(n \<mapsto> x)"
  by (induction es) (auto simp: fun_eq_iff)

lemma map_of_spec_delete: "map_of (spec_delete n es) = (map_of es)(n := None)"
  unfolding spec_delete_def by (induction es) (auto simp: fun_eq_iff)

lemma map_of_spec_expire:
  assumes "distinct (map fst es)"
  shows "map_of (snd (spec_expire ttl now i es)) k = map_of es k \<or> map_of (snd (spec_expire ttl now i es)) k = None"
proof (cases "map_of (snd (spec_expire ttl now i es)) k")
  case (Some e)
  then have "(k, e) \<in> set es" using set_spec_expire map_of_SomeD by fastforce
  then show ?thesis using assms Some by simp
qed simp

lemma map_of_snoc_fresh: "n \<notin> fst ` set es \<Longrightarrow> map_of (es @ [(n, x)]) = (map_of es)(n \<mapsto> x)"
  by (induction es) (auto simp: fun_eq_iff)

lemma map_of_spec_add:
  assumes "distinct (map fst es)"
  shows "map_option snd (map_of (spec_add ttl now n v s es) n) = Some (put_first s v (map_option snd (map_of es n)))"
    and "n' \<noteq> n \<Longrightarrow> map_of (spec_add ttl now n v s es) n' = map_of es n' \<or> map_of (spec_add ttl now n v s es) n' = None"
proof -
  obtain i es' where e: "spec_expire ttl now 0 es = (i, es')" by force
  have fresh: "n \<notin> fst ` set es'" if "map_of es n = None"
    using that set_spec_expire [of _ ttl now 0 es] e by (force simp: map_of_eq_None_iff)
  show "map_option snd (map_of (spec_add ttl now n v s es) n) = Some (put_first s v (map_option snd (map_of es n)))"
    using fresh by (auto simp: spec_add_def e put_first_def map_of_filter_snoc map_of_snoc_fresh
      simp del: map_of_append split: option.splits)
  show "map_of (spec_add ttl now n v s es) n' = map_of es n' \<or> map_of (spec_add ttl now n v s es) n' = None"
    if "n' \<noteq> n"
    using that fresh map_of_spec_expire [OF assms, of ttl now 0 n'] e
    by (auto simp: spec_add_def put_first_def map_of_filter_snoc map_of_snoc_fresh
      simp del: map_of_append split: option.splits)
qed

lemma held_storage:
  assumes "acc_inv acc" shows "held acc n = map_option (\<lambda>(m, h, t). map_of m) (map_of (storage acc) n)"
  by (simp add: held_def map_of_entries [OF assms] option.map_comp comp_def case_prod_unfold)

interpretation store: quorum_store acc_inv held "\<lambda>acc. unat (quorum acc)"
  Accumulator_Add HaveName GetAll Accumulator_Delete
proof
  fix nd now n v s and q :: "('a, 'b, 'c) Accumulator"
  assume inv: "acc_inv q"
  obtain acc' m h t where a: "Accumulator_Add nd now q n v s
      = Inr (acc', if unat (quorum q) \<le> length m then Some (n, m) else None)"
    "acc_inv acc'" "entries acc' = spec_add (time_to_live q) now n v s (entries q)"
    "map_of (storage acc') n = Some (m, h, t)" "quorum acc' = quorum q"
    using Add_ok [OF inv, of nd now n v s] by blast
  have d: "distinct (map fst (entries q))" using acc_inv_names [OF inv] by simp
  have h: "held acc' n = Some (map_of m)" using held_storage [OF a(2)] a(4) by simp
  moreover have "held acc' n = Some (put_first s v (held q n))"
    using map_of_spec_add(1) [OF d, of "time_to_live q" now n v s] unfolding held_def a(3) .
  ultimately have "map_of m = put_first s v (held q n)" by simp
  moreover have "held acc' n' = held q n' \<or> held acc' n' = None" if "n' \<noteq> n" for n'
    using map_of_spec_add(2) [OF d that, of "time_to_live q" now v s] unfolding held_def a(3) by auto
  ultimately show "\<exists>q' m. Accumulator_Add nd now q n v s
        = Inr (q', if unat (quorum q) \<le> length m then Some (n, m) else None)
      \<and> acc_inv q' \<and> unat (quorum q') = unat (quorum q) \<and> smap_wf (<) m \<and> held q' n = Some (map_of m)
      \<and> map_of m = put_first s v (held q n) \<and> (\<forall>n'. n' \<noteq> n \<longrightarrow> held q' n' = held q n' \<or> held q' n' = None)"
    using a h acc_inv_senders [OF a(2,4)] by (intro exI [of _ acc'] exI [of _ m]) simp
next
  fix q :: "('a, 'b, 'c) Accumulator" and n assume inv: "acc_inv q"
  show "HaveName q n \<longleftrightarrow> held q n \<noteq> None"
    by (simp add: HaveName_def std_less.smap_find_map_of held_storage [OF inv])
  show "held q n = None \<and> GetAll q n = None \<or>
      (\<exists>m. GetAll q n = Some (n, m) \<and> smap_wf (<) m \<and> held q n = Some (map_of m))"
    using acc_inv_senders [OF inv, of n]
    by (auto simp: GetAll_def std_less.smap_find_map_of held_storage [OF inv] split: option.splits)
next
  fix nd t n and q :: "('a, 'b, 'c) Accumulator"
  assume inv: "acc_inv q"
  show "\<exists>q'. Accumulator_Delete nd t q n = Inr q' \<and> acc_inv q' \<and> unat (quorum q') = unat (quorum q)
      \<and> held q' = (held q)(n := None)"
    using Delete_ok [OF inv, of nd t n] by (auto simp: held_def map_of_spec_delete fun_eq_iff)
qed

subsection \<open>Runs of an accumulator\<close>

text \<open>
  A run is what happened to an accumulator, latest first. All clock readings of the run lie
  between \<open>lo\<close> and \<open>hi\<close>.
\<close>

datatype ('n, 'v, 'a) acc_event = Added 'n 'v 'a | Deleted 'n

inductive acc_run ::
  "int \<Rightarrow> int \<Rightarrow> int \<Rightarrow> 32 word \<Rightarrow> ('n::linorder, 'v, 'a::linorder) acc_event list \<Rightarrow> ('n, 'v, 'a) Accumulator \<Rightarrow> bool"
  for lo hi ttl q where
  run_new: "acc_run lo hi ttl q [] (Accumulator_new ttl q)"
| run_add: "acc_run lo hi ttl q evs acc \<Longrightarrow> (\<And>i. lo \<le> now i \<and> now i \<le> hi) \<Longrightarrow>
    Accumulator_Add nd now acc n v s = Inr (acc', r) \<Longrightarrow> acc_run lo hi ttl q (Added n v s # evs) acc'"
| run_delete: "acc_run lo hi ttl q evs acc \<Longrightarrow>
    Accumulator_Delete nd t acc n = Inr acc' \<Longrightarrow> acc_run lo hi ttl q (Deleted n # evs) acc'"

text \<open>What happened since a name was last deleted, and who sent something for it since then\<close>

definition since :: "'n \<Rightarrow> ('n, 'v, 'a) acc_event list \<Rightarrow> ('n, 'v, 'a) acc_event list" where
  "since n evs = takeWhile (\<lambda>e. e \<noteq> Deleted n) evs"

definition senders_since :: "'n \<Rightarrow> ('n, 'v, 'a) acc_event list \<Rightarrow> 'a set" where
  "senders_since n evs = {s. \<exists>v. Added n v s \<in> set (since n evs)}"

lemma since_simps [simp]:
  "since n [] = []"
  "since n (Added n' v s # evs) = Added n' v s # since n evs"
  "since n (Deleted n' # evs) = (if n' = n then [] else Deleted n' # since n evs)"
  by (simp_all add: since_def)

lemma senders_since_simps [simp]:
  "senders_since n [] = {}"
  "senders_since n (Added n' v s # evs) = (if n' = n then insert s (senders_since n evs) else senders_since n evs)"
  "senders_since n (Deleted n' # evs) = (if n' = n then {} else senders_since n evs)"
  by (auto simp: senders_since_def)

lemma run_inv:
  assumes "acc_run lo hi ttl q evs acc"
  shows "acc_inv acc \<and> time_to_live acc = ttl \<and> quorum acc = q"
  using assms
proof induction
  case run_new
  show ?case using acc_inv_new by (simp add: Accumulator_new_def acc_inv_def)
next
  case (run_add evs acc now nd n v s acc' r)
  then show ?case using Add_ok [of acc nd now n v s] by auto
next
  case (run_delete evs acc nd t n acc')
  then show ?case using Delete_ok [of acc nd t n] by auto
qed

lemma Add_entries:
  assumes "acc_run lo hi ttl q evs acc" "Accumulator_Add nd now acc n v s = Inr (acc', r)"
  shows "entries acc' = spec_add ttl now n v s (entries acc)" "acc_inv acc'"
  using run_inv [OF assms(1)] assms(2) Add_ok [of acc nd now n v s] by auto

lemma Delete_entries:
  assumes "acc_run lo hi ttl q evs acc" "Accumulator_Delete nd t acc n = Inr acc'"
  shows "entries acc' = spec_delete n (entries acc)"
  using run_inv [OF assms(1)] assms(2) Delete_ok [of acc nd t n] by auto

lemma run_provenance:
  assumes "acc_run lo hi ttl q evs acc"
  shows "all_held held (\<lambda>n s v. Added n v s \<in> set (since n evs)) acc"
  using assms
proof induction
  case run_new
  show ?case by (simp add: all_held_def held_def)
next
  case (run_add evs acc now nd n v s acc' r)
  have inv: "acc_inv acc" using run_inv [OF run_add.hyps(1)] by blast
  show ?case
  proof (rule store.all_held_add [OF inv _ _ run_add.hyps(3)])
    show "all_held held (\<lambda>n' s' v'. Added n' v' s' \<in> set (since n' (Added n v s # evs))) acc"
      using run_add.IH by (auto simp: all_held_def)
  qed simp
next
  case (run_delete evs acc nd t n acc')
  have inv: "acc_inv acc" using run_inv [OF run_delete.hyps(1)] by blast
  then show ?case
    using run_delete.IH store.del_D(3) [OF inv run_delete.hyps(2)] by (auto simp: all_held_def split: if_splits)
qed

lemma spec_expire_young:
  assumes "ttl = 0 \<or> (\<forall>e \<in> set es. \<forall>i. now i \<le> fst (snd e) + ttl)"
  shows "spec_expire ttl now i es = (Suc i, es)"
proof -
  have "\<not> spec_expired ttl (now i) es"
    using assms by (cases es) (auto simp: spec_expired_def not_less dest!: spec [of _ i])
  then show ?thesis by (cases es) auto
qed

lemma spec_expire_lost:
  assumes "e \<in> set es" "e \<notin> set (snd (spec_expire ttl now i es))"
  shows "ttl \<noteq> 0 \<and> (\<exists>j. fst (snd e) + ttl < now j)"
  using assms
proof (induction es arbitrary: i)
  case (Cons x xs)
  then show ?case
    by (cases x) (auto simp: spec_expired_def split: if_splits)
qed simp

lemma run_times:
  assumes "acc_run lo hi ttl q evs acc"
  shows "\<forall>e \<in> set (entries acc). lo \<le> fst (snd e)"
  using assms
proof induction
  case (run_add evs acc now nd n v s acc' r)
  obtain i es where e: "spec_expire ttl now 0 (entries acc) = (i, es)" by force
  have "set es \<subseteq> set (entries acc)" using set_spec_expire [of _ ttl now 0 "entries acc"] e by auto
  then show ?case
    unfolding Add_entries(1) [OF run_add.hyps(1,3)] spec_add_def e
    using run_add.IH run_add.hyps(2) by (force split: option.splits dest: map_of_SomeD)
next
  case (run_delete evs acc nd t n acc')
  then show ?case using Delete_entries [OF run_delete.hyps] by (auto simp: spec_delete_def)
qed simp

definition known :: "('n, 'v, 'a) entries \<Rightarrow> 'n \<Rightarrow> 'a set" where
  "known es n = (case map_of es n of None \<Rightarrow> {} | Some (t, h) \<Rightarrow> dom h)"

lemma known_spec_add:
  assumes "spec_expire ttl now 0 es = (Suc 0, es)"
  shows "known (spec_add ttl now n v s es) n' = (if n' = n then insert s (known es n) else known es n')"
proof (cases "map_of es n")
  case None
  then have "n \<notin> fst ` set es" by (simp add: map_of_eq_None_iff)
  with None show ?thesis
    by (auto simp: known_def spec_add_def assms map_of_snoc_fresh simp del: map_of_append split: option.splits)
next
  case (Some e)
  then show ?thesis
    by (cases e) (auto simp: known_def spec_add_def map_of_filter_snoc simp del: map_of_append split: option.splits)
qed

text \<open>As long as nothing is old enough to expire, the accumulator knows every sender.\<close>

lemma run_known:
  assumes "acc_run lo hi ttl q evs acc" "ttl = 0 \<or> hi \<le> lo + ttl"
  shows "known (entries acc) n = senders_since n evs"
  using assms
proof (induction arbitrary: n)
  case run_new
  then show ?case by (simp add: known_def)
next
  case (run_add evs acc now nd n0 v s acc' r)
  have "spec_expire ttl now 0 (entries acc) = (Suc 0, entries acc)"
    using run_add.prems run_times [OF run_add.hyps(1)] run_add.hyps(2)
    by (intro spec_expire_young) (smt (verit, best))
  from known_spec_add [OF this] show ?case
    using run_add.IH [OF run_add.prems] by (auto simp: Add_entries(1) [OF run_add.hyps(1,3)])
next
  case (run_delete evs acc nd t n0 acc')
  then show ?case
    using run_delete.IH [OF run_delete.prems, of n]
    by (auto simp: Delete_entries [OF run_delete.hyps] known_def map_of_spec_delete)
qed

subsection \<open>A small accumulator\<close>

definition ex_acc :: "(nat, nat, nat) Accumulator" where
  "ex_acc = \<lparr>time_to_live = 10, quorum = 2, name_order = [(0, 7)],
     storage = [(7, ([(1, 100)], 0, 5))], next_node = 1\<rparr>"

lemma ex_acc_run: "acc_run 0 10 10 2 [Added 7 100 1] ex_acc"
proof (rule acc_run.run_add [OF acc_run.run_new, where now = "\<lambda>_. 5" and nd = False and r = None])
  show "Accumulator_Add False (\<lambda>_. 5) (Accumulator_new 10 2) 7 100 1 = Inr (ex_acc, None)"
    by (simp add: Accumulator_Add_def AddNew_def remove_expired.simps CheckTimeExpired_def ReOrder_def
        Accumulator_new_def ex_acc_def splice_end_def equiv_keys_def cpp_assert_def Let_def)
qed simp

lemma ex_acc_entries: "entries ex_acc = [(7, 5, [1 \<mapsto> 100])]"
  by (simp add: entries_def entry_of_def ex_acc_def)

definition ex_acc2 :: "(nat, nat, nat) Accumulator" where
  "ex_acc2 = \<lparr>time_to_live = 10, quorum = 2, name_order = [(0, 7)],
     storage = [(7, ([(1, 100), (2, 200)], 0, 5))], next_node = 1\<rparr>"

lemma ex_acc_add: "Accumulator_Add False (\<lambda>_. 6) ex_acc 7 200 2 = Inr (ex_acc2, Some (7, [(1, 100), (2, 200)]))"
  by (simp add: Accumulator_Add_def ReOrder_def ex_acc_def ex_acc2_def splice_end_def equiv_keys_def
      cpp_assert_def Let_def)

definition ex_acc3 :: "(nat, nat, nat) Accumulator" where
  "ex_acc3 = \<lparr>time_to_live = 10, quorum = 2, name_order = [(0, 7), (1, 8)],
     storage = [(7, ([(1, 100)], 0, 5)), (8, ([(2, 200)], 1, 6))], next_node = 2\<rparr>"

lemma ex_acc_add_other: "Accumulator_Add False (\<lambda>_. 6) ex_acc 8 200 2 = Inr (ex_acc3, None)"
  by (simp add: Accumulator_Add_def AddNew_def remove_expired.simps CheckTimeExpired_def ReOrder_def
      ex_acc_def ex_acc3_def splice_end_def equiv_keys_def cpp_assert_def Let_def)

subsection \<open>Properties\<close>

text \<open>
  C9. The accumulator implements its specification. On every accumulator a run can build no
  assertion fails and no iterator is invalid: \<open>Add\<close> and \<open>Delete\<close> return, and change the
  entries (names in order of last use, each with its time and its senders' values) the way the
  specification says. \<open>Add\<close> returns the senders of the name exactly when they are a quorum, and
  \<open>HaveName\<close>, \<open>CheckQuorumReached\<close> and \<open>GetAll\<close> report those entries.
\<close>

theorem accumulator_refines_spec:
  assumes run: "acc_run lo hi ttl q evs acc"
  shows "(\<exists>acc' r m t. Accumulator_Add nd now acc n v s = Inr (acc', r)
        \<and> entries acc' = spec_add ttl now n v s (entries acc)
        \<and> map_of (entries acc') n = Some (t, map_of m)
        \<and> r = (if unat q \<le> card (dom (map_of m)) then Some (n, m) else None))
    \<and> (\<exists>acc'. Accumulator_Delete nd at acc n = Inr acc' \<and> entries acc' = spec_delete n (entries acc))
    \<and> HaveName acc n = (map_of (entries acc) n \<noteq> None)
    \<and> CheckQuorumReached acc n = (\<exists>t h. map_of (entries acc) n = Some (t, h) \<and> unat q \<le> card (dom h))
    \<and> map_option (\<lambda>(n', m). (n', map_of m)) (GetAll acc n) = map_option (\<lambda>(t, h). (n, h)) (map_of (entries acc) n)"
proof -
  have inv: "acc_inv acc" and q: "time_to_live acc = ttl" "quorum acc = q" using run_inv [OF run] by auto
  have len: "length m = card (dom (map_of m))" if "acc_inv a" "map_of (storage a) k = Some (m, h, t)"
    for a :: "('a, 'b, 'c) Accumulator" and k m h t
    using std_less.smap_wf_distinct acc_inv_senders [OF that]
    by (metis distinct_card dom_map_of_conv_image_fst length_map list.set_map)
  obtain acc' m h t where a: "Accumulator_Add nd now acc n v s
      = Inr (acc', if unat q \<le> length m then Some (n, m) else None)"
    "acc_inv acc'" "entries acc' = spec_add ttl now n v s (entries acc)" "map_of (storage acc') n = Some (m, h, t)"
    using Add_ok [OF inv, of nd now n v s] unfolding q by blast
  have "map_of (entries acc') n = Some (t, map_of m)" using map_of_entries [OF a(2)] a(4) by simp
  then have "\<exists>acc' r m t. Accumulator_Add nd now acc n v s = Inr (acc', r)
        \<and> entries acc' = spec_add ttl now n v s (entries acc) \<and> map_of (entries acc') n = Some (t, map_of m)
        \<and> r = (if unat q \<le> card (dom (map_of m)) then Some (n, m) else None)"
    using a(1,3) len [OF a(2,4)] by (intro exI [of _ acc'] exI exI [of _ m] exI [of _ t] conjI) simp_all
  moreover have "\<exists>acc'. Accumulator_Delete nd at acc n = Inr acc' \<and> entries acc' = spec_delete n (entries acc)"
    using Delete_ok [OF inv] by blast
  moreover have "CheckQuorumReached acc n = (\<exists>t h. map_of (entries acc) n = Some (t, h) \<and> unat q \<le> card (dom h))"
    using len [OF inv, of n] by (auto simp: CheckQuorumReached_def map_of_entries [OF inv] q
        std_less.smap_find_map_of split: option.splits)
  moreover have "HaveName acc n = (map_of (entries acc) n \<noteq> None)"
    by (simp add: HaveName_def map_of_entries [OF inv] std_less.smap_find_map_of)
  moreover have "map_option (\<lambda>(n', m). (n', map_of m)) (GetAll acc n)
      = map_option (\<lambda>(t, h). (n, h)) (map_of (entries acc) n)"
    by (simp add: GetAll_def map_of_entries [OF inv] std_less.smap_find_map_of split: option.splits prod.splits)
  ultimately show ?thesis by blast
qed

theorem accumulator_refines_spec_witness:
  "acc_run 0 10 10 2 [Added 7 100 1] ex_acc \<and> HaveName ex_acc 7 \<and> \<not> CheckQuorumReached ex_acc 7
   \<and> (\<exists>acc'. Accumulator_Delete False 9 ex_acc 7 = Inr acc' \<and> entries acc' = [])"
proof -
  note r = accumulator_refines_spec [OF ex_acc_run, where n = 7 and nd = False and at = 9]
  then show ?thesis using ex_acc_run by (auto simp: ex_acc_entries spec_delete_def)
qed

text \<open>
  C10. What a quorum stands for. When \<open>Add\<close> returns a collection for a name, it is for the name
  just added to, it has at least \<open>quorum_\<close> senders, no sender counts twice, and every value in it
  was given by that very sender for that very name since the name was last deleted.
\<close>

theorem accumulator_quorum_genuine:
  assumes "acc_run lo hi ttl q evs acc" "Accumulator_Add nd now acc n v s = Inr (acc', Some (n', m))"
  shows "n' = n \<and> unat q \<le> length m \<and> distinct (map fst m)
    \<and> (\<forall>(s', v') \<in> set m. Added n v' s' \<in> set (since n (Added n v s # evs)))"
proof -
  have inv: "acc_inv acc" and q: "quorum acc = q" using run_inv [OF assms(1)] by auto
  note d = store.add_D(5) [OF inv assms(2) refl]
  have "all_held held (\<lambda>n' s' v'. Added n' v' s' \<in> set (since n' (Added n v s # evs))) acc"
    using run_provenance [OF assms(1)] by (auto simp: all_held_def)
  from store.all_held_result [OF inv this _ assms(2)]
  have "\<forall>(s', v') \<in> set m. Added n v' s' \<in> set (since n (Added n v s # evs))" by auto
  then show ?thesis using d q std_less.smap_wf_distinct by auto
qed

theorem accumulator_quorum_genuine_witness:
  "Accumulator_Add False (\<lambda>_. 6) ex_acc 7 200 2 = Inr (ex_acc2, Some (7, [(1, 100), (2, 200)]))
   \<and> Added 7 100 1 \<in> set (since 7 [Added 7 200 2, Added (7 :: nat) (100 :: nat) (1 :: nat)])"
  using accumulator_quorum_genuine [OF ex_acc_run ex_acc_add] ex_acc_add by auto

text \<open>
  C11. A quorum is noticed. While the clock has not moved by more than the time to live since
  the run began (or when the time to live is zero, which turns expiry off), \<open>Add\<close> returns a
  collection exactly when at least \<open>quorum_\<close> different senders, the present one included, have
  given a value for the name since it was last deleted.
\<close>

theorem accumulator_quorum_noticed:
  assumes "acc_run lo hi ttl q evs acc" "\<And>i. lo \<le> now i \<and> now i \<le> hi" "ttl = 0 \<or> hi \<le> lo + ttl"
  shows "\<exists>acc' r. Accumulator_Add nd now acc n v s = Inr (acc', r)
    \<and> (r \<noteq> None \<longleftrightarrow> unat q \<le> card (senders_since n (Added n v s # evs)))"
proof -
  have inv: "acc_inv acc" and q: "quorum acc = q" using run_inv [OF assms(1)] by auto
  obtain acc' m h t where a: "Accumulator_Add nd now acc n v s
      = Inr (acc', if unat q \<le> length m then Some (n, m) else None)"
    "acc_inv acc'" "map_of (storage acc') n = Some (m, h, t)"
    using Add_ok [OF inv, of nd now n v s] unfolding q by blast
  have "known (entries acc') n = senders_since n (Added n v s # evs)"
    using run_known [OF acc_run.run_add [OF assms(1,2) a(1)] assms(3)] .
  moreover have "known (entries acc') n = fst ` set m"
    using map_of_entries [OF a(2)] a(3) by (simp add: known_def dom_map_of_conv_image_fst)
  moreover have "card (fst ` set m) = length m"
    using std_less.smap_wf_distinct acc_inv_senders [OF a(2,3)] by (metis distinct_card length_map list.set_map)
  ultimately show ?thesis using a(1) by auto
qed

theorem accumulator_quorum_noticed_witness:
  "card (senders_since 7 [Added 7 200 2, Added (7 :: nat) (100 :: nat) (1 :: nat)]) = 2
   \<and> (\<exists>acc' r. Accumulator_Add False (\<lambda>_. 6) ex_acc 7 200 2 = Inr (acc', r) \<and> r \<noteq> None)"
  using accumulator_quorum_noticed [OF ex_acc_run, where now = "\<lambda>_. 6" and nd = False and n = 7 and v = 200 and s = 2]
  by simp

text \<open>
  Nothing young is forgotten. Adding to one name drops another name's entry only if that
  entry is older than the time to live at one of the clock readings; otherwise it is kept with
  all its senders, their values and its time.
\<close>

lemma accumulator_keeps_young:
  assumes "acc_run lo hi ttl q evs acc" "Accumulator_Add nd now acc n v s = Inr (acc', r)"
    "n' \<noteq> n" "map_of (entries acc) n' = Some (t, h)" "ttl = 0 \<or> (\<forall>i. now i \<le> t + ttl)"
  shows "map_of (entries acc') n' = Some (t, h)"
proof -
  have inv': "acc_inv acc'" and e: "entries acc' = spec_add ttl now n v s (entries acc)"
    using Add_entries [OF assms(1,2)] by auto
  obtain i es where x: "spec_expire ttl now 0 (entries acc) = (i, es)" by force
  have el: "(n', t, h) \<in> set (entries acc)" using map_of_SomeD [OF assms(4)] .
  then have "(n', t, h) \<in> set es"
    using spec_expire_lost [of "(n', t, h)" "entries acc" ttl now 0] assms(5) x
    by (metis fst_conv snd_conv not_less)
  then have "(n', t, h) \<in> set (entries acc')"
    using el assms(3) unfolding e spec_add_def x by (auto split: option.splits)
  moreover have "distinct (map fst (entries acc'))" using acc_inv_names [OF inv'] by simp
  ultimately show ?thesis by simp
qed

lemma accumulator_keeps_young_witness:
  "Accumulator_Add False (\<lambda>_. 6) ex_acc 8 200 2 = Inr (ex_acc3, None)
   \<and> map_of (entries ex_acc3) 7 = Some (5, [1 \<mapsto> 100])"
  using accumulator_keeps_young [OF ex_acc_run ex_acc_add_other, of 7 5 "[1 \<mapsto> 100]"] ex_acc_add_other
  by (simp add: ex_acc_entries)

end
