(* ===== verification/Message_Header.thy ===== *)
theory Message_Header
  imports Routing_Types
begin

section \<open>Message headers\<close>

text \<open>
  Models \<^verbatim>\<open>message_header.h\<close>: the header every message carries, its two constructors with
  their validation, the accessors and the comparisons. \<open>'s\<close> is \<^verbatim>\<open>asymm::Signature\<close>.
\<close>

subsection \<open>State and operations\<close>

record ('a, 's) MessageHeader =
  h_destination :: "'a DestinationAddress"
  h_source :: "'a SourceAddress"
  h_message_id :: MessageId
  h_authority :: Authority
  h_signature :: "'s option"

definition FromNode :: "('a, 's) MessageHeader \<Rightarrow> 'a" where
  "FromNode h = node_address (h_source h)"

definition FromGroup :: "('a, 's) MessageHeader \<Rightarrow> 'a option" where
  "FromGroup h = group_address (h_source h)"

definition RelayedMessage :: "('a, 's) MessageHeader \<Rightarrow> bool" where
  "RelayedMessage h \<longleftrightarrow> reply_to_address (h_source h) \<noteq> None"

definition ReplyToAddress :: "('a, 's) MessageHeader \<Rightarrow> 'a option" where
  "ReplyToAddress h = reply_to_address (h_source h)"

definition FromAddress :: "('a, 's) MessageHeader \<Rightarrow> 'a" where
  "FromAddress h = (case FromGroup h of Some g \<Rightarrow> g | None \<Rightarrow> FromNode h)"

definition ReturnDestinationAddress :: "('a, 's) MessageHeader \<Rightarrow> 'a DestinationAddress" where
  "ReturnDestinationAddress h =
     (case ReplyToAddress h of
        Some r \<Rightarrow> (node_address (h_source h), Some r)
      | None \<Rightarrow> (node_address (h_source h), None))"

definition FilterValue :: "('a, 's) MessageHeader \<Rightarrow> 'a FilterType" where
  "FilterValue h = (node_address (h_source h), h_message_id h)"

definition Header_Validate :: "('a, 'f, 'k) lib \<Rightarrow> ('a, 's) MessageHeader \<Rightarrow> unit result" where
  "Header_Validate L h =
     (if IsInitialised L (node_address (h_source h))
         \<or> ((case FromGroup h of Some g \<Rightarrow> IsInitialised L g | None \<Rightarrow> False)
            \<or> (case ReplyToAddress h of Some r \<Rightarrow> IsInitialised L r | None \<Rightarrow> False))
         \<or> (FromGroup h \<noteq> None \<and> RelayedMessage h)
      then Inr () else Inl parsing_error)"

definition MessageHeader_signed ::
  "('a, 'f, 'k) lib \<Rightarrow> 'a DestinationAddress \<Rightarrow> 'a SourceAddress \<Rightarrow> MessageId \<Rightarrow> Authority \<Rightarrow> 's \<Rightarrow>
     ('a, 's) MessageHeader result" where
  "MessageHeader_signed L destination src message_id our_authority signature =
     (let h = \<lparr>h_destination = destination, h_source = src, h_message_id = message_id,
               h_authority = our_authority, h_signature = Some signature\<rparr>
      in bindR (Header_Validate L h) (\<lambda>_. Inr h))"

definition MessageHeader_unsigned ::
  "('a, 'f, 'k) lib \<Rightarrow> 'a DestinationAddress \<Rightarrow> 'a SourceAddress \<Rightarrow> MessageId \<Rightarrow> Authority \<Rightarrow>
     ('a, 's) MessageHeader result" where
  "MessageHeader_unsigned L destination src message_id our_authority =
     (let h = \<lparr>h_destination = destination, h_source = src, h_message_id = message_id,
               h_authority = our_authority, h_signature = None\<rparr>
      in bindR (Header_Validate L h) (\<lambda>_. Inr h))"

text \<open>The comparisons go through \<^verbatim>\<open>std::tie\<close> of the five members, the message id first.\<close>

definition Header_tie ::
  "('a, 's) MessageHeader \<Rightarrow> MessageId \<times> 'a DestinationAddress \<times> 'a SourceAddress \<times> Authority \<times> 's option" where
  "Header_tie h = (h_message_id h, h_destination h, h_source h, h_authority h, h_signature h)"

definition Header_eq :: "('a, 's) MessageHeader \<Rightarrow> ('a, 's) MessageHeader \<Rightarrow> bool" where
  "Header_eq lhs rhs \<longleftrightarrow> h_message_id lhs = h_message_id rhs \<and> h_destination lhs = h_destination rhs
     \<and> SourceAddress_eq (h_source lhs) (h_source rhs) \<and> h_authority lhs = h_authority rhs
     \<and> h_signature lhs = h_signature rhs"

definition Header_neq :: "('a, 's) MessageHeader \<Rightarrow> ('a, 's) MessageHeader \<Rightarrow> bool" where
  "Header_neq lhs rhs = (\<not> Header_eq lhs rhs)"

definition Header_less ::
  "('a::linorder, 's::linorder) MessageHeader \<Rightarrow> ('a, 's) MessageHeader \<Rightarrow> bool" where
  "Header_less lhs rhs =
     lex_less (<) (lex_less (lex_less (<) (opt_less (<))) (lex_less SourceAddress_less
       (lex_less (<) (opt_less (<))))) (Header_tie lhs) (Header_tie rhs)"

definition Header_greater ::
  "('a::linorder, 's::linorder) MessageHeader \<Rightarrow> ('a, 's) MessageHeader \<Rightarrow> bool" where
  "Header_greater lhs rhs = Header_less rhs lhs"

definition Header_le ::
  "('a::linorder, 's::linorder) MessageHeader \<Rightarrow> ('a, 's) MessageHeader \<Rightarrow> bool" where
  "Header_le lhs rhs = (\<not> Header_greater lhs rhs)"

definition Header_ge ::
  "('a::linorder, 's::linorder) MessageHeader \<Rightarrow> ('a, 's) MessageHeader \<Rightarrow> bool" where
  "Header_ge lhs rhs = (\<not> Header_less lhs rhs)"

subsection \<open>Properties\<close>

lemma inj_Header_tie: "inj Header_tie"
  by (rule injI) (simp add: Header_tie_def)

interpretation header_order:
  strict_linear_order "Header_less :: ('a::linorder, 's::linorder) MessageHeader \<Rightarrow> _"
  unfolding Header_less_def
  by (rule key_order [OF _ inj_Header_tie])
    (intro lex_less_order opt_less_order less_order source_order.strict_linear_order_axioms)

text \<open>
  The comparisons of headers fit together, so headers can be sorted and be keys of a map:
  exactly one of less, equal and greater holds, less is transitive, less-or-equal and
  greater-or-equal are less or greater or equal, and equal headers agree in every member.
\<close>

lemma header_comparisons:
  fixes x y z :: "('a::linorder, 's::linorder) MessageHeader"
  shows "(Header_less x y \<or> Header_eq x y \<or> Header_greater x y)
    \<and> \<not> (Header_less x y \<and> Header_eq x y) \<and> \<not> (Header_less x y \<and> Header_greater x y)
    \<and> (Header_less x y \<and> Header_less y z \<longrightarrow> Header_less x z)
    \<and> (Header_le x y \<longleftrightarrow> Header_less x y \<or> Header_eq x y)
    \<and> (Header_ge x y \<longleftrightarrow> Header_greater x y \<or> Header_eq x y)
    \<and> (Header_neq x y \<longleftrightarrow> x \<noteq> y)"
proof -
  have eq: "Header_eq u w \<longleftrightarrow> u = w" for u w :: "('a, 's) MessageHeader"
    by (auto simp: Header_eq_def SourceAddress_eq_iff)
  show ?thesis
    unfolding eq Header_neq_def Header_greater_def Header_le_def Header_ge_def
    using header_order.lt_total [of x y] header_order.lt_irrefl [of x] header_order.lt_asym [of x y]
      header_order.lt_asym [of y x] header_order.lt_trans [of x y z] by blast
qed

definition ex_header :: "nat \<Rightarrow> (nat, nat) MessageHeader" where
  "ex_header i = \<lparr>h_destination = (1, None), h_source = \<lparr>node_address = i, group_address = None,
     reply_to_address = None\<rparr>, h_message_id = 5, h_authority = node, h_signature = Some 3\<rparr>"

lemma header_comparisons_witness:
  "Header_less (ex_header 1) (ex_header 2) \<and> Header_less (ex_header 2) (ex_header 3)
   \<and> Header_less (ex_header 1) (ex_header 3)"
proof -
  have "Header_less (ex_header 1) (ex_header 2)" "Header_less (ex_header 2) (ex_header 3)"
    by (simp_all add: Header_less_def Header_tie_def ex_header_def SourceAddress_less_def SourceAddress_tie_def)
  then show ?thesis
    using header_comparisons [of "ex_header 1" "ex_header 2" "ex_header 3"] by blast
qed

end
