(* ===== verification/Archive.thy ===== *)
theory Archive
  imports Message_Header "HOL-Library.Countable"
begin

section \<open>Reading and writing archives\<close>

text \<open>
  How the classes of the library are written to and read from an archive: the \<^verbatim>\<open>serialize\<close>
  members of \<^verbatim>\<open>message_header.h\<close> and \<^verbatim>\<open>source_address.h\<close>, and \<^verbatim>\<open>utils.h\<close>.

  The archive is cereal's. How it writes a value of one of its own types, or of the types of
  maidsafe-common and maidsafe-passport, is a field of the record \<open>prims\<close>. A codec is the pair
  of a writer and a reader; the reader gives the value and the bytes that follow it, and
  \<open>None\<close> where it throws.
\<close>

subsection \<open>Codecs\<close>

record 'x codec =
  enc :: "'x \<Rightarrow> byte list"
  dec :: "byte list \<Rightarrow> ('x \<times> byte list) option"

text \<open>\<open>codec_as norm c\<close>: what is written as \<open>x\<close> is read back as \<open>norm x\<close>, and nothing more is read.\<close>

definition codec_as :: "('x \<Rightarrow> 'x) \<Rightarrow> 'x codec \<Rightarrow> bool" where
  "codec_as norm c \<longleftrightarrow> (\<forall>x rest. dec c (enc c x @ rest) = Some (norm x, rest))"

abbreviation codec_ok :: "'x codec \<Rightarrow> bool" where
  "codec_ok c \<equiv> codec_as (\<lambda>x. x) c"

text \<open>\<^verbatim>\<open>archive(a, b)\<close> handles its arguments from left to right.\<close>

definition archive2 :: "'x codec \<Rightarrow> 'y codec \<Rightarrow> ('x \<times> 'y) codec" where
  "archive2 c d = \<lparr>enc = (\<lambda>(x, y). enc c x @ enc d y),
     dec = (\<lambda>bs. case dec c bs of None \<Rightarrow> None
       | Some (x, bs') \<Rightarrow> (case dec d bs' of None \<Rightarrow> None | Some (y, bs'') \<Rightarrow> Some ((x, y), bs'')))\<rparr>"

text \<open>A class whose \<^verbatim>\<open>serialize\<close> handles the members \<open>members x\<close>, from which \<open>build\<close> makes it\<close>

definition class_codec :: "('x \<Rightarrow> 'y) \<Rightarrow> ('y \<Rightarrow> 'x) \<Rightarrow> 'y codec \<Rightarrow> 'x codec" where
  "class_codec members build c = \<lparr>enc = (\<lambda>x. enc c (members x)),
     dec = (\<lambda>bs. case dec c bs of None \<Rightarrow> None | Some (y, bs') \<Rightarrow> Some (build y, bs'))\<rparr>"

lemma codec_asD: "codec_as norm c \<Longrightarrow> dec c (enc c x @ rest) = Some (norm x, rest)"
  by (simp add: codec_as_def)

lemma codec_as_archive2:
  "codec_as f c \<Longrightarrow> codec_as g d \<Longrightarrow> codec_as (\<lambda>(x, y). (f x, g y)) (archive2 c d)"
  by (auto simp: codec_as_def archive2_def)

lemma codec_ok_archive2: "codec_ok c \<Longrightarrow> codec_ok d \<Longrightarrow> codec_ok (archive2 c d)"
  by (auto simp: codec_as_def archive2_def)

lemma codec_as_class:
  "codec_as f c \<Longrightarrow> (\<And>x. build (f (members x)) = g x) \<Longrightarrow> codec_as g (class_codec members build c)"
  by (auto simp: codec_as_def class_codec_def)

lemma codec_ok_class:
  "codec_ok c \<Longrightarrow> (\<And>x. build (members x) = x) \<Longrightarrow> codec_ok (class_codec members build c)"
  by (rule codec_as_class)

text \<open>
  A reader of such a codec is never confused: two values followed by anything are written alike
  only when they are read back alike.
\<close>

lemma codec_unambiguous:
  assumes "codec_as norm c" "enc c x @ r = enc c y @ s"
  shows "norm x = norm y \<and> r = s"
  using codec_asD [OF assms(1), of x r] codec_asD [OF assms(1), of y s] assms(2) by simp

subsection \<open>What the libraries write\<close>

text \<open>
  \<open>'n\<close> is \<^verbatim>\<open>Data::NameAndTypeId\<close>, \<open>'t\<close> is \<^verbatim>\<open>DataTypeId\<close>, \<open>'x\<close> is \<^verbatim>\<open>maidsafe_error\<close>. An
  optional value and a \<^verbatim>\<open>std::map\<close> are written by the libraries too.
\<close>

record ('a, 'f, 'k, 's, 'n, 't, 'x) prims =
  p_address :: "'a codec"
  p_opt_address :: "'a option codec"
  p_fob :: "'f codec"
  p_key :: "'k codec"
  p_keys :: "('a, 'k) smap codec"
  p_opt_signature :: "'s option codec"
  p_message_id :: "MessageId codec"
  p_authority :: "Authority codec"
  p_tag :: "16 word codec"
  p_size :: "64 word codec"
  p_name_and_type_id :: "'n codec"
  p_type_id :: "'t codec"
  p_data :: "byte list codec"
  p_opt_data :: "byte list option codec"
  p_error :: "'x codec"
  p_opt_error :: "'x option codec"
  p_ip_bytes :: "128 word codec"
  p_port :: "16 word codec"

text \<open>What is relied on: the libraries read back what they write.\<close>

definition prims_ok :: "('a, 'f, 'k, 's, 'n, 't, 'x) prims \<Rightarrow> bool" where
  "prims_ok P \<longleftrightarrow> codec_ok (p_address P) \<and> codec_ok (p_opt_address P) \<and> codec_ok (p_fob P)
     \<and> codec_ok (p_key P) \<and> codec_ok (p_keys P) \<and> codec_ok (p_opt_signature P)
     \<and> codec_ok (p_message_id P) \<and> codec_ok (p_authority P) \<and> codec_ok (p_tag P) \<and> codec_ok (p_size P)
     \<and> codec_ok (p_name_and_type_id P) \<and> codec_ok (p_type_id P) \<and> codec_ok (p_data P)
     \<and> codec_ok (p_opt_data P) \<and> codec_ok (p_error P) \<and> codec_ok (p_opt_error P)
     \<and> codec_ok (p_ip_bytes P) \<and> codec_ok (p_port P)"

lemma prims_okD:
  assumes "prims_ok P"
  shows "codec_ok (p_address P)" "codec_ok (p_opt_address P)" "codec_ok (p_fob P)" "codec_ok (p_key P)"
    "codec_ok (p_keys P)" "codec_ok (p_opt_signature P)" "codec_ok (p_message_id P)"
    "codec_ok (p_authority P)" "codec_ok (p_tag P)" "codec_ok (p_size P)" "codec_ok (p_name_and_type_id P)"
    "codec_ok (p_type_id P)" "codec_ok (p_data P)" "codec_ok (p_opt_data P)" "codec_ok (p_error P)"
    "codec_ok (p_opt_error P)" "codec_ok (p_ip_bytes P)" "codec_ok (p_port P)"
  using assms by (simp_all add: prims_ok_def)

subsection \<open>Addresses and headers\<close>

definition DestinationAddress_serialize ::
  "('a, 'f, 'k, 's, 'n, 't, 'x) prims \<Rightarrow> 'a DestinationAddress codec" where
  "DestinationAddress_serialize P = archive2 (p_address P) (p_opt_address P)"

definition SourceAddress_serialize ::
  "('a, 'f, 'k, 's, 'n, 't, 'x) prims \<Rightarrow> 'a SourceAddress codec" where
  "SourceAddress_serialize P =
     class_codec (\<lambda>s. (node_address s, group_address s, reply_to_address s))
       (\<lambda>(n, g, r). \<lparr>node_address = n, group_address = g, reply_to_address = r\<rparr>)
       (archive2 (p_address P) (archive2 (p_opt_address P) (p_opt_address P)))"

definition MessageHeader_serialize ::
  "('a, 'f, 'k, 's, 'n, 't, 'x) prims \<Rightarrow> ('a, 's) MessageHeader codec" where
  "MessageHeader_serialize P =
     class_codec (\<lambda>h. (h_destination h, h_source h, h_message_id h, h_authority h, h_signature h))
       (\<lambda>(d, s, m, a, g). \<lparr>h_destination = d, h_source = s, h_message_id = m, h_authority = a, h_signature = g\<rparr>)
       (archive2 (DestinationAddress_serialize P) (archive2 (SourceAddress_serialize P)
         (archive2 (p_message_id P) (archive2 (p_authority P) (p_opt_signature P)))))"

lemma codec_ok_DestinationAddress: "prims_ok P \<Longrightarrow> codec_ok (DestinationAddress_serialize P)"
  unfolding DestinationAddress_serialize_def by (intro codec_ok_archive2 prims_okD)

lemma codec_ok_SourceAddress: "prims_ok P \<Longrightarrow> codec_ok (SourceAddress_serialize P)"
  unfolding SourceAddress_serialize_def by (intro codec_ok_class codec_ok_archive2 prims_okD) simp_all

lemma codec_ok_MessageHeader: "prims_ok P \<Longrightarrow> codec_ok (MessageHeader_serialize P)"
  unfolding MessageHeader_serialize_def
  by (intro codec_ok_class codec_ok_archive2 codec_ok_DestinationAddress codec_ok_SourceAddress prims_okD) simp_all

subsection \<open>Endpoints\<close>

text \<open>
  \<open>'v4\<close> and \<open>'v6\<close> are asio's two classes of addresses; the operations that \<^verbatim>\<open>utils.h\<close> calls are
  the fields of \<open>asio_ip\<close>. The sixteen bytes of a version 6 address are one 128-bit word.
\<close>

datatype ('v4, 'v6) ip_address = V4 'v4 | V6 'v6

record ('v4, 'v6) asio_ip =
  v4_compatible :: "'v4 \<Rightarrow> 'v6"
  is_v4_compatible :: "'v6 \<Rightarrow> bool"
  to_v4 :: "'v6 \<Rightarrow> 'v4"
  to_bytes :: "'v6 \<Rightarrow> 128 word"
  from_bytes :: "128 word \<Rightarrow> 'v6"

type_synonym ('v4, 'v6) endpoint = "('v4, 'v6) ip_address \<times> 16 word"

text \<open>What is relied on: bytes and address determine each other, and \<open>to_v4\<close> undoes \<open>v4_compatible\<close>.\<close>

definition asio_ok :: "('v4, 'v6) asio_ip \<Rightarrow> bool" where
  "asio_ok A \<longleftrightarrow> (\<forall>x. from_bytes A (to_bytes A x) = x)
     \<and> (\<forall>x. is_v4_compatible A (v4_compatible A x) \<longrightarrow> to_v4 A (v4_compatible A x) = x)"

definition Endpoint_save ::
  "('v4, 'v6) asio_ip \<Rightarrow> ('a, 'f, 'k, 's, 'n, 't, 'x) prims \<Rightarrow> ('v4, 'v6) endpoint \<Rightarrow> byte list" where
  "Endpoint_save A P e =
     (let ip_address = (case fst e of V4 x \<Rightarrow> v4_compatible A x | V6 x \<Rightarrow> x)
      in enc (archive2 (p_ip_bytes P) (p_port P)) (to_bytes A ip_address, snd e))"

definition Endpoint_load ::
  "('v4, 'v6) asio_ip \<Rightarrow> ('a, 'f, 'k, 's, 'n, 't, 'x) prims \<Rightarrow> byte list \<Rightarrow> (('v4, 'v6) endpoint \<times> byte list) option" where
  "Endpoint_load A P bs =
     (case dec (archive2 (p_ip_bytes P) (p_port P)) bs of
        None \<Rightarrow> None
      | Some ((bytes, port), rest) \<Rightarrow>
          let ip_v6_address = from_bytes A bytes;
              ip_address = (if is_v4_compatible A ip_v6_address then V4 (to_v4 A ip_v6_address)
                            else V6 ip_v6_address)
          in Some ((ip_address, port), rest))"

definition Endpoint_codec ::
  "('v4, 'v6) asio_ip \<Rightarrow> ('a, 'f, 'k, 's, 'n, 't, 'x) prims \<Rightarrow> ('v4, 'v6) endpoint codec" where
  "Endpoint_codec A P = \<lparr>enc = Endpoint_save A P, dec = Endpoint_load A P\<rparr>"

definition EndpointPair_serialize ::
  "('v4, 'v6) asio_ip \<Rightarrow> ('a, 'f, 'k, 's, 'n, 't, 'x) prims \<Rightarrow> ('v4, 'v6) endpoint EndpointPair codec" where
  "EndpointPair_serialize A P =
     class_codec (\<lambda>e. (ep_local e, ep_external e)) (\<lambda>(l, x). \<lparr>ep_local = l, ep_external = x\<rparr>)
       (archive2 (Endpoint_codec A P) (Endpoint_codec A P))"

definition Contact_serialize ::
  "('v4, 'v6) asio_ip \<Rightarrow> ('a, 'f, 'k, 's, 'n, 't, 'x) prims \<Rightarrow> ('a, ('v4, 'v6) endpoint, 'k) Contact codec" where
  "Contact_serialize A P =
     class_codec (\<lambda>c. (contact_id c, endpoint_pair c, contact_public_key c))
       (\<lambda>(i, e, k). \<lparr>contact_id = i, endpoint_pair = e, contact_public_key = k\<rparr>)
       (archive2 (p_address P) (archive2 (EndpointPair_serialize A P) (p_key P)))"

text \<open>What an endpoint is after it was written and read.\<close>

definition endpoint_norm :: "('v4, 'v6) asio_ip \<Rightarrow> ('v4, 'v6) endpoint \<Rightarrow> ('v4, 'v6) endpoint" where
  "endpoint_norm A e =
     (case fst e of
        V4 x \<Rightarrow> (if is_v4_compatible A (v4_compatible A x) then V4 x else V6 (v4_compatible A x))
      | V6 x \<Rightarrow> (if is_v4_compatible A x then V4 (to_v4 A x) else V6 x), snd e)"

definition pair_norm ::
  "('v4, 'v6) asio_ip \<Rightarrow> ('v4, 'v6) endpoint EndpointPair \<Rightarrow> ('v4, 'v6) endpoint EndpointPair" where
  "pair_norm A p = \<lparr>ep_local = endpoint_norm A (ep_local p), ep_external = endpoint_norm A (ep_external p)\<rparr>"

text \<open>An endpoint that is read back as itself\<close>

definition endpoint_faithful :: "('v4, 'v6) asio_ip \<Rightarrow> ('v4, 'v6) endpoint \<Rightarrow> bool" where
  "endpoint_faithful A e \<longleftrightarrow> (case fst e of
     V4 x \<Rightarrow> is_v4_compatible A (v4_compatible A x) | V6 x \<Rightarrow> \<not> is_v4_compatible A x)"

lemma endpoint_norm_id: "endpoint_norm A e = e \<longleftrightarrow> endpoint_faithful A e"
  by (cases e) (auto simp: endpoint_norm_def endpoint_faithful_def split: ip_address.splits)

lemma pair_norm_id:
  "pair_norm A p = p \<longleftrightarrow> endpoint_faithful A (ep_local p) \<and> endpoint_faithful A (ep_external p)"
  by (cases p) (simp add: pair_norm_def endpoint_norm_id)

lemma codec_as_Endpoint:
  assumes "prims_ok P" "asio_ok A" shows "codec_as (endpoint_norm A) (Endpoint_codec A P)"
proof -
  have "codec_ok (archive2 (p_ip_bytes P) (p_port P))"
    using assms(1) by (intro codec_ok_archive2 prims_okD)
  then show ?thesis
    using assms(2)
    by (auto simp: codec_as_def Endpoint_codec_def Endpoint_save_def Endpoint_load_def endpoint_norm_def
        asio_ok_def Let_def split: ip_address.splits)
qed

lemma codec_as_EndpointPair:
  "prims_ok P \<Longrightarrow> asio_ok A \<Longrightarrow> codec_as (pair_norm A) (EndpointPair_serialize A P)"
  unfolding EndpointPair_serialize_def
  by (rule codec_as_class, rule codec_as_archive2, (erule (1) codec_as_Endpoint)+) (simp add: pair_norm_def)

lemma codec_as_Contact:
  assumes "prims_ok P" "asio_ok A"
  shows "codec_as (\<lambda>c. c\<lparr>endpoint_pair := pair_norm A (endpoint_pair c)\<rparr>) (Contact_serialize A P)"
  unfolding Contact_serialize_def
  by (rule codec_as_class, rule codec_as_archive2, rule prims_okD [OF assms(1)], rule codec_as_archive2,
      rule codec_as_EndpointPair [OF assms], rule prims_okD [OF assms(1)]) simp

subsection \<open>A concrete archive\<close>

text \<open>
  An archive and an address library that satisfy what is relied on: every value is written as
  its number in unary, and an address of version 4 is the low half of one of version 6. The
  loopback and unspecified addresses of version 6 do not count as compatible with version 4,
  as in asio.
\<close>

definition unary_codec :: "('x \<Rightarrow> nat) \<Rightarrow> (nat \<Rightarrow> 'x) \<Rightarrow> 'x codec" where
  "unary_codec to from = \<lparr>enc = (\<lambda>x. replicate (to x) 1 @ [0]),
     dec = (\<lambda>bs. let k = length (takeWhile (\<lambda>b. b = 1) bs) in
       if k < length bs then Some (from k, drop (Suc k) bs) else None)\<rparr>"

lemma takeWhile_replicate_one:
  "takeWhile (\<lambda>b. b = (1::byte)) (replicate k 1 @ 0 # rest) = replicate k 1"
  by (induction k) auto

lemma codec_ok_unary: "(\<And>x. from (to x) = x) \<Longrightarrow> codec_ok (unary_codec to from)"
  by (simp add: codec_as_def unary_codec_def takeWhile_replicate_one Let_def)

definition nat_prims :: "(nat, nat, nat, nat, nat, nat, nat) prims" where
  "nat_prims = \<lparr>p_address = unary_codec (\<lambda>x. x) (\<lambda>x. x), p_opt_address = unary_codec to_nat from_nat,
     p_fob = unary_codec (\<lambda>x. x) (\<lambda>x. x), p_key = unary_codec (\<lambda>x. x) (\<lambda>x. x),
     p_keys = unary_codec to_nat from_nat, p_opt_signature = unary_codec to_nat from_nat,
     p_message_id = unary_codec unat of_nat,
     p_authority = unary_codec (\<lambda>a. nat (authority_value a))
       (\<lambda>n. [client_manager, nae_manager, node_manager, managed_node, node, client] ! n),
     p_tag = unary_codec unat of_nat, p_size = unary_codec unat of_nat,
     p_name_and_type_id = unary_codec (\<lambda>x. x) (\<lambda>x. x), p_type_id = unary_codec (\<lambda>x. x) (\<lambda>x. x),
     p_data = unary_codec (\<lambda>bs. to_nat (map unat bs)) (\<lambda>n. map of_nat (from_nat n)),
     p_opt_data = unary_codec (\<lambda>d. to_nat (map_option (map unat) d)) (\<lambda>n. map_option (map of_nat) (from_nat n)),
     p_error = unary_codec (\<lambda>x. x) (\<lambda>x. x), p_opt_error = unary_codec to_nat from_nat,
     p_ip_bytes = unary_codec unat of_nat, p_port = unary_codec unat of_nat\<rparr>"

lemma nat_prims_ok: "prims_ok nat_prims"
proof -
  have a: "[client_manager, nae_manager, node_manager, managed_node, node, client] ! nat (authority_value x) = x"
    for x by (cases x) (simp_all add: nth_Cons numeral_eq_Suc)
  show ?thesis
    unfolding prims_ok_def nat_prims_def
    by (simp, intro conjI; rule codec_ok_unary; simp add: a comp_def option.map_comp option.map_ident map_idI)
qed

definition word_asio :: "(32 word, 128 word) asio_ip" where
  "word_asio = \<lparr>v4_compatible = ucast, is_v4_compatible = (\<lambda>b. unat b < 2 ^ 32 \<and> b \<noteq> 0 \<and> b \<noteq> 1),
     to_v4 = ucast, to_bytes = (\<lambda>b. b), from_bytes = (\<lambda>b. b)\<rparr>"

lemma word_asio_ok: "asio_ok word_asio"
proof -
  have "ucast (ucast x :: 128 word) = x" for x :: "32 word" by transfer simp
  then show ?thesis by (simp add: asio_ok_def word_asio_def)
qed

subsection \<open>Properties\<close>

text \<open>
  C12. An endpoint and a contact are read back as they were written, and nothing after them is
  touched, exactly when their addresses survive the detour through version 6: an address of
  version 4 does when its version 6 form counts as compatible with version 4, an address of
  version 6 does when it does not count as compatible. Ports, identities and keys always
  survive.
\<close>

theorem endpoint_roundtrip:
  assumes "prims_ok P" "asio_ok A"
  shows "(\<exists>e'. Endpoint_load A P (Endpoint_save A P e @ rest) = Some (e', rest)
      \<and> snd e' = snd e \<and> (e' = e \<longleftrightarrow> endpoint_faithful A e))
    \<and> (dec (Contact_serialize A P) (enc (Contact_serialize A P) c @ rest) = Some (c, rest) \<longleftrightarrow>
        endpoint_faithful A (ep_local (endpoint_pair c)) \<and> endpoint_faithful A (ep_external (endpoint_pair c)))"
proof
  have "Endpoint_load A P (Endpoint_save A P e @ rest) = Some (endpoint_norm A e, rest)"
    using codec_asD [OF codec_as_Endpoint [OF assms]] by (simp add: Endpoint_codec_def)
  then show "\<exists>e'. Endpoint_load A P (Endpoint_save A P e @ rest) = Some (e', rest)
      \<and> snd e' = snd e \<and> (e' = e \<longleftrightarrow> endpoint_faithful A e)"
    using endpoint_norm_id [of A e] by (auto simp: endpoint_norm_def)
  show "dec (Contact_serialize A P) (enc (Contact_serialize A P) c @ rest) = Some (c, rest) \<longleftrightarrow>
      endpoint_faithful A (ep_local (endpoint_pair c)) \<and> endpoint_faithful A (ep_external (endpoint_pair c))"
    using codec_asD [OF codec_as_Contact [OF assms], of c rest]
    by (cases c) (simp add: pair_norm_id)
qed

theorem endpoint_roundtrip_witness:
  "(\<exists>e'. Endpoint_load word_asio nat_prims (Endpoint_save word_asio nat_prims (V4 0x7F000001, 5483) @ [9]) = Some (e', [9])
      \<and> e' = (V4 0x7F000001, 5483))
   \<and> \<not> endpoint_faithful word_asio (V4 0, 5483)
   \<and> (\<exists>e'. Endpoint_load word_asio nat_prims (Endpoint_save word_asio nat_prims (V4 0, 5483) @ [9]) = Some (e', [9])
      \<and> e' \<noteq> (V4 0, 5483))"
proof -
  have f: "endpoint_faithful word_asio (V4 0x7F000001, 5483)" "\<not> endpoint_faithful word_asio (V4 0, 5483)"
    by (simp_all add: endpoint_faithful_def word_asio_def)
  show ?thesis
    using endpoint_roundtrip [OF nat_prims_ok word_asio_ok, of "(V4 0x7F000001, 5483)" "[9]"]
      endpoint_roundtrip [OF nat_prims_ok word_asio_ok, of "(V4 0, 5483)" "[9]"] f by blast
qed

end
