(* ===== verification/Messages.thy ===== *)
theory Messages
  imports Archive
begin

section \<open>Messages\<close>

text \<open>
  Models \<^verbatim>\<open>messages/*.h\<close>: the tag of each kind of message, the members of each message class
  in the order its \<^verbatim>\<open>serialize\<close> handles them, and how a message travels (a header, a tag and a
  body, one after the other). Constructors and moves that pass every member on are the
  record's own constructor; the two that do not are written out.
\<close>

subsection \<open>Tags\<close>

datatype MessageTypeTag =
  tag_Connect | tag_ConnectResponse | tag_FindGroup | tag_FindGroupResponse | tag_GetData | tag_GetDataResponse
  | tag_GetClientKey | tag_GetClientKeyResponse | tag_GetGroupKey | tag_GetGroupKeyResponse | tag_Post
  | tag_PostResponse | tag_PutData | tag_PutDataResponse | tag_PutKey | tag_AccountTransfer

definition all_tags :: "MessageTypeTag list" where
  "all_tags = [tag_Connect, tag_ConnectResponse, tag_FindGroup, tag_FindGroupResponse, tag_GetData,
     tag_GetDataResponse, tag_GetClientKey, tag_GetClientKeyResponse, tag_GetGroupKey, tag_GetGroupKeyResponse,
     tag_Post, tag_PostResponse, tag_PutData, tag_PutDataResponse, tag_PutKey, tag_AccountTransfer]"

fun tag_value :: "MessageTypeTag \<Rightarrow> 16 word" where
  "tag_value tag_Connect = 0" | "tag_value tag_ConnectResponse = 1" | "tag_value tag_FindGroup = 2"
| "tag_value tag_FindGroupResponse = 3" | "tag_value tag_GetData = 4" | "tag_value tag_GetDataResponse = 5"
| "tag_value tag_GetClientKey = 6" | "tag_value tag_GetClientKeyResponse = 7" | "tag_value tag_GetGroupKey = 8"
| "tag_value tag_GetGroupKeyResponse = 9" | "tag_value tag_Post = 10" | "tag_value tag_PostResponse = 11"
| "tag_value tag_PutData = 12" | "tag_value tag_PutDataResponse = 13" | "tag_value tag_PutKey = 14"
| "tag_value tag_AccountTransfer = 15"

text \<open>
  The value read for a tag need not be one of the enumerators; then none of the cases of a
  \<^verbatim>\<open>switch\<close> over the tag applies, and \<open>tag_of\<close> is \<open>None\<close>.
\<close>

definition tag_of :: "16 word \<Rightarrow> MessageTypeTag option" where
  "tag_of w = find (\<lambda>t. tag_value t = w) all_tags"

lemma tag_of_value [simp]: "tag_of (tag_value t) = Some t"
  by (cases t) (simp_all add: tag_of_def all_tags_def)

text \<open>The tag of each message class, \<^verbatim>\<open>MessageToTag<Class>::value()\<close>\<close>

datatype message_class =
  class_Connect | class_ConnectResponse | class_FindGroup | class_FindGroupResponse | class_GetData
  | class_GetDataResponse | class_GetClientKey | class_GetClientKeyResponse | class_GetGroupKey
  | class_GetGroupKeyResponse | class_PutData | class_PutDataResponse | class_Post | class_PostResponse

fun MessageToTag :: "message_class \<Rightarrow> MessageTypeTag" where
  "MessageToTag class_Connect = tag_Connect"
| "MessageToTag class_ConnectResponse = tag_ConnectResponse"
| "MessageToTag class_FindGroup = tag_FindGroup"
| "MessageToTag class_FindGroupResponse = tag_FindGroupResponse"
| "MessageToTag class_GetData = tag_GetData"
| "MessageToTag class_GetDataResponse = tag_GetDataResponse"
| "MessageToTag class_GetClientKey = tag_GetClientKey"
| "MessageToTag class_GetClientKeyResponse = tag_GetClientKeyResponse"
| "MessageToTag class_GetGroupKey = tag_GetGroupKey"
| "MessageToTag class_GetGroupKeyResponse = tag_GetGroupKeyResponse"
| "MessageToTag class_PutData = tag_PutData"
| "MessageToTag class_PutDataResponse = tag_PutDataResponse"
| "MessageToTag class_Post = tag_Post"
| "MessageToTag class_PostResponse = tag_PostResponse"

lemma inj_MessageToTag: "inj MessageToTag"
proof (rule injI)
  fix x y assume "MessageToTag x = MessageToTag y"
  then show "x = y" by (cases x; cases y) simp_all
qed

subsection \<open>The message classes\<close>

record ('a, 'f, 'e) Connect =
  c_requester_endpoints :: "'e EndpointPair"
  c_requester_id :: "'a"
  c_receiver_id :: "'a"
  c_requester_fob :: "'f"

definition Connect_new ::
  "'e EndpointPair \<Rightarrow> 'a \<Rightarrow> 'a \<Rightarrow> 'f \<Rightarrow> ('a, 'f, 'e) Connect" where
  "Connect_new requester_endpoints requester_id receiver_id requester_fob =
     \<lparr>c_requester_endpoints = requester_endpoints, c_requester_id = requester_id,
      c_receiver_id = receiver_id, c_requester_fob = requester_fob\<rparr>"

definition Connect_serialize :: "('v4, 'v6) asio_ip \<Rightarrow> ('a, 'f, 'k, 's, 'n, 't, 'x) prims \<Rightarrow> ('a, 'f, ('v4, 'v6) endpoint) Connect codec" where
  "Connect_serialize A P =
     class_codec (\<lambda>x. (c_requester_endpoints x, c_requester_id x, c_receiver_id x, c_requester_fob x))
       (\<lambda>(m1, m2, m3, m4). \<lparr>c_requester_endpoints = m1, c_requester_id = m2, c_receiver_id = m3, c_requester_fob = m4\<rparr>)
       (archive2 (EndpointPair_serialize A P) (archive2 (p_address P) (archive2 (p_address P) (p_fob P))))"

record ('a, 'f, 'e) ConnectResponse =
  cr_requester_endpoints :: "'e EndpointPair"
  cr_receiver_endpoints :: "'e EndpointPair"
  cr_requester_id :: "'a"
  cr_receiver_id :: "'a"
  cr_receiver_fob :: "'f"

definition ConnectResponse_new ::
  "'e EndpointPair \<Rightarrow> 'e EndpointPair \<Rightarrow> 'a \<Rightarrow> 'a \<Rightarrow> 'f \<Rightarrow> ('a, 'f, 'e) ConnectResponse" where
  "ConnectResponse_new requester_endpoints receiver_endpoints requester_id receiver_id receiver_fob =
     \<lparr>cr_requester_endpoints = requester_endpoints,
      cr_receiver_endpoints = receiver_endpoints, cr_requester_id = requester_id,
      cr_receiver_id = receiver_id, cr_receiver_fob = receiver_fob\<rparr>"

definition ConnectResponse_serialize :: "('v4, 'v6) asio_ip \<Rightarrow> ('a, 'f, 'k, 's, 'n, 't, 'x) prims \<Rightarrow> ('a, 'f, ('v4, 'v6) endpoint) ConnectResponse codec" where
  "ConnectResponse_serialize A P =
     class_codec (\<lambda>x. (cr_requester_endpoints x, cr_receiver_endpoints x, cr_requester_id x, cr_receiver_id x, cr_receiver_fob x))
       (\<lambda>(m1, m2, m3, m4, m5). \<lparr>cr_requester_endpoints = m1, cr_receiver_endpoints = m2, cr_requester_id = m3, cr_receiver_id = m4, cr_receiver_fob = m5\<rparr>)
       (archive2 (EndpointPair_serialize A P) (archive2 (EndpointPair_serialize A P) (archive2 (p_address P) (archive2 (p_address P) (p_fob P)))))"

record 'a FindGroup =
  fg_requester_id :: "'a"
  fg_target_id :: "'a"

definition FindGroup_new :: "'a \<Rightarrow> 'a \<Rightarrow> 'a FindGroup" where
  "FindGroup_new requester_id target_id =
     \<lparr>fg_requester_id = requester_id, fg_target_id = target_id\<rparr>"

definition FindGroup_serialize :: "('a, 'f, 'k, 's, 'n, 't, 'x) prims \<Rightarrow> 'a FindGroup codec" where
  "FindGroup_serialize P =
     class_codec (\<lambda>x. (fg_requester_id x, fg_target_id x))
       (\<lambda>(m1, m2). \<lparr>fg_requester_id = m1, fg_target_id = m2\<rparr>)
       (archive2 (p_address P) (p_address P))"

record 'a GetClientKey =
  gck_requester :: "'a"
  gck_target_id :: "'a"

definition GetClientKey_new :: "'a \<Rightarrow> 'a \<Rightarrow> 'a GetClientKey" where
  "GetClientKey_new requester target_id =
     \<lparr>gck_requester = requester, gck_target_id = target_id\<rparr>"

definition GetClientKey_serialize :: "('a, 'f, 'k, 's, 'n, 't, 'x) prims \<Rightarrow> 'a GetClientKey codec" where
  "GetClientKey_serialize P =
     class_codec (\<lambda>x. (gck_requester x, gck_target_id x))
       (\<lambda>(m1, m2). \<lparr>gck_requester = m1, gck_target_id = m2\<rparr>)
       (archive2 (p_address P) (p_address P))"

record ('a, 'k) GetClientKeyResponse =
  gckr_address :: "'a"
  gckr_public_key :: "'k"

definition GetClientKeyResponse_new ::
  "'a \<Rightarrow> 'k \<Rightarrow> ('a, 'k) GetClientKeyResponse" where
  "GetClientKeyResponse_new address public_key =
     \<lparr>gckr_address = address, gckr_public_key = public_key\<rparr>"

definition GetClientKeyResponse_serialize :: "('a, 'f, 'k, 's, 'n, 't, 'x) prims \<Rightarrow> ('a, 'k) GetClientKeyResponse codec" where
  "GetClientKeyResponse_serialize P =
     class_codec (\<lambda>x. (gckr_address x, gckr_public_key x))
       (\<lambda>(m1, m2). \<lparr>gckr_address = m1, gckr_public_key = m2\<rparr>)
       (archive2 (p_address P) (p_key P))"

record ('n, 'a) GetData =
  gd_name_and_type_id :: "'n"
  gd_requester :: "'a SourceAddress"

definition GetData_new :: "'n \<Rightarrow> 'a SourceAddress \<Rightarrow> ('n, 'a) GetData" where
  "GetData_new name_and_type_id requester =
     \<lparr>gd_name_and_type_id = name_and_type_id, gd_requester = requester\<rparr>"

definition GetData_serialize :: "('a, 'f, 'k, 's, 'n, 't, 'x) prims \<Rightarrow> ('n, 'a) GetData codec" where
  "GetData_serialize P =
     class_codec (\<lambda>x. (gd_name_and_type_id x, gd_requester x))
       (\<lambda>(m1, m2). \<lparr>gd_name_and_type_id = m1, gd_requester = m2\<rparr>)
       (archive2 (p_name_and_type_id P) (SourceAddress_serialize P))"

record ('n, 'x) GetDataResponse =
  gdr_name_and_type_id :: "'n"
  gdr_data :: "byte list option"
  gdr_error :: "'x option"

definition GetDataResponse_serialize :: "('a, 'f, 'k, 's, 'n, 't, 'x) prims \<Rightarrow> ('n, 'x) GetDataResponse codec" where
  "GetDataResponse_serialize P =
     class_codec (\<lambda>x. (gdr_name_and_type_id x, gdr_data x, gdr_error x))
       (\<lambda>(m1, m2, m3). \<lparr>gdr_name_and_type_id = m1, gdr_data = m2, gdr_error = m3\<rparr>)
       (archive2 (p_name_and_type_id P) (archive2 (p_opt_data P) (p_opt_error P)))"

record 'a GetGroupKey =
  ggk_requester :: "'a SourceAddress"
  ggk_target_id :: "'a"

definition GetGroupKey_new :: "'a SourceAddress \<Rightarrow> 'a \<Rightarrow> 'a GetGroupKey" where
  "GetGroupKey_new requester target_id =
     \<lparr>ggk_requester = requester, ggk_target_id = target_id\<rparr>"

definition GetGroupKey_serialize :: "('a, 'f, 'k, 's, 'n, 't, 'x) prims \<Rightarrow> 'a GetGroupKey codec" where
  "GetGroupKey_serialize P =
     class_codec (\<lambda>x. (ggk_requester x, ggk_target_id x))
       (\<lambda>(m1, m2). \<lparr>ggk_requester = m1, ggk_target_id = m2\<rparr>)
       (archive2 (SourceAddress_serialize P) (p_address P))"

record ('a, 'k) GetGroupKeyResponse =
  ggkr_public_keys :: "('a, 'k) smap"
  ggkr_target_id :: "'a"

definition GetGroupKeyResponse_new ::
  "('a, 'k) smap \<Rightarrow> 'a \<Rightarrow> ('a, 'k) GetGroupKeyResponse" where
  "GetGroupKeyResponse_new public_keys target_id =
     \<lparr>ggkr_public_keys = public_keys, ggkr_target_id = target_id\<rparr>"

definition GetGroupKeyResponse_serialize :: "('a, 'f, 'k, 's, 'n, 't, 'x) prims \<Rightarrow> ('a, 'k) GetGroupKeyResponse codec" where
  "GetGroupKeyResponse_serialize P =
     class_codec (\<lambda>x. (ggkr_public_keys x, ggkr_target_id x))
       (\<lambda>(m1, m2). \<lparr>ggkr_public_keys = m1, ggkr_target_id = m2\<rparr>)
       (archive2 (p_keys P) (p_address P))"

record 'n Post =
  post_name_and_type_id :: "'n"
  post_data :: "byte list"

definition Post_new :: "'n \<Rightarrow> byte list \<Rightarrow> 'n Post" where
  "Post_new name_and_type_id data =
     \<lparr>post_name_and_type_id = name_and_type_id, post_data = data\<rparr>"

definition Post_serialize :: "('a, 'f, 'k, 's, 'n, 't, 'x) prims \<Rightarrow> 'n Post codec" where
  "Post_serialize P =
     class_codec (\<lambda>x. (post_name_and_type_id x, post_data x))
       (\<lambda>(m1, m2). \<lparr>post_name_and_type_id = m1, post_data = m2\<rparr>)
       (archive2 (p_name_and_type_id P) (p_data P))"

record 't PutData =
  pd_type_id :: "'t"
  pd_data :: "byte list"

definition PutData_new :: "'t \<Rightarrow> byte list \<Rightarrow> 't PutData" where
  "PutData_new type_id data =
     \<lparr>pd_type_id = type_id, pd_data = data\<rparr>"

definition PutData_serialize :: "('a, 'f, 'k, 's, 'n, 't, 'x) prims \<Rightarrow> 't PutData codec" where
  "PutData_serialize P =
     class_codec (\<lambda>x. (pd_type_id x, pd_data x))
       (\<lambda>(m1, m2). \<lparr>pd_type_id = m1, pd_data = m2\<rparr>)
       (archive2 (p_type_id P) (p_data P))"

record ('t, 'x) PutDataResponse =
  pdr_type_id :: "'t"
  pdr_data :: "byte list"
  pdr_error :: "'x"

definition PutDataResponse_new ::
  "'t \<Rightarrow> byte list \<Rightarrow> 'x \<Rightarrow> ('t, 'x) PutDataResponse" where
  "PutDataResponse_new type_id data error =
     \<lparr>pdr_type_id = type_id, pdr_data = data, pdr_error = error\<rparr>"

definition PutDataResponse_serialize :: "('a, 'f, 'k, 's, 'n, 't, 'x) prims \<Rightarrow> ('t, 'x) PutDataResponse codec" where
  "PutDataResponse_serialize P =
     class_codec (\<lambda>x. (pdr_type_id x, pdr_data x, pdr_error x))
       (\<lambda>(m1, m2, m3). \<lparr>pdr_type_id = m1, pdr_data = m2, pdr_error = m3\<rparr>)
       (archive2 (p_type_id P) (archive2 (p_data P) (p_error P)))"

text \<open>The two constructors of \<^verbatim>\<open>GetDataResponse\<close>: for data and for an error\<close>

definition GetDataResponse_data :: "'n \<Rightarrow> byte list \<Rightarrow> ('n, 'x) GetDataResponse" where
  "GetDataResponse_data n data = \<lparr>gdr_name_and_type_id = n, gdr_data = Some data, gdr_error = None\<rparr>"

definition GetDataResponse_error :: "'n \<Rightarrow> 'x \<Rightarrow> ('n, 'x) GetDataResponse" where
  "GetDataResponse_error n e = \<lparr>gdr_name_and_type_id = n, gdr_data = None, gdr_error = Some e\<rparr>"

text \<open>
  The move constructor of \<^verbatim>\<open>GetClientKeyResponse\<close> moves only the key: the new object's address
  is a default \<^verbatim>\<open>Identity\<close>. The move assignment keeps the target's own address.
\<close>

definition GetClientKeyResponse_move :: "'a \<Rightarrow> ('a, 'k) GetClientKeyResponse \<Rightarrow> ('a, 'k) GetClientKeyResponse" where
  "GetClientKeyResponse_move default_address other =
     \<lparr>gckr_address = default_address, gckr_public_key = gckr_public_key other\<rparr>"

definition GetClientKeyResponse_move_assign ::
  "('a, 'k) GetClientKeyResponse \<Rightarrow> ('a, 'k) GetClientKeyResponse \<Rightarrow> ('a, 'k) GetClientKeyResponse" where
  "GetClientKeyResponse_move_assign this other = this\<lparr>gckr_public_key := gckr_public_key other\<rparr>"

text \<open>
  \<^verbatim>\<open>FindGroupResponse\<close> writes its contacts itself: first how many there are, then each of them.
\<close>

record ('a, 'f) FindGroupResponse =
  fgr_target_id :: 'a
  fgr_group :: "'f list"

definition FindGroupResponse_new ::
  "'a \<Rightarrow> 'f list \<Rightarrow> ('a, 'f) FindGroupResponse" where
  "FindGroupResponse_new target_id grp =
     \<lparr>fgr_target_id = target_id, fgr_group = grp\<rparr>"

fun load_group :: "'f codec \<Rightarrow> nat \<Rightarrow> byte list \<Rightarrow> ('f list \<times> byte list) option" where
  "load_group c 0 bs = Some ([], bs)"
| "load_group c (Suc n) bs =
     (case dec c bs of
        None \<Rightarrow> None
      | Some (x, bs') \<Rightarrow> (case load_group c n bs' of None \<Rightarrow> None | Some (xs, bs'') \<Rightarrow> Some (x # xs, bs'')))"

definition FindGroupResponse_load ::
  "('a, 'f, 'k, 's, 'n, 't, 'x) prims \<Rightarrow> byte list \<Rightarrow> (('a, 'f) FindGroupResponse \<times> byte list) option" where
  "FindGroupResponse_load P bs =
     (case dec (archive2 (p_address P) (p_size P)) bs of
        None \<Rightarrow> None
      | Some ((target, group_size), bs') \<Rightarrow>
          (case load_group (p_fob P) (unat group_size) bs' of
             None \<Rightarrow> None
           | Some (g, bs'') \<Rightarrow> Some (\<lparr>fgr_target_id = target, fgr_group = g\<rparr>, bs'')))"

definition FindGroupResponse_save ::
  "('a, 'f, 'k, 's, 'n, 't, 'x) prims \<Rightarrow> ('a, 'f) FindGroupResponse \<Rightarrow> byte list" where
  "FindGroupResponse_save P r =
     enc (archive2 (p_address P) (p_size P)) (fgr_target_id r, of_nat (length (fgr_group r)))
     @ concat (map (enc (p_fob P)) (fgr_group r))"

lemmas message_constructors [simp] = Connect_new_def ConnectResponse_new_def FindGroup_new_def
  FindGroupResponse_new_def GetClientKey_new_def GetClientKeyResponse_new_def GetData_new_def
  GetGroupKey_new_def GetGroupKeyResponse_new_def Post_new_def PutData_new_def PutDataResponse_new_def

subsection \<open>A message on the wire\<close>

text \<open>\<^verbatim>\<open>Serialise(header, tag, body)\<close>, and reading the header and the tag back\<close>

definition wire ::
  "('a, 'f, 'k, 's, 'n, 't, 'x) prims \<Rightarrow> 'm codec \<Rightarrow> ('a, 's) MessageHeader \<Rightarrow> MessageTypeTag \<Rightarrow> 'm \<Rightarrow> SerialisedMessage" where
  "wire P c h tag body = enc (MessageHeader_serialize P) h @ enc (p_tag P) (tag_value tag) @ enc c body"

definition parse_header ::
  "('a, 'f, 'k, 's, 'n, 't, 'x) prims \<Rightarrow> SerialisedMessage \<Rightarrow>
     (('a, 's) MessageHeader \<times> MessageTypeTag option \<times> byte list) option" where
  "parse_header P bs =
     (case dec (MessageHeader_serialize P) bs of
        None \<Rightarrow> None
      | Some (h, bs') \<Rightarrow> (case dec (p_tag P) bs' of None \<Rightarrow> None | Some (w, bs'') \<Rightarrow> Some (h, tag_of w, bs'')))"

subsection \<open>Each class is read back as it was written\<close>

lemma codec_ok_FindGroup: "prims_ok P \<Longrightarrow> codec_ok (FindGroup_serialize P)"
  unfolding FindGroup_serialize_def
  by (intro codec_ok_class codec_ok_archive2 codec_ok_SourceAddress prims_okD) simp_all

lemma codec_ok_GetClientKey: "prims_ok P \<Longrightarrow> codec_ok (GetClientKey_serialize P)"
  unfolding GetClientKey_serialize_def
  by (intro codec_ok_class codec_ok_archive2 codec_ok_SourceAddress prims_okD) simp_all

lemma codec_ok_GetClientKeyResponse: "prims_ok P \<Longrightarrow> codec_ok (GetClientKeyResponse_serialize P)"
  unfolding GetClientKeyResponse_serialize_def
  by (intro codec_ok_class codec_ok_archive2 codec_ok_SourceAddress prims_okD) simp_all

lemma codec_ok_GetData: "prims_ok P \<Longrightarrow> codec_ok (GetData_serialize P)"
  unfolding GetData_serialize_def
  by (intro codec_ok_class codec_ok_archive2 codec_ok_SourceAddress prims_okD) simp_all

lemma codec_ok_GetDataResponse: "prims_ok P \<Longrightarrow> codec_ok (GetDataResponse_serialize P)"
  unfolding GetDataResponse_serialize_def
  by (intro codec_ok_class codec_ok_archive2 codec_ok_SourceAddress prims_okD) simp_all

lemma codec_ok_GetGroupKey: "prims_ok P \<Longrightarrow> codec_ok (GetGroupKey_serialize P)"
  unfolding GetGroupKey_serialize_def
  by (intro codec_ok_class codec_ok_archive2 codec_ok_SourceAddress prims_okD) simp_all

lemma codec_ok_GetGroupKeyResponse: "prims_ok P \<Longrightarrow> codec_ok (GetGroupKeyResponse_serialize P)"
  unfolding GetGroupKeyResponse_serialize_def
  by (intro codec_ok_class codec_ok_archive2 codec_ok_SourceAddress prims_okD) simp_all

lemma codec_ok_Post: "prims_ok P \<Longrightarrow> codec_ok (Post_serialize P)"
  unfolding Post_serialize_def
  by (intro codec_ok_class codec_ok_archive2 codec_ok_SourceAddress prims_okD) simp_all

lemma codec_ok_PutData: "prims_ok P \<Longrightarrow> codec_ok (PutData_serialize P)"
  unfolding PutData_serialize_def
  by (intro codec_ok_class codec_ok_archive2 codec_ok_SourceAddress prims_okD) simp_all

lemma codec_ok_PutDataResponse: "prims_ok P \<Longrightarrow> codec_ok (PutDataResponse_serialize P)"
  unfolding PutDataResponse_serialize_def
  by (intro codec_ok_class codec_ok_archive2 codec_ok_SourceAddress prims_okD) simp_all

lemma codec_as_Connect:
  assumes "prims_ok P" "asio_ok A"
  shows "codec_as (\<lambda>x. x\<lparr>c_requester_endpoints := pair_norm A (c_requester_endpoints x)\<rparr>) (Connect_serialize A P)"
proof -
  have "codec_ok (archive2 (p_address P) (archive2 (p_address P) (p_fob P)))"
    by (intro codec_ok_archive2 prims_okD assms(1))
  from codec_as_archive2 [OF codec_as_EndpointPair [OF assms] this] show ?thesis
    unfolding Connect_serialize_def by (rule codec_as_class) simp
qed

lemma codec_as_ConnectResponse:
  assumes "prims_ok P" "asio_ok A"
  shows "codec_as (\<lambda>x. x\<lparr>cr_requester_endpoints := pair_norm A (cr_requester_endpoints x),
    cr_receiver_endpoints := pair_norm A (cr_receiver_endpoints x)\<rparr>) (ConnectResponse_serialize A P)"
proof -
  note e = codec_as_EndpointPair [OF assms]
  have "codec_ok (archive2 (p_address P) (archive2 (p_address P) (p_fob P)))"
    by (intro codec_ok_archive2 prims_okD assms(1))
  from codec_as_archive2 [OF e codec_as_archive2 [OF e this]] show ?thesis
    unfolding ConnectResponse_serialize_def by (rule codec_as_class) simp
qed

lemma load_group_concat:
  assumes "codec_ok c"
  shows "load_group c (length xs) (concat (map (enc c) xs) @ rest) = Some (xs, rest)"
  by (induction xs) (simp_all add: codec_asD [OF assms])

lemma load_group_length: "load_group c n bs = Some (xs, rest) \<Longrightarrow> length xs = n"
  by (induction n arbitrary: bs xs) (auto split: option.splits)

lemma wire_parse:
  assumes "prims_ok P"
  shows "parse_header P (wire P c h tag body @ rest) = Some (h, Some tag, enc c body @ rest)"
  by (simp add: parse_header_def wire_def codec_asD [OF codec_ok_MessageHeader [OF assms]]
      codec_asD [OF prims_okD(9) [OF assms]])

subsection \<open>Properties\<close>

text \<open>
  C13. Every message survives the wire. A header, a tag and a body written one after the other
  are read back as that header and that tag, and leave exactly the body; and the body of each
  message class is read back as it was written, whatever follows it. The two connect messages
  carry endpoints, which come back as \<open>pair_norm\<close> says.
\<close>

theorem messages_roundtrip:
  assumes P: "prims_ok P" and A: "asio_ok A"
  shows "parse_header P (wire P c h tag body @ rest) = Some (h, Some tag, enc c body @ rest)
    \<and> dec (Connect_serialize A P) (enc (Connect_serialize A P) m1 @ rest)
        = Some (m1\<lparr>c_requester_endpoints := pair_norm A (c_requester_endpoints m1)\<rparr>, rest)
    \<and> dec (ConnectResponse_serialize A P) (enc (ConnectResponse_serialize A P) m2 @ rest)
        = Some (m2\<lparr>cr_requester_endpoints := pair_norm A (cr_requester_endpoints m2),
            cr_receiver_endpoints := pair_norm A (cr_receiver_endpoints m2)\<rparr>, rest)
    \<and> dec (FindGroup_serialize P) (enc (FindGroup_serialize P) m3 @ rest) = Some (m3, rest)
    \<and> dec (GetClientKey_serialize P) (enc (GetClientKey_serialize P) m4 @ rest) = Some (m4, rest)
    \<and> dec (GetClientKeyResponse_serialize P) (enc (GetClientKeyResponse_serialize P) m5 @ rest) = Some (m5, rest)
    \<and> dec (GetData_serialize P) (enc (GetData_serialize P) m6 @ rest) = Some (m6, rest)
    \<and> dec (GetDataResponse_serialize P) (enc (GetDataResponse_serialize P) m7 @ rest) = Some (m7, rest)
    \<and> dec (GetGroupKey_serialize P) (enc (GetGroupKey_serialize P) m8 @ rest) = Some (m8, rest)
    \<and> dec (GetGroupKeyResponse_serialize P) (enc (GetGroupKeyResponse_serialize P) m9 @ rest) = Some (m9, rest)
    \<and> dec (Post_serialize P) (enc (Post_serialize P) m10 @ rest) = Some (m10, rest)
    \<and> dec (PutData_serialize P) (enc (PutData_serialize P) m11 @ rest) = Some (m11, rest)
    \<and> dec (PutDataResponse_serialize P) (enc (PutDataResponse_serialize P) m12 @ rest) = Some (m12, rest)"
  by (intro conjI wire_parse [OF P] codec_asD codec_as_Connect [OF P A] codec_as_ConnectResponse [OF P A]
      codec_ok_FindGroup codec_ok_GetClientKey codec_ok_GetClientKeyResponse codec_ok_GetData
      codec_ok_GetDataResponse codec_ok_GetGroupKey codec_ok_GetGroupKeyResponse codec_ok_Post
      codec_ok_PutData codec_ok_PutDataResponse P
      codec_asD [OF codec_as_Connect [OF P A]] codec_asD [OF codec_as_ConnectResponse [OF P A]])

theorem messages_roundtrip_witness:
  "prims_ok nat_prims \<and> asio_ok word_asio
   \<and> dec (Post_serialize nat_prims) (enc (Post_serialize nat_prims)
       \<lparr>post_name_and_type_id = 4, post_data = [1, 2]\<rparr> @ [7]) = Some (\<lparr>post_name_and_type_id = 4, post_data = [1, 2]\<rparr>, [7])"
proof (intro conjI nat_prims_ok word_asio_ok)
  show "dec (Post_serialize nat_prims) (enc (Post_serialize nat_prims)
      \<lparr>post_name_and_type_id = 4, post_data = [1, 2]\<rparr> @ [7]) = Some (\<lparr>post_name_and_type_id = 4, post_data = [1, 2]\<rparr>, [7])"
    by (rule messages_roundtrip [OF nat_prims_ok word_asio_ok, THEN conjunct2, THEN conjunct2, THEN conjunct2,
        THEN conjunct2, THEN conjunct2, THEN conjunct2, THEN conjunct2, THEN conjunct2, THEN conjunct2,
        THEN conjunct2, THEN conjunct1])
qed

text \<open>
  \<^verbatim>\<open>FindGroupResponse\<close>, which writes its contacts itself, is read back as it was written as
  long as the number of contacts fits the size field. Reading always ends, and what it
  accepts has exactly as many contacts as the size field says.
\<close>

lemma find_group_response_roundtrip:
  assumes "prims_ok P"
  shows "(length (fgr_group r) < 2 ^ 64 \<longrightarrow>
        FindGroupResponse_load P (FindGroupResponse_save P r @ rest) = Some (r, rest))
    \<and> (FindGroupResponse_load P bs = Some (r', rest') \<longrightarrow>
        (\<exists>n bs'. dec (archive2 (p_address P) (p_size P)) bs = Some ((fgr_target_id r', n), bs')
          \<and> length (fgr_group r') = unat n))"
proof (intro conjI impI)
  assume l: "length (fgr_group r) < 2 ^ 64"
  then have "unat (of_nat (length (fgr_group r)) :: 64 word) = length (fgr_group r)"
    by (simp add: unat_of_nat)
  moreover have "codec_ok (archive2 (p_address P) (p_size P))"
    using assms by (intro codec_ok_archive2 prims_okD)
  ultimately show "FindGroupResponse_load P (FindGroupResponse_save P r @ rest) = Some (r, rest)"
    by (simp add: FindGroupResponse_load_def FindGroupResponse_save_def codec_asD
        load_group_concat [OF prims_okD(3) [OF assms]])
next
  assume "FindGroupResponse_load P bs = Some (r', rest')"
  then show "\<exists>n bs'. dec (archive2 (p_address P) (p_size P)) bs = Some ((fgr_target_id r', n), bs')
      \<and> length (fgr_group r') = unat n"
    by (auto simp: FindGroupResponse_load_def split: option.splits elim!: load_group_length)
qed

lemma find_group_response_roundtrip_witness:
  "FindGroupResponse_load nat_prims (FindGroupResponse_save nat_prims \<lparr>fgr_target_id = 3, fgr_group = [5, 6]\<rparr> @ [1])
     = Some (\<lparr>fgr_target_id = 3, fgr_group = [5, 6]\<rparr>, [1])"
  using find_group_response_roundtrip [OF nat_prims_ok, where r = "\<lparr>fgr_target_id = 3, fgr_group = [5, 6]\<rparr>" and rest = "[1]"]
  by simp

text \<open>
  Moving a \<^verbatim>\<open>GetClientKeyResponse\<close> keeps the key and loses the address: the new object has
  the default address, so it equals the old one only if that had the default address too, and
  an assignment leaves the target's address in place.
\<close>

lemma moved_key_response_loses_address:
  "gckr_public_key (GetClientKeyResponse_move d other) = gckr_public_key other
   \<and> (GetClientKeyResponse_move d other = other \<longleftrightarrow> gckr_address other = d)
   \<and> gckr_address (GetClientKeyResponse_move_assign this other) = gckr_address this
   \<and> (GetClientKeyResponse_move_assign this other = other \<longleftrightarrow> gckr_address other = gckr_address this)"
  by (cases other; cases this) (auto simp: GetClientKeyResponse_move_def GetClientKeyResponse_move_assign_def)

end
