(* ===== verification/Sentinel.thy ===== *)
theory Sentinel
  imports Accumulator Messages
begin

section \<open>The sentinel\<close>

text \<open>
  Models \<^verbatim>\<open>sentinel.h\<close> and \<^verbatim>\<open>sentinel.cc\<close>: messages are collected until enough of them, and
  enough answers to the requests for their senders' keys, are there to check the signatures.

  The calls of \<^verbatim>\<open>send_get_client_key_\<close> and \<^verbatim>\<open>send_get_group_key_\<close> are recorded in \<open>requests\<close>,
  latest first. An exception leaves the changes made before it in place, so \<open>Sentinel_Add\<close>
  gives the state next to its result. The functions of maidsafe-common that are called (parsing,
  checking a signature, serialising a key), and the virtual \<^verbatim>\<open>Merge\<close> of the account classes, which
  the users of the library define, are the fields of \<open>sentinel_lib\<close>; \<open>wire_sentinel\<close> has the parsing of the
  two answers that the message classes give. \<open>'i\<close> is
  \<^verbatim>\<open>std::unique_ptr<AccountTransferInfo>\<close>.
\<close>

subsection \<open>State\<close>

type_synonym ('a, 's) ResultType = "('a, 's) MessageHeader \<times> MessageTypeTag \<times> SerialisedMessage"

datatype 'a key_request = SendGetClientKey 'a | SendGetGroupKey 'a

record ('a, 'k, 's, 'i) sentinel_lib =
  parse_client_key :: "SerialisedMessage \<Rightarrow> ('a, 'k) GetClientKeyResponse result"
  parse_group_key :: "SerialisedMessage \<Rightarrow> ('a, 'k) GetGroupKeyResponse result"
  serialise_key :: "'k \<Rightarrow> byte list"
  CheckSignature :: "SerialisedMessage \<Rightarrow> 's \<Rightarrow> 'k \<Rightarrow> bool result"
  parse_account :: "SerialisedMessage \<Rightarrow> 'i option result"
  Merge :: "'i \<Rightarrow> 'i option list \<Rightarrow> 'i option result"
  serialise_account :: "'i \<Rightarrow> SerialisedMessage result"

text \<open>
  An account is parsed as a \<^verbatim>\<open>unique_ptr\<close>, which may come out null: \<open>None\<close>. \<open>Merge\<close> is called on an
  account, is given the pointers, and gives a pointer again; parsing, merging and serialising may throw.
\<close>

text \<open>The two answers are parsed as the codecs of their message classes read them.\<close>

definition parse_body :: "'m codec \<Rightarrow> SerialisedMessage \<Rightarrow> 'm result" where
  "parse_body c bytes = (case dec c bytes of None \<Rightarrow> Inl library_error | Some (m, _) \<Rightarrow> Inr m)"

text \<open>
  \<^verbatim>\<open>auto key(Parse<GetClientKeyResponse>(...))\<close> initialises \<^verbatim>\<open>key\<close> by the class's move constructor,
  which a compiler may leave out. \<open>moved\<close> is \<open>None\<close> when it does, and otherwise the default
  address that the constructor leaves in \<^verbatim>\<open>key\<close>. The move constructor of \<^verbatim>\<open>GetGroupKeyResponse\<close>
  passes every member on, so leaving it out makes no difference.
\<close>

definition received_key_response ::
  "'a option \<Rightarrow> ('a, 'k) GetClientKeyResponse \<Rightarrow> ('a, 'k) GetClientKeyResponse" where
  "received_key_response moved m = (case moved of None \<Rightarrow> m | Some d \<Rightarrow> GetClientKeyResponse_move d m)"

definition wire_sentinel ::
  "'a option \<Rightarrow> ('a, 'f, 'k, 's, 'n, 't, 'x) prims \<Rightarrow> ('a, 'k, 's, 'i) sentinel_lib \<Rightarrow>
   ('a, 'k, 's, 'i) sentinel_lib" where
  "wire_sentinel moved P S = S\<lparr>
     parse_client_key := (\<lambda>bytes. bindR (parse_body (GetClientKeyResponse_serialize P) bytes)
       (\<lambda>m. Inr (received_key_response moved m))),
     parse_group_key := parse_body (GetGroupKeyResponse_serialize P)\<rparr>"

record ('a, 's) Sentinel =
  node_accumulator :: "('a \<times> MessageId, ('a, 's) ResultType, 'a) Accumulator"
  group_accumulator :: "('a \<times> MessageId, ('a, 's) ResultType, 'a) Accumulator"
  group_key_accumulator :: "('a, ('a, 's) ResultType, 'a) Accumulator"
  node_key_accumulator :: "('a, ('a, 's) ResultType, 'a) Accumulator"
  requests :: "'a key_request list"

text \<open>\<^verbatim>\<open>std::chrono::minutes(20)\<close> in the nanoseconds of the steady clock\<close>

definition minutes20 :: int where
  "minutes20 = 20 * 60 * 1000000000"

definition Sentinel_new :: "('a, 's) Sentinel" where
  "Sentinel_new = \<lparr>node_accumulator = Accumulator_new minutes20 1,
     group_accumulator = Accumulator_new minutes20 (of_nat QuorumSize),
     group_key_accumulator = Accumulator_new minutes20 (of_nat QuorumSize),
     node_key_accumulator = Accumulator_new minutes20 (of_nat QuorumSize), requests = []\<rparr>"

subsection \<open>Checking signatures\<close>

abbreviation header_of :: "('a, 's) ResultType \<Rightarrow> ('a, 's) MessageHeader" where
  "header_of r \<equiv> fst r"

abbreviation tag_in :: "('a, 's) ResultType \<Rightarrow> MessageTypeTag" where
  "tag_in r \<equiv> fst (snd r)"

abbreviation payload :: "('a, 's) ResultType \<Rightarrow> SerialisedMessage" where
  "payload r \<equiv> snd (snd r)"

text \<open>One key enters \<open>keys_map\<close>: as the first of its address, or behind those that differ from it.\<close>

definition add_key ::
  "('a::linorder, 'k, 's, 'i) sentinel_lib \<Rightarrow> 'a \<Rightarrow> 'k \<Rightarrow> ('a, 'k list) smap \<Rightarrow> ('a, 'k list) smap" where
  "add_key S a k keys_map =
     (case smap_find (<) a keys_map of
        None \<Rightarrow> smap_insert (<) a [k] keys_map
      | Some public_keys \<Rightarrow>
          if list_all (\<lambda>p. serialise_key S k \<noteq> serialise_key S p) public_keys
          then smap_assign (<) a (public_keys @ [k]) keys_map else keys_map)"

fun collect_client_keys ::
  "('a::linorder, 'k, 's, 'i) sentinel_lib \<Rightarrow> ('a, ('a, 's) ResultType) senders \<Rightarrow> ('a, 'k list) smap \<Rightarrow>
     ('a, 'k list) smap result" where
  "collect_client_keys S [] keys_map = Inr keys_map"
| "collect_client_keys S ((_, r) # keys) keys_map =
     bindR (parse_client_key S (payload r)) (\<lambda>key.
       collect_client_keys S keys (add_key S (gckr_address key) (gckr_public_key key) keys_map))"

fun collect_group_keys ::
  "('a::linorder, 'k, 's, 'i) sentinel_lib \<Rightarrow> ('a, ('a, 's) ResultType) senders \<Rightarrow> ('a, 'k list) smap \<Rightarrow>
     ('a, 'k list) smap result" where
  "collect_group_keys S [] keys_map = Inr keys_map"
| "collect_group_keys S ((_, r) # keys) keys_map =
     bindR (parse_group_key S (payload r)) (\<lambda>response.
       collect_group_keys S keys
         (fold (\<lambda>(a, k) m. add_key S a k m) (ggkr_public_keys response) keys_map))"

text \<open>
  The loop over the messages: \<open>key_for\<close> is the key a message is checked with, \<open>None\<close> where the
  loop passes over it.
\<close>

fun verify ::
  "('a, 'k, 's, 'i) sentinel_lib \<Rightarrow> (('a, 's) ResultType \<Rightarrow> 'k option) \<Rightarrow> ('a, ('a, 's) ResultType) senders \<Rightarrow>
     ('a, 's) ResultType list result" where
  "verify S key_for [] = Inr []"
| "verify S key_for ((_, r) # messages) =
     (case key_for r of
        None \<Rightarrow> verify S key_for messages
      | Some public_key \<Rightarrow>
          (case h_signature (header_of r) of
             None \<Rightarrow> verify S key_for messages
           | Some signature \<Rightarrow>
               bindR (CheckSignature S (payload r) signature public_key) (\<lambda>good.
               bindR (verify S key_for messages) (\<lambda>verified.
               Inr (if good then r # verified else verified)))))"

definition Validate_node ::
  "('a::linorder, 'f, 'k) lib \<Rightarrow> ('a, 'k, 's, 'i) sentinel_lib \<Rightarrow> ('a, ('a, 's) ResultType) senders \<Rightarrow>
     ('a, ('a, 's) ResultType) senders \<Rightarrow> ('a, 's) ResultType list result" where
  "Validate_node L S messages keys =
     (if messages = [] \<or> length keys < QuorumSize then Inr []
      else bindR (collect_client_keys S keys []) (\<lambda>keys_map.
        bindR (cpp_assert (NDEBUG L) (length keys_map = 1)) (\<lambda>_.
        case keys_map of
          [] \<Rightarrow> Inl undefined_behaviour
        | (_, public_keys) # _ \<Rightarrow>
            bindR (cpp_assert (NDEBUG L) (length public_keys = 1)) (\<lambda>_.
            case public_keys of
              [] \<Rightarrow> Inl undefined_behaviour
            | public_key # _ \<Rightarrow>
                if \<not> ValidateKey L public_key then Inr []
                else bindR (verify S (\<lambda>_. Some public_key) messages) (\<lambda>verified_messages.
                  Inr (if length verified_messages \<ge> 1 then verified_messages else []))))))"

definition group_key_for ::
  "('a::linorder, 'f, 'k) lib \<Rightarrow> ('a, 'k list) smap \<Rightarrow> ('a, 's) ResultType \<Rightarrow> 'k option" where
  "group_key_for L keys_map r =
     (case smap_find (<) (FromNode (header_of r)) keys_map of
        Some (public_key # _) \<Rightarrow> if ValidateKey L public_key then Some public_key else None
      | _ \<Rightarrow> None)"

definition Validate_group ::
  "('a::linorder, 'f, 'k) lib \<Rightarrow> ('a, 'k, 's, 'i) sentinel_lib \<Rightarrow> ('a, ('a, 's) ResultType) senders \<Rightarrow>
     ('a, ('a, 's) ResultType) senders \<Rightarrow> ('a, 's) ResultType list result" where
  "Validate_group L S messages keys =
     (if length messages < QuorumSize \<or> length keys < QuorumSize then Inr []
      else bindR (collect_group_keys S keys []) (\<lambda>keys_map.
        bindR (cpp_assert (NDEBUG L) (list_all (\<lambda>(_, ks). length ks = 1) keys_map)) (\<lambda>_.
        bindR (verify S (group_key_for L keys_map) messages) (\<lambda>verified_messages.
        Inr (if length verified_messages \<ge> QuorumSize then verified_messages else [])))))"

subsection \<open>Agreeing on a result\<close>

fun parse_accounts :: "('a, 'k, 's, 'i) sentinel_lib \<Rightarrow> ('a, 's) ResultType list \<Rightarrow> 'i option list result" where
  "parse_accounts S [] = Inr []"
| "parse_accounts S (r # rs) =
     bindR (parse_account S (payload r)) (\<lambda>x. bindR (parse_accounts S rs) (\<lambda>xs. Inr (x # xs)))"

definition Resolve_group ::
  "('a, 'k, 's, 'i) sentinel_lib \<Rightarrow> ('a, 's) ResultType list \<Rightarrow> ('a, 's) ResultType option result" where
  "Resolve_group S verified_messages =
     (if length verified_messages < QuorumSize then Inr None
      else if tag_in (hd verified_messages) \<noteq> tag_AccountTransfer then
        Inr (find (\<lambda>m. length (filter (\<lambda>r. payload r = payload m) verified_messages) \<ge> QuorumSize) verified_messages)
      else bindR (parse_accounts S verified_messages) (\<lambda>accounts.
        case hd accounts of
          None \<Rightarrow> Inl undefined_behaviour
        | Some account \<Rightarrow>
            bindR (Merge S account accounts) (\<lambda>merged_value_ptr.
            case merged_value_ptr of
              None \<Rightarrow> Inr None
            | Some merged \<Rightarrow>
                bindR (serialise_account S merged) (\<lambda>bytes.
                case hd verified_messages of (h, tag, _) \<Rightarrow> Inr (Some (h, tag, bytes))))))"

definition Resolve_single :: "('a, 's) ResultType list \<Rightarrow> ('a, 's) ResultType option" where
  "Resolve_single verified_messages = (case verified_messages of [] \<Rightarrow> None | r # _ \<Rightarrow> Some r)"

subsection \<open>Add\<close>

text \<open>
  The end of every branch of \<open>Add\<close>: check and resolve, and drop the messages when they were
  resolved. \<open>t\<close> is the clock reading of \<open>Delete\<close>.
\<close>

definition resolve_node ::
  "('a::linorder, 'f, 'k) lib \<Rightarrow> ('a, 'k, 's, 'i) sentinel_lib \<Rightarrow> int \<Rightarrow> ('a, 's) Sentinel \<Rightarrow> 'a \<times> MessageId \<Rightarrow>
     ('a, ('a, 's) ResultType) senders \<Rightarrow> ('a, ('a, 's) ResultType) senders \<Rightarrow>
     ('a, 's) Sentinel \<times> ('a, 's) ResultType option result" where
  "resolve_node L S t st key messages keys =
     (case bindR (Validate_node L S messages keys) (\<lambda>v. Inr (Resolve_single v)) of
        Inl e \<Rightarrow> (st, Inl e)
      | Inr None \<Rightarrow> (st, Inr None)
      | Inr (Some resolved) \<Rightarrow>
          (case Accumulator_Delete (NDEBUG L) t (node_accumulator st) key of
             Inl e \<Rightarrow> (st, Inl e)
           | Inr acc \<Rightarrow> (st\<lparr>node_accumulator := acc\<rparr>, Inr (Some resolved))))"

definition resolve_group ::
  "('a::linorder, 'f, 'k) lib \<Rightarrow> ('a, 'k, 's, 'i) sentinel_lib \<Rightarrow> int \<Rightarrow> ('a, 's) Sentinel \<Rightarrow> 'a \<times> MessageId \<Rightarrow>
     ('a, ('a, 's) ResultType) senders \<Rightarrow> ('a, ('a, 's) ResultType) senders \<Rightarrow>
     ('a, 's) Sentinel \<times> ('a, 's) ResultType option result" where
  "resolve_group L S t st key messages keys =
     (case bindR (Validate_group L S messages keys) (Resolve_group S) of
        Inl e \<Rightarrow> (st, Inl e)
      | Inr None \<Rightarrow> (st, Inr None)
      | Inr (Some resolved) \<Rightarrow>
          (case Accumulator_Delete (NDEBUG L) t (group_accumulator st) key of
             Inl e \<Rightarrow> (st, Inl e)
           | Inr acc \<Rightarrow> (st\<lparr>group_accumulator := acc\<rparr>, Inr (Some resolved))))"

definition add_client_key_response ::
  "('a::linorder, 'f, 'k) lib \<Rightarrow> ('a, 'k, 's, 'i) sentinel_lib \<Rightarrow> clock \<Rightarrow> int \<Rightarrow> ('a, 's) Sentinel \<Rightarrow>
     ('a, 's) ResultType \<Rightarrow> ('a, 's) Sentinel \<times> ('a, 's) ResultType option result" where
  "add_client_key_response L S now t st r =
     (case FromGroup (header_of r) of
        None \<Rightarrow> (st, Inl parsing_error)
      | Some g \<Rightarrow>
          (case Accumulator_Add (NDEBUG L) now (node_key_accumulator st) g r (FromNode (header_of r)) of
             Inl e \<Rightarrow> (st, Inl e)
           | Inr (acc, None) \<Rightarrow> (st\<lparr>node_key_accumulator := acc\<rparr>, Inr None)
           | Inr (acc, Some (_, keys)) \<Rightarrow>
               let st1 = st\<lparr>node_key_accumulator := acc\<rparr>; key = (g, h_message_id (header_of r)) in
               (case GetAll (node_accumulator st1) key of
                  None \<Rightarrow> (st1, Inr None)
                | Some (_, messages) \<Rightarrow> resolve_node L S t st1 key messages keys)))"

definition add_group_key_response ::
  "('a::linorder, 'f, 'k) lib \<Rightarrow> ('a, 'k, 's, 'i) sentinel_lib \<Rightarrow> clock \<Rightarrow> int \<Rightarrow> ('a, 's) Sentinel \<Rightarrow>
     ('a, 's) ResultType \<Rightarrow> ('a, 's) Sentinel \<times> ('a, 's) ResultType option result" where
  "add_group_key_response L S now t st r =
     (case FromGroup (header_of r) of
        None \<Rightarrow> (st, Inl parsing_error)
      | Some g \<Rightarrow>
          (case Accumulator_Add (NDEBUG L) now (group_key_accumulator st) g r (FromNode (header_of r)) of
             Inl e \<Rightarrow> (st, Inl e)
           | Inr (acc, None) \<Rightarrow> (st\<lparr>group_key_accumulator := acc\<rparr>, Inr None)
           | Inr (acc, Some (_, keys)) \<Rightarrow>
               let st1 = st\<lparr>group_key_accumulator := acc\<rparr>; key = (g, h_message_id (header_of r)) in
               (case GetAll (group_accumulator st1) key of
                  None \<Rightarrow> (st1, Inr None)
                | Some (_, messages) \<Rightarrow> resolve_group L S t st1 key messages keys)))"

definition add_group_message ::
  "('a::linorder, 'f, 'k) lib \<Rightarrow> ('a, 'k, 's, 'i) sentinel_lib \<Rightarrow> clock \<Rightarrow> int \<Rightarrow> ('a, 's) Sentinel \<Rightarrow> 'a \<Rightarrow>
     ('a, 's) ResultType \<Rightarrow> ('a, 's) Sentinel \<times> ('a, 's) ResultType option result" where
  "add_group_message L S now t st g r =
     (let key = (g, h_message_id (header_of r));
          st0 = (if HaveName (group_accumulator st) key then st
                 else st\<lparr>requests := SendGetGroupKey g # requests st\<rparr>)
      in case Accumulator_Add (NDEBUG L) now (group_accumulator st0) key r (FromNode (header_of r)) of
           Inl e \<Rightarrow> (st0, Inl e)
         | Inr (acc, None) \<Rightarrow> (st0\<lparr>group_accumulator := acc\<rparr>, Inr None)
         | Inr (acc, Some (_, messages)) \<Rightarrow>
             let st1 = st0\<lparr>group_accumulator := acc\<rparr> in
             (case GetAll (group_key_accumulator st1) g of
                None \<Rightarrow> (st1, Inr None)
              | Some (_, keys) \<Rightarrow> resolve_group L S t st1 key messages keys))"

text \<open>The keys are looked up in \<^verbatim>\<open>node_accumulator_\<close>, the store of the messages themselves.\<close>

definition add_node_message ::
  "('a::linorder, 'f, 'k) lib \<Rightarrow> ('a, 'k, 's, 'i) sentinel_lib \<Rightarrow> clock \<Rightarrow> int \<Rightarrow> ('a, 's) Sentinel \<Rightarrow>
     ('a, 's) ResultType \<Rightarrow> ('a, 's) Sentinel \<times> ('a, 's) ResultType option result" where
  "add_node_message L S now t st r =
     (let n = FromNode (header_of r); key = (n, h_message_id (header_of r));
          st0 = (if HaveName (node_accumulator st) key then st
                 else st\<lparr>requests := SendGetClientKey n # requests st\<rparr>)
      in case Accumulator_Add (NDEBUG L) now (node_accumulator st0) key r n of
           Inl e \<Rightarrow> (st0, Inl e)
         | Inr (acc, None) \<Rightarrow> (st0\<lparr>node_accumulator := acc\<rparr>, Inr None)
         | Inr (acc, Some (name, messages)) \<Rightarrow>
             let st1 = st0\<lparr>node_accumulator := acc\<rparr> in
             (case GetAll (node_accumulator st1) name of
                None \<Rightarrow> (st1, Inr None)
              | Some (_, keys) \<Rightarrow> resolve_node L S t st1 key messages keys))"

definition Sentinel_Add ::
  "('a::linorder, 'f, 'k) lib \<Rightarrow> ('a, 'k, 's, 'i) sentinel_lib \<Rightarrow> clock \<Rightarrow> int \<Rightarrow> ('a, 's) Sentinel \<Rightarrow>
     ('a, 's) ResultType \<Rightarrow> ('a, 's) Sentinel \<times> ('a, 's) ResultType option result" where
  "Sentinel_Add L S now t st r =
     (if tag_in r = tag_GetClientKeyResponse then add_client_key_response L S now t st r
      else if tag_in r = tag_GetGroupKeyResponse then add_group_key_response L S now t st r
      else case FromGroup (header_of r) of
             Some g \<Rightarrow> add_group_message L S now t st g r
           | None \<Rightarrow> add_node_message L S now t st r)"

subsection \<open>What the loops compute\<close>

definition signed_with :: "('a, 'k, 's, 'i) sentinel_lib \<Rightarrow> ('a, 's) ResultType \<Rightarrow> 'k \<Rightarrow> bool" where
  "signed_with S r k \<longleftrightarrow>
     (\<exists>sig. h_signature (header_of r) = Some sig \<and> CheckSignature S (payload r) sig k = Inr True)"

definition verified :: "('a, 'k, 's, 'i) sentinel_lib \<Rightarrow> (('a, 's) ResultType \<Rightarrow> 'k option) \<Rightarrow> ('a, 's) ResultType \<Rightarrow> bool" where
  "verified S key_for r \<longleftrightarrow> (\<exists>k. key_for r = Some k \<and> signed_with S r k)"

lemma verify_filter:
  "verify S key_for ms = Inr vs \<Longrightarrow> vs = map snd (filter (\<lambda>(s, r). verified S key_for r) ms)"
proof (induction ms arbitrary: vs)
  case (Cons m ms)
  obtain s r where m: "m = (s, r)" by (cases m)
  show ?case
    using Cons by (auto simp: m verified_def signed_with_def bindR_eq_Inr split: option.splits if_splits)
qed simp

lemma map_of_add_key:
  assumes "smap_wf (<) m"
  shows "smap_wf (<) (add_key S a k m)"
    and "map_of (add_key S a k m) = (map_of m)(a \<mapsto> (case map_of m a of None \<Rightarrow> [k]
      | Some ks \<Rightarrow> if list_all (\<lambda>p. serialise_key S k \<noteq> serialise_key S p) ks then ks @ [k] else ks))"
  using assms
  by (auto simp: add_key_def std_less.smap_find_map_of std_less.smap_wf_insert std_less.smap_wf_assign
      std_less.map_of_smap_insert std_less.map_of_smap_assign fun_eq_iff split: option.splits)

text \<open>
  What the map of keys holds: every key in it was offered for its address, and every key offered
  for an address is in it up to serialisation.
\<close>

definition keys_from ::
  "('a, 'k, 's, 'i) sentinel_lib \<Rightarrow> ('a \<times> 'k) set \<Rightarrow> ('a::linorder, 'k list) smap \<Rightarrow> bool" where
  "keys_from S offered m \<longleftrightarrow> smap_wf (<) m
     \<and> (\<forall>a ks. map_of m a = Some ks \<longrightarrow> ks \<noteq> [] \<and> (\<forall>k \<in> set ks. (a, k) \<in> offered))
     \<and> (\<forall>(a, k) \<in> offered. \<exists>ks. map_of m a = Some ks \<and> (\<exists>p \<in> set ks. serialise_key S k = serialise_key S p))"

lemma keys_from_Nil: "keys_from S {} []"
  by (simp add: keys_from_def)

lemma keys_from_add:
  assumes "keys_from S off m" shows "keys_from S (insert (a, k) off) (add_key S a k m)"
proof -
  have wf: "smap_wf (<) m" using assms by (simp add: keys_from_def)
  have new: "map_of (add_key S a k m) = (map_of m)(a \<mapsto> (case map_of m a of None \<Rightarrow> [k]
      | Some ks \<Rightarrow> if list_all (\<lambda>p. serialise_key S k \<noteq> serialise_key S p) ks then ks @ [k] else ks))"
    by (rule map_of_add_key(2) [OF wf])
  have 1: "ks \<noteq> [] \<and> (\<forall>k' \<in> set ks. (b, k') \<in> insert (a, k) off)" if "map_of (add_key S a k m) b = Some ks" for b ks
    using that assms unfolding new keys_from_def by (auto split: if_splits option.splits)
  have 2: "\<exists>ks. map_of (add_key S a k m) b = Some ks \<and> (\<exists>p \<in> set ks. serialise_key S k' = serialise_key S p)"
    if "(b, k') \<in> off" for b k'
  proof -
    obtain ks p where "map_of m b = Some ks" "p \<in> set ks" "serialise_key S k' = serialise_key S p"
      using assms \<open>(b, k') \<in> off\<close> unfolding keys_from_def by blast
    then show ?thesis unfolding new by (cases "b = a") auto
  qed
  have 3: "\<exists>ks. map_of (add_key S a k m) a = Some ks \<and> (\<exists>p \<in> set ks. serialise_key S k = serialise_key S p)"
    unfolding new by (auto simp: list_all_iff split: option.splits)
  show ?thesis
    unfolding keys_from_def using map_of_add_key(1) [OF wf] 1 2 3 by blast
qed

lemma keys_from_fold:
  "keys_from S off m \<Longrightarrow> keys_from S (off \<union> set kvs) (fold (\<lambda>(a, k) m. add_key S a k m) kvs m)"
proof (induction kvs arbitrary: off m)
  case (Cons kv kvs)
  obtain a k where kv: "kv = (a, k)" by (cases kv)
  from Cons.IH [OF keys_from_add [OF Cons.prems, of a k]] show ?case by (simp add: kv Un_commute Un_left_commute)
qed simp

definition client_keys_in :: "('a, 'k, 's, 'i) sentinel_lib \<Rightarrow> ('a, ('a, 's) ResultType) senders \<Rightarrow> ('a \<times> 'k) set" where
  "client_keys_in S ms = (\<Union>r \<in> snd ` set ms. case parse_client_key S (payload r) of
     Inl _ \<Rightarrow> {} | Inr key \<Rightarrow> {(gckr_address key, gckr_public_key key)})"

definition group_keys_in :: "('a, 'k, 's, 'i) sentinel_lib \<Rightarrow> ('a, ('a, 's) ResultType) senders \<Rightarrow> ('a \<times> 'k) set" where
  "group_keys_in S ms = (\<Union>r \<in> snd ` set ms. case parse_group_key S (payload r) of
     Inl _ \<Rightarrow> {} | Inr resp \<Rightarrow> set (ggkr_public_keys resp))"

lemma collect_client_keys_from:
  "collect_client_keys S ms m = Inr m' \<Longrightarrow> keys_from S off m \<Longrightarrow> keys_from S (off \<union> client_keys_in S ms) m'"
proof (induction ms arbitrary: off m)
  case Nil
  then show ?case by (simp add: client_keys_in_def)
next
  case (Cons x ms)
  obtain s r where x: "x = (s, r)" by (cases x)
  obtain key where k: "parse_client_key S (payload r) = Inr key"
    and c: "collect_client_keys S ms (add_key S (gckr_address key) (gckr_public_key key) m) = Inr m'"
    using Cons.prems(1) by (auto simp: x bindR_eq_Inr)
  have "client_keys_in S (x # ms) = insert (gckr_address key, gckr_public_key key) (client_keys_in S ms)"
    by (simp add: client_keys_in_def x k)
  then show ?case using Cons.IH [OF c keys_from_add [OF Cons.prems(2)]] by simp
qed

lemma collect_group_keys_from:
  "collect_group_keys S ms m = Inr m' \<Longrightarrow> keys_from S off m \<Longrightarrow> keys_from S (off \<union> group_keys_in S ms) m'"
proof (induction ms arbitrary: off m)
  case Nil
  then show ?case by (simp add: group_keys_in_def)
next
  case (Cons x ms)
  obtain s r where x: "x = (s, r)" by (cases x)
  obtain resp where k: "parse_group_key S (payload r) = Inr resp"
    and c: "collect_group_keys S ms (fold (\<lambda>(a, k) m. add_key S a k m) (ggkr_public_keys resp) m) = Inr m'"
    using Cons.prems(1) by (auto simp: x bindR_eq_Inr)
  have "group_keys_in S (x # ms) = set (ggkr_public_keys resp) \<union> group_keys_in S ms"
    by (simp add: group_keys_in_def x k)
  then show ?case using Cons.IH [OF c keys_from_fold [OF Cons.prems(2)]] by (simp add: Un_assoc)
qed

lemma client_keys_inD:
  assumes "(a, k) \<in> client_keys_in S ms"
  shows "\<exists>s x key. (s, x) \<in> set ms \<and> parse_client_key S (payload x) = Inr key \<and> k = gckr_public_key key"
proof -
  obtain p where p: "p \<in> set ms" "(a, k) \<in> (case parse_client_key S (payload (snd p)) of
     Inl _ \<Rightarrow> {} | Inr key \<Rightarrow> {(gckr_address key, gckr_public_key key)})"
    using assms unfolding client_keys_in_def by blast
  then obtain key where "parse_client_key S (payload (snd p)) = Inr key" "k = gckr_public_key key"
    by (auto split: sum.splits)
  then show ?thesis using p(1) prod.collapse [of p] by metis
qed

lemma group_keys_inD:
  assumes "(a, k) \<in> group_keys_in S ms"
  shows "\<exists>s x resp. (s, x) \<in> set ms \<and> parse_group_key S (payload x) = Inr resp \<and> (a, k) \<in> set (ggkr_public_keys resp)"
proof -
  obtain p where p: "p \<in> set ms" "(a, k) \<in> (case parse_group_key S (payload (snd p)) of
     Inl _ \<Rightarrow> {} | Inr resp \<Rightarrow> set (ggkr_public_keys resp))"
    using assms unfolding group_keys_in_def by blast
  then obtain resp where "parse_group_key S (payload (snd p)) = Inr resp" "(a, k) \<in> set (ggkr_public_keys resp)"
    by (auto split: sum.splits)
  then show ?thesis using p(1) prod.collapse [of p] by metis
qed

text \<open>What a successful check of the group's messages means\<close>

lemma Validate_group_D:
  assumes "Validate_group L S ms ks = Inr vs" "vs \<noteq> []"
  shows "\<exists>Q. vs = map snd (filter Q ms)" "QuorumSize \<le> length vs" "QuorumSize \<le> length ks"
    "\<And>r. r \<in> set vs \<Longrightarrow> \<exists>k. ValidateKey L k \<and> signed_with S r k \<and> (FromNode (header_of r), k) \<in> group_keys_in S ks"
proof -
  obtain km where km: "collect_group_keys S ks [] = Inr km" and len: "QuorumSize \<le> length ks"
    and v: "verify S (group_key_for L km) ms = Inr vs" "QuorumSize \<le> length vs"
    using assms by (auto simp: Validate_group_def bindR_eq_Inr not_less split: if_splits)
  have kf: "keys_from S (group_keys_in S ks) km" using collect_group_keys_from [OF km keys_from_Nil] by simp
  note vf = verify_filter [OF v(1)]
  show "\<exists>Q. vs = map snd (filter Q ms)" using vf by blast
  show "QuorumSize \<le> length vs" "QuorumSize \<le> length ks" by (rule v(2), rule len)
  fix r assume "r \<in> set vs"
  then have "verified S (group_key_for L km) r" unfolding vf by auto
  then obtain k where k: "group_key_for L km r = Some k" "signed_with S r k" unfolding verified_def by blast
  then obtain ks' where "map_of km (FromNode (header_of r)) = Some (k # ks')" "ValidateKey L k"
    by (auto simp: group_key_for_def std_less.smap_find_map_of split: option.splits list.splits if_splits)
  then show "\<exists>k. ValidateKey L k \<and> signed_with S r k \<and> (FromNode (header_of r), k) \<in> group_keys_in S ks"
    using kf k(2) unfolding keys_from_def by (metis list.set_intros(1))
qed

lemma Validate_node_D:
  assumes "Validate_node L S ms ks = Inr vs" "vs \<noteq> []"
  shows "QuorumSize \<le> length ks"
    "\<exists>a k. ValidateKey L k \<and> (a, k) \<in> client_keys_in S ks \<and> (\<forall>r \<in> set vs. r \<in> snd ` set ms \<and> signed_with S r k)
      \<and> (\<not> NDEBUG L \<longrightarrow> (\<forall>(a', k') \<in> client_keys_in S ks. a' = a \<and> serialise_key S k' = serialise_key S k))"
proof -
  obtain km a k pks rest where km: "collect_client_keys S ks [] = Inr km" "km = (a, k # pks) # rest"
    and len: "QuorumSize \<le> length ks" and va: "ValidateKey L k"
    and as: "NDEBUG L \<or> rest = []" "NDEBUG L \<or> pks = []"
    and v: "verify S (\<lambda>_. Some k) ms = Inr vs"
    using assms by (auto simp: Validate_node_def bindR_eq_Inr cpp_assert_def not_less split: if_splits list.splits)
  have kf: "keys_from S (client_keys_in S ks) km" using collect_client_keys_from [OF km(1) keys_from_Nil] by simp
  have "(a, k) \<in> client_keys_in S ks" using kf unfolding keys_from_def km(2) by simp
  moreover have "r \<in> snd ` set ms \<and> signed_with S r k" if "r \<in> set vs" for r
    using that unfolding verify_filter [OF v] by (force simp: verified_def)
  moreover have "a' = a \<and> serialise_key S k' = serialise_key S k"
    if that1: "\<not> NDEBUG L" and that2: "(a', k') \<in> client_keys_in S ks" for a' k'
  proof -
    obtain ks' p where p: "map_of km a' = Some ks'" "p \<in> set ks'" "serialise_key S k' = serialise_key S p"
      using kf that2 unfolding keys_from_def by blast
    then show ?thesis using as that1 by (auto simp: km(2) split: if_splits)
  qed
  ultimately show "\<exists>a k. ValidateKey L k \<and> (a, k) \<in> client_keys_in S ks
      \<and> (\<forall>r \<in> set vs. r \<in> snd ` set ms \<and> signed_with S r k)
      \<and> (\<not> NDEBUG L \<longrightarrow> (\<forall>(a', k') \<in> client_keys_in S ks. a' = a \<and> serialise_key S k' = serialise_key S k))"
    using va by blast
  show "QuorumSize \<le> length ks" by (rule len)
qed

lemma find_SomeD: "find P xs = Some x \<Longrightarrow> P x \<and> x \<in> set xs"
  by (induction xs) (auto split: if_splits)

lemma Resolve_group_D:
  assumes "Resolve_group S vs = Inr (Some (h, tag, msg))"
  shows "QuorumSize \<le> length vs"
    "tag \<noteq> tag_AccountTransfer \<Longrightarrow> (h, tag, msg) \<in> set vs \<and> QuorumSize \<le> length (filter (\<lambda>r. payload r = msg) vs)"
    "\<exists>tag' msg'. (h, tag', msg') \<in> set vs"
proof -
  show len: "QuorumSize \<le> length vs" using assms by (auto simp: Resolve_group_def split: if_splits)
  then have ne: "vs \<noteq> []" by (auto simp: QuorumSize_def)
  have f: "(h, tag, msg) \<in> set vs \<and> QuorumSize \<le> length (filter (\<lambda>r. payload r = msg) vs)"
    if "tag_in (hd vs) \<noteq> tag_AccountTransfer"
  proof -
    have "find (\<lambda>m. length (filter (\<lambda>r. payload r = payload m) vs) \<ge> QuorumSize) vs = Some (h, tag, msg)"
      using assms that len by (simp add: Resolve_group_def)
    from find_SomeD [OF this] show ?thesis by simp
  qed
  have g: "tag = tag_AccountTransfer \<and> (\<exists>m. (h, tag, m) \<in> set vs)" if "tag_in (hd vs) = tag_AccountTransfer"
  proof -
    obtain h' tag' m where hd: "hd vs = (h', tag', m)" by (cases "hd vs") auto
    then have "h' = h \<and> tag' = tag"
      using assms that len by (auto simp: Resolve_group_def bindR_eq_Inr split: option.splits)
    then have "hd vs = (h, tag, m)" using hd by simp
    then show ?thesis using that hd_in_set [OF ne] by auto
  qed
  show "tag \<noteq> tag_AccountTransfer \<Longrightarrow> (h, tag, msg) \<in> set vs \<and> QuorumSize \<le> length (filter (\<lambda>r. payload r = msg) vs)"
    using f g by blast
  show "\<exists>tag' msg'. (h, tag', msg') \<in> set vs" using f g by blast
qed

subsection \<open>Runs of the sentinel\<close>

text \<open>
  A run is the sequence of the messages given to \<open>Add\<close>, latest first, those for which it threw
  included.
\<close>

inductive sent_run ::
  "('a::linorder, 'f, 'k) lib \<Rightarrow> ('a, 'k, 's, 'i) sentinel_lib \<Rightarrow> ('a, 's) ResultType list \<Rightarrow> ('a, 's) Sentinel \<Rightarrow> bool"
  for L S where
  sent_new: "sent_run L S [] Sentinel_new"
| sent_add: "sent_run L S evs st \<Longrightarrow> Sentinel_Add L S now t st r = (st', res) \<Longrightarrow> sent_run L S (r # evs) st'"

definition node_entry :: "('a, 's) ResultType list \<Rightarrow> 'a \<times> MessageId \<Rightarrow> 'a \<Rightarrow> ('a, 's) ResultType \<Rightarrow> bool" where
  "node_entry evs n s r \<longleftrightarrow> r \<in> set evs \<and> FromNode (header_of r) = s \<and> n = (s, h_message_id (header_of r))
     \<and> FromGroup (header_of r) = None"

definition group_entry :: "('a, 's) ResultType list \<Rightarrow> 'a \<times> MessageId \<Rightarrow> 'a \<Rightarrow> ('a, 's) ResultType \<Rightarrow> bool" where
  "group_entry evs n s r \<longleftrightarrow> r \<in> set evs \<and> FromNode (header_of r) = s
     \<and> FromGroup (header_of r) = Some (fst n) \<and> h_message_id (header_of r) = snd n"

definition key_entry ::
  "MessageTypeTag \<Rightarrow> ('a, 's) ResultType list \<Rightarrow> 'a \<Rightarrow> 'a \<Rightarrow> ('a, 's) ResultType \<Rightarrow> bool" where
  "key_entry tag evs g s r \<longleftrightarrow> r \<in> set evs \<and> tag_in r = tag \<and> FromNode (header_of r) = s
     \<and> FromGroup (header_of r) = Some g"

definition sent_inv :: "('a::linorder, 's) ResultType list \<Rightarrow> ('a, 's) Sentinel \<Rightarrow> bool" where
  "sent_inv evs st \<longleftrightarrow>
     acc_inv (node_accumulator st) \<and> quorum (node_accumulator st) = 1
   \<and> acc_inv (group_accumulator st) \<and> quorum (group_accumulator st) = of_nat QuorumSize
   \<and> acc_inv (group_key_accumulator st) \<and> quorum (group_key_accumulator st) = of_nat QuorumSize
   \<and> acc_inv (node_key_accumulator st) \<and> quorum (node_key_accumulator st) = of_nat QuorumSize
   \<and> all_held held (node_entry evs) (node_accumulator st)
   \<and> all_held held (group_entry evs) (group_accumulator st)
   \<and> all_held held (key_entry tag_GetGroupKeyResponse evs) (group_key_accumulator st)
   \<and> all_held held (key_entry tag_GetClientKeyResponse evs) (node_key_accumulator st)"

lemma sent_inv_accs:
  assumes "sent_inv evs st"
  shows "acc_inv (node_accumulator st)" "acc_inv (group_accumulator st)" "acc_inv (group_key_accumulator st)"
    "acc_inv (node_key_accumulator st)"
  using assms by (simp_all add: sent_inv_def)

lemma sent_inv_held:
  assumes "sent_inv evs st"
  shows "all_held held (node_entry evs) (node_accumulator st)"
    "all_held held (group_entry evs) (group_accumulator st)"
    "all_held held (key_entry tag_GetGroupKeyResponse evs) (group_key_accumulator st)"
    "all_held held (key_entry tag_GetClientKeyResponse evs) (node_key_accumulator st)"
  using assms by (simp_all add: sent_inv_def)

lemma sent_inv_more: "sent_inv evs st \<Longrightarrow> sent_inv (r # evs) st"
  by (auto simp: sent_inv_def all_held_def node_entry_def group_entry_def key_entry_def)

lemma sent_inv_requests [simp]: "sent_inv evs (st\<lparr>requests := q\<rparr>) = sent_inv evs st"
  by (simp add: sent_inv_def)

lemma Accumulator_new_simps [simp]:
  "held (Accumulator_new ttl q) n = None" "quorum (Accumulator_new ttl q) = q"
  by (simp_all add: held_def Accumulator_new_def entries_def)

lemma sent_inv_new: "sent_inv [] Sentinel_new"
  by (simp add: sent_inv_def Sentinel_new_def acc_inv_new all_held_def)

text \<open>The four stores change through \<open>Add\<close> and \<open>Delete\<close> only, and each keeps its invariant.\<close>

lemma sent_inv_node_add:
  assumes "sent_inv evs st" "Accumulator_Add nd now (node_accumulator st) n r s = Inr (acc, res)" "node_entry evs n s r"
  shows "sent_inv evs (st\<lparr>node_accumulator := acc\<rparr>)"
proof -
  have i: "acc_inv (node_accumulator st)" "all_held held (node_entry evs) (node_accumulator st)"
    using assms(1) by (simp_all add: sent_inv_def)
  show ?thesis
    using assms(1) store.add_D(1,2) [OF i(1) assms(2)] store.all_held_add [OF i assms(3,2)]
    by (simp add: sent_inv_def word_unat_eq_iff)
qed

lemma sent_inv_group_add:
  assumes "sent_inv evs st" "Accumulator_Add nd now (group_accumulator st) n r s = Inr (acc, res)" "group_entry evs n s r"
  shows "sent_inv evs (st\<lparr>group_accumulator := acc\<rparr>)"
proof -
  have i: "acc_inv (group_accumulator st)" "all_held held (group_entry evs) (group_accumulator st)"
    using assms(1) by (simp_all add: sent_inv_def)
  show ?thesis
    using assms(1) store.add_D(1,2) [OF i(1) assms(2)] store.all_held_add [OF i assms(3,2)]
    by (simp add: sent_inv_def word_unat_eq_iff)
qed

lemma sent_inv_group_key_add:
  assumes "sent_inv evs st" "Accumulator_Add nd now (group_key_accumulator st) n r s = Inr (acc, res)"
    "key_entry tag_GetGroupKeyResponse evs n s r"
  shows "sent_inv evs (st\<lparr>group_key_accumulator := acc\<rparr>)"
proof -
  have i: "acc_inv (group_key_accumulator st)"
    "all_held held (key_entry tag_GetGroupKeyResponse evs) (group_key_accumulator st)"
    using assms(1) by (simp_all add: sent_inv_def)
  show ?thesis
    using assms(1) store.add_D(1,2) [OF i(1) assms(2)] store.all_held_add [OF i assms(3,2)]
    by (simp add: sent_inv_def word_unat_eq_iff)
qed

lemma sent_inv_node_key_add:
  assumes "sent_inv evs st" "Accumulator_Add nd now (node_key_accumulator st) n r s = Inr (acc, res)"
    "key_entry tag_GetClientKeyResponse evs n s r"
  shows "sent_inv evs (st\<lparr>node_key_accumulator := acc\<rparr>)"
proof -
  have i: "acc_inv (node_key_accumulator st)"
    "all_held held (key_entry tag_GetClientKeyResponse evs) (node_key_accumulator st)"
    using assms(1) by (simp_all add: sent_inv_def)
  show ?thesis
    using assms(1) store.add_D(1,2) [OF i(1) assms(2)] store.all_held_add [OF i assms(3,2)]
    by (simp add: sent_inv_def word_unat_eq_iff)
qed

lemma resolve_node_inv:
  assumes "sent_inv evs st" "resolve_node L S t st key ms ks = (st', res)"
  shows "sent_inv evs st'"
proof -
  have i: "acc_inv (node_accumulator st)" "all_held held (node_entry evs) (node_accumulator st)"
    using assms(1) by (simp_all add: sent_inv_def)
  have "sent_inv evs (st\<lparr>node_accumulator := acc\<rparr>)"
    if "Accumulator_Delete (NDEBUG L) t (node_accumulator st) key = Inr acc" for acc
    using assms(1) store.del_D(1,2) [OF i(1) that] store.all_held_del [OF i that]
    by (simp add: sent_inv_def word_unat_eq_iff)
  then show ?thesis
    using assms by (auto simp: resolve_node_def split: sum.splits option.splits)
qed

lemma resolve_group_inv:
  assumes "sent_inv evs st" "resolve_group L S t st key ms ks = (st', res)"
  shows "sent_inv evs st'"
proof -
  have i: "acc_inv (group_accumulator st)" "all_held held (group_entry evs) (group_accumulator st)"
    using assms(1) by (simp_all add: sent_inv_def)
  have "sent_inv evs (st\<lparr>group_accumulator := acc\<rparr>)"
    if "Accumulator_Delete (NDEBUG L) t (group_accumulator st) key = Inr acc" for acc
    using assms(1) store.del_D(1,2) [OF i(1) that] store.all_held_del [OF i that]
    by (simp add: sent_inv_def word_unat_eq_iff)
  then show ?thesis
    using assms by (auto simp: resolve_group_def split: sum.splits option.splits)
qed

lemma add_client_key_response_inv:
  assumes "sent_inv evs st" "r \<in> set evs" "tag_in r = tag_GetClientKeyResponse"
    "add_client_key_response L S now t st r = (st', res)"
  shows "sent_inv evs st'"
proof (cases "FromGroup (header_of r)")
  case None
  then show ?thesis using assms by (simp add: add_client_key_response_def)
next
  case (Some g)
  have e: "key_entry tag_GetClientKeyResponse evs g (FromNode (header_of r)) r"
    using assms(2,3) Some by (simp add: key_entry_def)
  obtain acc q where a: "Accumulator_Add (NDEBUG L) now (node_key_accumulator st) g r (FromNode (header_of r)) = Inr (acc, q)"
    using store.add_returns [OF sent_inv_accs(4) [OF assms(1)]] by blast
  from sent_inv_node_key_add [OF assms(1) a e] show ?thesis
    using assms(4) Some a
    by (auto simp: add_client_key_response_def Let_def split: option.splits intro: resolve_node_inv)
qed

lemma add_group_key_response_inv:
  assumes "sent_inv evs st" "r \<in> set evs" "tag_in r = tag_GetGroupKeyResponse"
    "add_group_key_response L S now t st r = (st', res)"
  shows "sent_inv evs st'"
proof (cases "FromGroup (header_of r)")
  case None
  then show ?thesis using assms by (simp add: add_group_key_response_def)
next
  case (Some g)
  have e: "key_entry tag_GetGroupKeyResponse evs g (FromNode (header_of r)) r"
    using assms(2,3) Some by (simp add: key_entry_def)
  obtain acc q where a: "Accumulator_Add (NDEBUG L) now (group_key_accumulator st) g r (FromNode (header_of r)) = Inr (acc, q)"
    using store.add_returns [OF sent_inv_accs(3) [OF assms(1)]] by blast
  from sent_inv_group_key_add [OF assms(1) a e] show ?thesis
    using assms(4) Some a
    by (auto simp: add_group_key_response_def Let_def split: option.splits intro: resolve_group_inv)
qed

lemma add_group_message_inv:
  assumes inv: "sent_inv evs st" and r: "r \<in> set evs" "FromGroup (header_of r) = Some g"
    and add: "add_group_message L S now t st g r = (st', res)"
  shows "sent_inv evs st'"
proof -
  define key where "key = (g, h_message_id (header_of r))"
  define st0 where "st0 = (if HaveName (group_accumulator st) key then st
      else st\<lparr>requests := SendGetGroupKey g # requests st\<rparr>)"
  have i0: "sent_inv evs st0" using inv by (simp add: st0_def)
  have e: "group_entry evs key (FromNode (header_of r)) r" using r by (simp add: group_entry_def key_def)
  obtain acc q where a: "Accumulator_Add (NDEBUG L) now (group_accumulator st0) key r (FromNode (header_of r)) = Inr (acc, q)"
    using store.add_returns [OF sent_inv_accs(2) [OF i0]] by blast
  from sent_inv_group_add [OF i0 a e] show ?thesis
    using add a unfolding add_group_message_def key_def [symmetric] Let_def st0_def [symmetric]
    by (auto split: option.splits intro: resolve_group_inv)
qed

lemma add_node_message_inv:
  assumes inv: "sent_inv evs st" and r: "r \<in> set evs" "FromGroup (header_of r) = None"
    and add: "add_node_message L S now t st r = (st', res)"
  shows "sent_inv evs st'"
proof -
  define key where "key = (FromNode (header_of r), h_message_id (header_of r))"
  define st0 where "st0 = (if HaveName (node_accumulator st) key then st
      else st\<lparr>requests := SendGetClientKey (FromNode (header_of r)) # requests st\<rparr>)"
  have i0: "sent_inv evs st0" using inv by (simp add: st0_def)
  have e: "node_entry evs key (FromNode (header_of r)) r" using r by (simp add: node_entry_def key_def)
  obtain acc q where a: "Accumulator_Add (NDEBUG L) now (node_accumulator st0) key r (FromNode (header_of r)) = Inr (acc, q)"
    using store.add_returns [OF sent_inv_accs(1) [OF i0]] by blast
  from sent_inv_node_add [OF i0 a e] show ?thesis
    using add a unfolding add_node_message_def Let_def key_def [symmetric] st0_def [symmetric]
    by (auto split: option.splits intro: resolve_node_inv)
qed

lemma Sentinel_Add_inv:
  assumes "sent_inv evs st" "Sentinel_Add L S now t st r = (st', res)"
  shows "sent_inv (r # evs) st'"
proof -
  note i = sent_inv_more [OF assms(1), of r]
  have m: "r \<in> set (r # evs)" by simp
  show ?thesis
    using assms(2) unfolding Sentinel_Add_def
    by (auto split: if_splits option.splits intro: add_client_key_response_inv [OF i m]
        add_group_key_response_inv [OF i m] add_group_message_inv [OF i m] add_node_message_inv [OF i m])
qed

lemma sent_run_inv: "sent_run L S evs st \<Longrightarrow> sent_inv evs st"
  by (induction rule: sent_run.induct) (auto intro: sent_inv_new Sentinel_Add_inv)

text \<open>Where a result comes from: the last step of \<open>Add\<close>, on messages and keys that are held.\<close>

lemma resolve_node_Some:
  assumes "resolve_node L S t st key ms ks = (st', Inr (Some res))"
  shows "\<exists>vs. Validate_node L S ms ks = Inr vs \<and> vs \<noteq> [] \<and> res = hd vs"
  using assms by (auto simp: resolve_node_def bindR_eq_Inr Resolve_single_def split: sum.splits option.splits list.splits)

lemma resolve_group_Some:
  assumes "resolve_group L S t st key ms ks = (st', Inr (Some res))"
  shows "\<exists>vs. Validate_group L S ms ks = Inr vs \<and> Resolve_group S vs = Inr (Some res)"
  using assms by (auto simp: resolve_group_def bindR_eq_Inr split: sum.splits option.splits)

definition senders_ok :: "('a \<Rightarrow> 'v \<Rightarrow> bool) \<Rightarrow> ('a, 'v) senders \<Rightarrow> bool" where
  "senders_ok P m \<longleftrightarrow> distinct (map fst m) \<and> (\<forall>(s, v) \<in> set m. P s v)"

lemma added_ok:
  assumes "acc_inv acc" "all_held held P acc" "P n s v" "Accumulator_Add nd now acc n v s = Inr (acc', Some (n', m))"
  shows "senders_ok (P n) m" "n' = n"
proof -
  have "n' = n \<and> smap_wf (<) m" using store.add_D(5) [OF assms(1,4) refl] by blast
  then show "senders_ok (P n) m" "n' = n"
    using std_less.smap_wf_distinct store.all_held_result [OF assms] unfolding senders_ok_def by auto
qed

lemma got_ok:
  assumes "acc_inv acc" "all_held held P acc" "GetAll acc n = Some (n', m)"
  shows "senders_ok (P n) m" "n' = n"
proof -
  have "n' = n \<and> smap_wf (<) m" using store.get_law [OF assms(1), of n] assms(3) by auto
  then show "senders_ok (P n) m" "n' = n"
    using std_less.smap_wf_distinct store.all_held_get(1) [OF assms] unfolding senders_ok_def by auto
qed

definition group_source ::
  "('a::linorder, 'f, 'k) lib \<Rightarrow> ('a, 'k, 's, 'i) sentinel_lib \<Rightarrow> ('a, 's) ResultType list \<Rightarrow> ('a, 's) ResultType \<Rightarrow> bool" where
  "group_source L S evs res \<longleftrightarrow> (\<exists>n ms ks vs. Validate_group L S ms ks = Inr vs \<and> Resolve_group S vs = Inr (Some res)
     \<and> senders_ok (group_entry evs n) ms \<and> senders_ok (key_entry tag_GetGroupKeyResponse evs (fst n)) ks)"

definition node_source ::
  "('a::linorder, 'f, 'k) lib \<Rightarrow> ('a, 'k, 's, 'i) sentinel_lib \<Rightarrow> ('a, 's) ResultType list \<Rightarrow> ('a, 's) ResultType \<Rightarrow> bool" where
  "node_source L S evs res \<longleftrightarrow> (\<exists>n ms ks vs. Validate_node L S ms ks = Inr vs \<and> vs \<noteq> [] \<and> res = hd vs
     \<and> senders_ok (node_entry evs n) ms \<and> senders_ok (key_entry tag_GetClientKeyResponse evs (fst n)) ks)"

lemma client_key_response_source:
  assumes inv: "sent_inv evs st" and r: "r \<in> set evs" "tag_in r = tag_GetClientKeyResponse"
    and add: "add_client_key_response L S now t st r = (st', Inr (Some res))"
  shows "node_source L S evs res"
proof -
  obtain g where g: "FromGroup (header_of r) = Some g"
    using add by (auto simp: add_client_key_response_def split: option.splits)
  obtain acc k ks k' ms where
    a: "Accumulator_Add (NDEBUG L) now (node_key_accumulator st) g r (FromNode (header_of r)) = Inr (acc, Some (k, ks))"
    and m: "GetAll (node_accumulator st) (g, h_message_id (header_of r)) = Some (k', ms)"
    and res: "resolve_node L S t (st\<lparr>node_key_accumulator := acc\<rparr>) (g, h_message_id (header_of r)) ms ks = (st', Inr (Some res))"
    using add g by (auto simp: add_client_key_response_def Let_def split: option.splits sum.splits)
  have "key_entry tag_GetClientKeyResponse evs g (FromNode (header_of r)) r"
    using r g by (simp add: key_entry_def)
  from added_ok(1) [OF sent_inv_accs(4) [OF inv] sent_inv_held(4) [OF inv] this a]
  have ks: "senders_ok (key_entry tag_GetClientKeyResponse evs (fst (g, h_message_id (header_of r)))) ks" by simp
  have ms: "senders_ok (node_entry evs (g, h_message_id (header_of r))) ms"
    by (rule got_ok(1) [OF sent_inv_accs(1) [OF inv] sent_inv_held(1) [OF inv] m])
  show ?thesis using resolve_node_Some [OF res] ks ms unfolding node_source_def by blast
qed

lemma group_key_response_source:
  assumes inv: "sent_inv evs st" and r: "r \<in> set evs" "tag_in r = tag_GetGroupKeyResponse"
    and add: "add_group_key_response L S now t st r = (st', Inr (Some res))"
  shows "group_source L S evs res"
proof -
  obtain g where g: "FromGroup (header_of r) = Some g"
    using add by (auto simp: add_group_key_response_def split: option.splits)
  obtain acc k ks k' ms where
    a: "Accumulator_Add (NDEBUG L) now (group_key_accumulator st) g r (FromNode (header_of r)) = Inr (acc, Some (k, ks))"
    and m: "GetAll (group_accumulator st) (g, h_message_id (header_of r)) = Some (k', ms)"
    and res: "resolve_group L S t (st\<lparr>group_key_accumulator := acc\<rparr>) (g, h_message_id (header_of r)) ms ks = (st', Inr (Some res))"
    using add g by (auto simp: add_group_key_response_def Let_def split: option.splits sum.splits)
  have "key_entry tag_GetGroupKeyResponse evs g (FromNode (header_of r)) r"
    using r g by (simp add: key_entry_def)
  from added_ok(1) [OF sent_inv_accs(3) [OF inv] sent_inv_held(3) [OF inv] this a]
  have ks: "senders_ok (key_entry tag_GetGroupKeyResponse evs (fst (g, h_message_id (header_of r)))) ks" by simp
  have ms: "senders_ok (group_entry evs (g, h_message_id (header_of r))) ms"
    by (rule got_ok(1) [OF sent_inv_accs(2) [OF inv] sent_inv_held(2) [OF inv] m])
  show ?thesis using resolve_group_Some [OF res] ks ms unfolding group_source_def by blast
qed

lemma group_message_source:
  assumes inv: "sent_inv evs st" and r: "r \<in> set evs" "FromGroup (header_of r) = Some g"
    and add: "add_group_message L S now t st g r = (st', Inr (Some res))"
  shows "group_source L S evs res"
proof -
  define key where "key = (g, h_message_id (header_of r))"
  define st0 where "st0 = (if HaveName (group_accumulator st) key then st
      else st\<lparr>requests := SendGetGroupKey g # requests st\<rparr>)"
  have same: "group_accumulator st0 = group_accumulator st" "group_key_accumulator st0 = group_key_accumulator st"
    by (simp_all add: st0_def)
  obtain acc k k' ks ms where
    a: "Accumulator_Add (NDEBUG L) now (group_accumulator st) key r (FromNode (header_of r)) = Inr (acc, Some (k, ms))"
    and m: "GetAll (group_key_accumulator st) g = Some (k', ks)"
    and res: "resolve_group L S t (st0\<lparr>group_accumulator := acc\<rparr>) key ms ks = (st', Inr (Some res))"
    using add unfolding add_group_message_def key_def [symmetric] Let_def st0_def [symmetric]
    by (auto simp: same split: option.splits sum.splits)
  have "group_entry evs key (FromNode (header_of r)) r" using r by (simp add: group_entry_def key_def)
  from added_ok(1) [OF sent_inv_accs(2) [OF inv] sent_inv_held(2) [OF inv] this a]
  have ms: "senders_ok (group_entry evs key) ms" .
  have ks: "senders_ok (key_entry tag_GetGroupKeyResponse evs (fst key)) ks"
    using got_ok(1) [OF sent_inv_accs(3) [OF inv] sent_inv_held(3) [OF inv] m] by (simp add: key_def)
  show ?thesis using resolve_group_Some [OF res] ks ms unfolding group_source_def by blast
qed

text \<open>
  A message from a single node is kept under its sender and message id, so it is the only one
  of its name; and it is checked against itself.
\<close>

lemma node_message_waits:
  assumes inv: "sent_inv evs st" and r: "r \<in> set evs" "FromGroup (header_of r) = None"
  shows "\<exists>st'. add_node_message L S now t st r = (st', Inr None)"
proof -
  define key where "key = (FromNode (header_of r), h_message_id (header_of r))"
  define st0 where "st0 = (if HaveName (node_accumulator st) key then st
      else st\<lparr>requests := SendGetClientKey (FromNode (header_of r)) # requests st\<rparr>)"
  have i0: "sent_inv evs st0" using inv by (simp add: st0_def)
  have e: "node_entry evs key (FromNode (header_of r)) r" using r by (simp add: node_entry_def key_def)
  obtain acc q where a: "Accumulator_Add (NDEBUG L) now (node_accumulator st0) key r (FromNode (header_of r)) = Inr (acc, q)"
    using store.add_returns [OF sent_inv_accs(1) [OF i0]] by blast
  note i1 = sent_inv_node_add [OF i0 a e]
  have few: "resolve_node L S t st1 key ms ks = (st1, Inr None)"
    if "GetAll acc name = Some (name', ks)" for st1 name name' ms ks
  proof -
    have "senders_ok (node_entry evs name) ks"
      using got_ok(1) [OF sent_inv_accs(1) [OF i1] sent_inv_held(1) [OF i1]] that by simp
    then have "fst ` set ks \<subseteq> {fst name}" "distinct (map fst ks)"
      by (auto simp: senders_ok_def node_entry_def)
    then have "length ks \<le> 1"
      using card_mono [of "{fst name}" "fst ` set ks"] distinct_card [of "map fst ks"] by simp
    then have "Validate_node L S ms ks = Inr []" by (simp add: Validate_node_def QuorumSize_def)
    then show ?thesis by (simp add: resolve_node_def Resolve_single_def)
  qed
  show ?thesis
    using a few unfolding add_node_message_def Let_def key_def [symmetric] st0_def [symmetric]
    by (auto split: option.splits)
qed

lemma result_source:
  assumes inv: "sent_inv evs st" and add: "Sentinel_Add L S now t st r = (st', Inr (Some res))"
  shows "group_source L S (r # evs) res \<or> node_source L S (r # evs) res \<and> tag_in r = tag_GetClientKeyResponse"
proof -
  note i = sent_inv_more [OF inv, of r]
  have m: "r \<in> set (r # evs)" by simp
  show ?thesis
  proof (cases "tag_in r = tag_GetClientKeyResponse")
    case True
    then have "add_client_key_response L S now t st r = (st', Inr (Some res))" using add by (simp add: Sentinel_Add_def)
    from client_key_response_source [OF i m True this] True show ?thesis by blast
  next
    case other: False
    show ?thesis
    proof (cases "tag_in r = tag_GetGroupKeyResponse")
      case True
      then have "add_group_key_response L S now t st r = (st', Inr (Some res))"
        using add other by (simp add: Sentinel_Add_def)
      from group_key_response_source [OF i m True this] show ?thesis by blast
    next
      case False
      show ?thesis
      proof (cases "FromGroup (header_of r)")
        case None
        then show ?thesis using node_message_waits [OF i m None, of L S now t] add other False by (auto simp: Sentinel_Add_def)
      next
        case (Some g)
        then have "add_group_message L S now t st g r = (st', Inr (Some res))"
          using add other False by (simp add: Sentinel_Add_def)
        from group_message_source [OF i m Some this] show ?thesis by blast
      qed
    qed
  qed
qed

lemma node_source_header:
  "node_source L S evs res \<Longrightarrow> FromGroup (header_of res) = None"
proof -
  assume "node_source L S evs res"
  then obtain n ms ks vs where v: "Validate_node L S ms ks = Inr vs" "vs \<noteq> []" "res = hd vs" "senders_ok (node_entry evs n) ms"
    unfolding node_source_def by blast
  then have "res \<in> snd ` set ms" using Validate_node_D(2) [OF v(1,2)] hd_in_set [OF v(2)] by blast
  then show ?thesis using v(4) by (auto simp: senders_ok_def node_entry_def)
qed

subsection \<open>Properties\<close>

text \<open>What a key response of a group claims, and a check of a message with a key\<close>

definition group_vouches ::
  "('a, 'k, 's, 'i) sentinel_lib \<Rightarrow> ('a, 's) ResultType list \<Rightarrow> 'a \<Rightarrow> 'a \<Rightarrow> 'k \<Rightarrow> bool" where
  "group_vouches S evs g a k \<longleftrightarrow> (\<exists>x resp. x \<in> set evs \<and> tag_in x = tag_GetGroupKeyResponse
     \<and> FromGroup (header_of x) = Some g \<and> parse_group_key S (payload x) = Inr resp \<and> (a, k) \<in> set (ggkr_public_keys resp))"

text \<open>
  C14. What a result for a group stands for. When the sentinel returns a message that claims to
  come from the group \<open>g\<close> (and is not an account transfer), at least \<open>QuorumSize\<close> different
  nodes sent exactly this payload with this message id in the name of \<open>g\<close>, each signed it, and
  each signature passed with a valid key that a key response of \<open>g\<close> gives for that node. The
  returned message is one of them.
\<close>

theorem sentinel_group_result_genuine:
  assumes run: "sent_run L S evs st" and add: "Sentinel_Add L S now t st r = (st', Inr (Some (h, tag, msg)))"
    and g: "FromGroup h = Some g" and tag: "tag \<noteq> tag_AccountTransfer"
  shows "\<exists>rs. QuorumSize \<le> length rs \<and> distinct (map (\<lambda>x. FromNode (header_of x)) rs) \<and> (h, tag, msg) \<in> set rs
    \<and> (\<forall>x \<in> set rs. x \<in> set (r # evs) \<and> FromGroup (header_of x) = Some g
        \<and> h_message_id (header_of x) = h_message_id h \<and> payload x = msg
        \<and> (\<exists>k. ValidateKey L k \<and> signed_with S x k \<and> group_vouches S (r # evs) g (FromNode (header_of x)) k))"
proof -
  have "group_source L S (r # evs) (h, tag, msg)"
    using result_source [OF sent_run_inv [OF run] add] node_source_header [of L S "r # evs" "(h, tag, msg)"] g by auto
  then obtain n ms ks vs where v: "Validate_group L S ms ks = Inr vs" "Resolve_group S vs = Inr (Some (h, tag, msg))"
    and ms: "senders_ok (group_entry (r # evs) n) ms"
    and ks: "senders_ok (key_entry tag_GetGroupKeyResponse (r # evs) (fst n)) ks"
    unfolding group_source_def by blast
  note res = Resolve_group_D(2) [OF v(2) tag]
  then have ne: "vs \<noteq> []" by auto
  note D = Validate_group_D [OF v(1) ne]
  obtain Q where Q: "vs = map snd (filter Q ms)" using D(1) by blast
  have "map (\<lambda>x. FromNode (header_of x)) vs = map fst (filter Q ms)"
    unfolding Q using ms by (auto simp: senders_ok_def group_entry_def)
  then have dist: "distinct (map (\<lambda>x. FromNode (header_of x)) vs)"
    using ms distinct_map_filter_node [of fst ms Q] by (simp add: senders_ok_def)
  have entry: "group_entry (r # evs) n (FromNode (header_of x)) x" if "x \<in> set vs" for x
    using that ms unfolding Q by (auto simp: senders_ok_def group_entry_def)
  have n: "n = (g, h_message_id h)" using entry [of "(h, tag, msg)"] res g by (cases n) (auto simp: group_entry_def)
  have key: "\<exists>k. ValidateKey L k \<and> signed_with S x k \<and> group_vouches S (r # evs) g (FromNode (header_of x)) k"
    if x: "x \<in> set vs" for x
  proof -
    obtain k where k: "ValidateKey L k" "signed_with S x k" "(FromNode (header_of x), k) \<in> group_keys_in S ks"
      using D(4) [OF x] by blast
    obtain s y resp where y: "(s, y) \<in> set ks" "parse_group_key S (payload y) = Inr resp"
      "(FromNode (header_of x), k) \<in> set (ggkr_public_keys resp)"
      using group_keys_inD [OF k(3)] by blast
    have "key_entry tag_GetGroupKeyResponse (r # evs) g s y" using ks y(1) n by (auto simp: senders_ok_def)
    then show ?thesis using k y unfolding group_vouches_def key_entry_def by blast
  qed
  show ?thesis
    using res dist entry key n
    by (intro exI [of _ "filter (\<lambda>x. payload x = msg) vs"])
      (auto simp: distinct_map_filter_node group_entry_def)
qed

lemma group_source_from_group:
  assumes "group_source L S evs res"
  shows "FromGroup (header_of res) \<noteq> None"
proof -
  obtain n ms ks vs where v: "Validate_group L S ms ks = Inr vs" "Resolve_group S vs = Inr (Some res)"
    "senders_ok (group_entry evs n) ms"
    using assms unfolding group_source_def by blast
  obtain tag' msg' where x: "(header_of res, tag', msg') \<in> set vs"
    using Resolve_group_D(3) [of S vs "fst res" "fst (snd res)" "snd (snd res)"] v(2) by auto
  then have "vs \<noteq> []" by auto
  then obtain Q where "vs = map snd (filter Q ms)" using Validate_group_D(1) [OF v(1)] by blast
  then show ?thesis using x v(3) by (force simp: senders_ok_def group_entry_def)
qed

text \<open>
  C15. What a result for a single node stands for. When the sentinel returns a message that does
  not claim to come from a group, it is a message that was given to it, its signature passed
  with a valid key, and at least \<open>QuorumSize\<close> different nodes of the sender's group had sent
  an answer to the request for the key, one of which gives that key. With assertions compiled
  in, all those answers that parse give that key.
\<close>

theorem sentinel_node_result_genuine:
  assumes run: "sent_run L S evs st" and add: "Sentinel_Add L S now t st r = (st', Inr (Some res))"
    and g: "FromGroup (header_of res) = None"
  shows "res \<in> set (r # evs) \<and> tag_in r = tag_GetClientKeyResponse
    \<and> (\<exists>k ks. ValidateKey L k \<and> signed_with S res k
        \<and> QuorumSize \<le> length ks \<and> distinct (map (\<lambda>x. FromNode (header_of x)) ks)
        \<and> (\<forall>x \<in> set ks. x \<in> set (r # evs) \<and> tag_in x = tag_GetClientKeyResponse
            \<and> FromGroup (header_of x) = Some (FromNode (header_of res)))
        \<and> (\<exists>x \<in> set ks. \<exists>key. parse_client_key S (payload x) = Inr key \<and> gckr_public_key key = k)
        \<and> (\<not> NDEBUG L \<longrightarrow> (\<forall>x \<in> set ks. \<forall>key. parse_client_key S (payload x) = Inr key \<longrightarrow>
            serialise_key S (gckr_public_key key) = serialise_key S k)))"
proof -
  have src: "node_source L S (r # evs) res" and tag: "tag_in r = tag_GetClientKeyResponse"
    using result_source [OF sent_run_inv [OF run] add] group_source_from_group [of L S "r # evs" res] g by auto
  obtain n ms ks vs where v: "Validate_node L S ms ks = Inr vs" "vs \<noteq> []" "res = hd vs"
    and ms: "senders_ok (node_entry (r # evs) n) ms"
    and ks: "senders_ok (key_entry tag_GetClientKeyResponse (r # evs) (fst n)) ks"
    using src unfolding node_source_def by blast
  obtain a k where k: "ValidateKey L k" "(a, k) \<in> client_keys_in S ks" "\<forall>x \<in> set vs. x \<in> snd ` set ms \<and> signed_with S x k"
    "\<not> NDEBUG L \<longrightarrow> (\<forall>(a', k') \<in> client_keys_in S ks. a' = a \<and> serialise_key S k' = serialise_key S k)"
    using Validate_node_D(2) [OF v(1,2)] by blast
  have r1: "res \<in> snd ` set ms" "signed_with S res k" using k(3) hd_in_set [OF v(2)] v(3) by auto
  then have r2: "res \<in> set (r # evs)" "fst n = FromNode (header_of res)"
    using ms by (auto simp: senders_ok_def node_entry_def)
  have eq: "map (\<lambda>x. FromNode (header_of x)) (map snd ks) = map fst ks"
    using ks by (auto simp: senders_ok_def key_entry_def)
  have "distinct (map (\<lambda>x. FromNode (header_of x)) (map snd ks))"
    unfolding eq using ks by (simp add: senders_ok_def)
  moreover have "\<forall>x \<in> set (map snd ks). x \<in> set (r # evs) \<and> tag_in x = tag_GetClientKeyResponse
      \<and> FromGroup (header_of x) = Some (FromNode (header_of res))"
    using ks unfolding r2(2) [symmetric] by (auto simp: senders_ok_def key_entry_def)
  moreover have "\<exists>x \<in> set (map snd ks). \<exists>key. parse_client_key S (payload x) = Inr key \<and> gckr_public_key key = k"
    using client_keys_inD [OF k(2)] by force
  moreover have "serialise_key S (gckr_public_key key) = serialise_key S k"
    if "\<not> NDEBUG L" "x \<in> set (map snd ks)" "parse_client_key S (payload x) = Inr key" for x key
  proof -
    have "(gckr_address key, gckr_public_key key) \<in> client_keys_in S ks"
      using that(2,3) unfolding client_keys_in_def by (intro UN_I [of x]) auto
    then show ?thesis using k(4) that(1) by blast
  qed
  moreover have "QuorumSize \<le> length (map snd ks)" using Validate_node_D(1) [OF v(1,2)] by simp
  ultimately show ?thesis using r1(2) r2(1) tag k(1) by blast
qed

text \<open>
  C20. A message from a single node is never returned when it arrives: \<open>Add\<close> looks for the keys
  among the messages of that node, of which there is one, and so always finds too few.
\<close>

theorem sentinel_node_message_never_resolves:
  assumes "sent_run L S evs st" "tag_in r \<noteq> tag_GetClientKeyResponse" "tag_in r \<noteq> tag_GetGroupKeyResponse"
    "FromGroup (header_of r) = None"
  shows "\<exists>st'. Sentinel_Add L S now t st r = (st', Inr None)"
  using node_message_waits [OF sent_inv_more [OF sent_run_inv [OF assms(1)], of r] _ assms(4), of L S now t] assms
  by (simp add: Sentinel_Add_def)

text \<open>Errors that the sentinel passes on from the functions it calls\<close>

definition lib_error :: "('a, 'k, 's, 'i) sentinel_lib \<Rightarrow> error \<Rightarrow> bool" where
  "lib_error S e \<longleftrightarrow> (\<exists>m. parse_client_key S m = Inl e) \<or> (\<exists>m. parse_group_key S m = Inl e)
     \<or> (\<exists>m s k. CheckSignature S m s k = Inl e) \<or> (\<exists>m. parse_account S m = Inl e)
     \<or> (\<exists>i is. Merge S i is = Inl e) \<or> (\<exists>i. serialise_account S i = Inl e)"

text \<open>
  The pointer to the first of the accounts is dereferenced without a check. \<open>null_account\<close>: a message
  of a group is an account transfer whose account parses to a null pointer.
\<close>

definition null_account :: "('a, 'k, 's, 'i) sentinel_lib \<Rightarrow> ('a, 's) ResultType \<Rightarrow> bool" where
  "null_account S r \<longleftrightarrow> tag_in r = tag_AccountTransfer \<and> FromGroup (header_of r) \<noteq> None
     \<and> parse_account S (payload r) = Inr None"

definition add_error ::
  "('a, 'f, 'k) lib \<Rightarrow> ('a, 'k, 's, 'i) sentinel_lib \<Rightarrow> ('a, 's) ResultType list \<Rightarrow> error \<Rightarrow> bool" where
  "add_error L S evs e \<longleftrightarrow> lib_error S e \<or> \<not> NDEBUG L \<and> e = assertion_failed
     \<or> e = undefined_behaviour \<and> (\<exists>x. x \<in> set evs \<and> null_account S x)"

lemma bindR_eq_Inl: "bindR x f = Inl e \<longleftrightarrow> x = Inl e \<or> (\<exists>a. x = Inr a \<and> f a = Inl e)"
  by (cases x) auto

lemma collect_client_keys_error: "collect_client_keys S ms m = Inl e \<Longrightarrow> lib_error S e"
  by (induction S ms m rule: collect_client_keys.induct) (auto simp: bindR_eq_Inl lib_error_def)

lemma collect_group_keys_error: "collect_group_keys S ms m = Inl e \<Longrightarrow> lib_error S e"
  by (induction S ms m rule: collect_group_keys.induct) (auto simp: bindR_eq_Inl lib_error_def)

lemma verify_error: "verify S key_for ms = Inl e \<Longrightarrow> lib_error S e"
  by (induction S key_for ms rule: verify.induct)
    (auto simp: bindR_eq_Inl lib_error_def split: option.splits)

lemma parse_accounts_error: "parse_accounts S rs = Inl e \<Longrightarrow> lib_error S e"
  by (induction S rs rule: parse_accounts.induct) (auto simp: bindR_eq_Inl lib_error_def)

lemma Validate_group_error:
  "Validate_group L S ms ks = Inl e \<Longrightarrow> lib_error S e \<or> \<not> NDEBUG L \<and> e = assertion_failed"
  by (auto simp: Validate_group_def bindR_eq_Inl cpp_assert_def split: if_splits
      dest: collect_group_keys_error verify_error)

text \<open>The iterators that are dereferenced are valid: a quorum of answers gives at least one key.\<close>

lemma client_keys_not_Nil:
  assumes "collect_client_keys S ks [] = Inr km" "ks \<noteq> []"
  shows "\<exists>a k pks rest. km = (a, k # pks) # rest"
proof -
  have kf: "keys_from S (client_keys_in S ks) km" using collect_client_keys_from [OF assms(1) keys_from_Nil] by simp
  obtain p ks' where ks: "ks = p # ks'" using assms(2) by (cases ks) auto
  obtain key where "parse_client_key S (payload (snd p)) = Inr key"
    using assms(1) by (cases p) (auto simp: ks bindR_eq_Inr)
  then have "(gckr_address key, gckr_public_key key) \<in> client_keys_in S ks" by (simp add: client_keys_in_def ks)
  then obtain pks where "map_of km (gckr_address key) = Some pks" using kf unfolding keys_from_def by blast
  then obtain a pks rest where km: "km = (a, pks) # rest" by (cases km) auto
  then have "map_of km a = Some pks" by simp
  then have "pks \<noteq> []" using kf unfolding keys_from_def by blast
  then show ?thesis using km by (cases pks) auto
qed

lemma Validate_node_error:
  assumes "Validate_node L S ms ks = Inl e"
  shows "lib_error S e \<or> \<not> NDEBUG L \<and> e = assertion_failed"
proof (cases "collect_client_keys S ks []")
  case (Inl e')
  then show ?thesis
    using assms collect_client_keys_error [OF Inl] by (simp add: Validate_node_def split: if_splits)
next
  case (Inr km)
  have "QuorumSize \<le> length ks" using assms by (simp add: Validate_node_def split: if_splits)
  then have "ks \<noteq> []" by (auto simp: QuorumSize_def)
  from client_keys_not_Nil [OF Inr this] show ?thesis
    using assms Inr
    by (auto simp: Validate_node_def bindR_eq_Inl cpp_assert_def split: if_splits dest: verify_error)
qed

lemma parse_accounts_hd: "parse_accounts S (r # rs) = Inr xs \<Longrightarrow> parse_account S (payload r) = Inr (hd xs)"
  by (auto simp: bindR_eq_Inr)

lemma Resolve_group_error:
  assumes "Resolve_group S vs = Inl e"
  shows "lib_error S e \<or> e = undefined_behaviour \<and> vs \<noteq> [] \<and> tag_in (hd vs) = tag_AccountTransfer
    \<and> parse_account S (payload (hd vs)) = Inr None"
proof -
  have ne: "vs \<noteq> []" using assms by (auto simp: Resolve_group_def QuorumSize_def split: if_splits)
  have tag: "tag_in (hd vs) = tag_AccountTransfer" using assms by (auto simp: Resolve_group_def split: if_splits)
  show ?thesis
  proof (cases "parse_accounts S vs")
    case (Inl e')
    then show ?thesis using assms parse_accounts_error [OF Inl] by (auto simp: Resolve_group_def split: if_splits)
  next
    case (Inr accounts)
    then have first: "parse_account S (payload (hd vs)) = Inr (hd accounts)" using ne parse_accounts_hd by (cases vs) auto
    obtain h tg m where "hd vs = (h, tg, m)" by (cases "hd vs") auto
    with first tag Inr assms ne show ?thesis
      by (auto simp: Resolve_group_def bindR_eq_Inl lib_error_def split: if_splits option.splits)
  qed
qed

lemma resolve_node_error:
  assumes "acc_inv (node_accumulator st)" "resolve_node L S t st key ms ks = (st', Inl e)"
  shows "add_error L S evs e"
proof -
  obtain acc where "Accumulator_Delete (NDEBUG L) t (node_accumulator st) key = Inr acc"
    using store.del_law [OF assms(1)] by blast
  then show ?thesis
    using assms(2) by (auto simp: resolve_node_def bindR_eq_Inl add_error_def dest: Validate_node_error split: sum.splits option.splits)
qed

lemma resolve_group_error:
  assumes "acc_inv (group_accumulator st)" "senders_ok (group_entry evs n) ms" "resolve_group L S t st key ms ks = (st', Inl e)"
  shows "add_error L S evs e"
proof -
  obtain acc where "Accumulator_Delete (NDEBUG L) t (group_accumulator st) key = Inr acc"
    using store.del_law [OF assms(1)] by blast
  then consider "Validate_group L S ms ks = Inl e" | vs where "Validate_group L S ms ks = Inr vs" "Resolve_group S vs = Inl e"
    using assms(3) by (auto simp: resolve_group_def bindR_eq_Inl split: sum.splits option.splits)
  then show ?thesis
  proof cases
    case 1
    then show ?thesis using Validate_group_error [OF 1] by (auto simp: add_error_def)
  next
    case (2 vs)
    have "null_account S (hd vs) \<and> hd vs \<in> set evs"
      if ne: "vs \<noteq> []" and acc: "tag_in (hd vs) = tag_AccountTransfer" "parse_account S (payload (hd vs)) = Inr None"
    proof -
      obtain q where "vs = map snd (filter q ms)" using Validate_group_D(1) [OF 2(1) ne] by blast
      then have "hd vs \<in> snd ` set ms" using hd_in_set [OF ne] by auto
      then show ?thesis using assms(2) acc by (auto simp: senders_ok_def group_entry_def null_account_def)
    qed
    then show ?thesis using Resolve_group_error [OF 2(2)] unfolding add_error_def by blast
  qed
qed

lemma add_client_key_response_error:
  assumes inv: "sent_inv evs st" and g: "FromGroup (header_of r) = Some g"
    and add: "add_client_key_response L S now t st r = (st', Inl e)"
  shows "add_error L S evs e"
proof -
  obtain acc q where a: "Accumulator_Add (NDEBUG L) now (node_key_accumulator st) g r (FromNode (header_of r)) = Inr (acc, q)"
    using store.add_returns [OF sent_inv_accs(4) [OF inv]] by blast
  have i: "acc_inv (node_accumulator (st\<lparr>node_key_accumulator := acc\<rparr>))" using sent_inv_accs(1) [OF inv] by simp
  show ?thesis
    using add g a by (auto simp: add_client_key_response_def Let_def split: option.splits dest: resolve_node_error [OF i])
qed

lemma add_group_key_response_error:
  assumes inv: "sent_inv evs st" and g: "FromGroup (header_of r) = Some g"
    and add: "add_group_key_response L S now t st r = (st', Inl e)"
  shows "add_error L S evs e"
proof -
  obtain acc q where a: "Accumulator_Add (NDEBUG L) now (group_key_accumulator st) g r (FromNode (header_of r)) = Inr (acc, q)"
    using store.add_returns [OF sent_inv_accs(3) [OF inv]] by blast
  have i: "acc_inv (group_accumulator (st\<lparr>group_key_accumulator := acc\<rparr>))" using sent_inv_accs(2) [OF inv] by simp
  show ?thesis
    using add g a by (auto simp: add_group_key_response_def Let_def split: option.splits dest: resolve_group_error [OF i got_ok(1) [OF sent_inv_accs(2) [OF inv] sent_inv_held(2) [OF inv]]])
qed

lemma add_group_message_error:
  assumes inv: "sent_inv evs st" and r: "r \<in> set evs" "FromGroup (header_of r) = Some g"
    and add: "add_group_message L S now t st g r = (st', Inl e)"
  shows "add_error L S evs e"
proof -
  define key where "key = (g, h_message_id (header_of r))"
  define st0 where "st0 = (if HaveName (group_accumulator st) key then st
      else st\<lparr>requests := SendGetGroupKey g # requests st\<rparr>)"
  have i0: "sent_inv evs st0" using inv by (simp add: st0_def)
  have en: "group_entry evs key (FromNode (header_of r)) r" using r by (simp add: group_entry_def key_def)
  obtain acc q where a: "Accumulator_Add (NDEBUG L) now (group_accumulator st0) key r (FromNode (header_of r)) = Inr (acc, q)"
    using store.add_returns [OF sent_inv_accs(2) [OF i0]] by blast
  note i = sent_inv_accs(2) [OF sent_inv_group_add [OF i0 a en]]
  show ?thesis
    using add a unfolding add_group_message_def key_def [symmetric] Let_def st0_def [symmetric]
    by (auto split: option.splits dest: resolve_group_error [OF i added_ok(1) [OF sent_inv_accs(2) [OF i0] sent_inv_held(2) [OF i0] en]])
qed

text \<open>
  C18. How \<open>Add\<close> fails. A key response that does not come from a group is refused with a
  parsing error and changes nothing. Every other failure is one of three: an error of a function of the
  libraries or of an account class (parsing, checking a signature, merging, serialising an account);
  with assertions compiled in, a failed assertion about keys that disagree; or the null pointer of an
  account transfer from a group, one of the messages added so far, which \<open>Resolve\<close> dereferences. No
  iterator is dereferenced that is not valid, and no assertion of the accumulators fails. (A key that was
  parsed is taken to serialise, and the functions that request keys to return.)
\<close>

theorem sentinel_errors:
  assumes run: "sent_run L S evs st"
  shows "(tag_in r \<in> {tag_GetClientKeyResponse, tag_GetGroupKeyResponse} \<and> FromGroup (header_of r) = None
      \<longrightarrow> Sentinel_Add L S now t st r = (st, Inl parsing_error))
    \<and> (Sentinel_Add L S now t st r = (st', Inl e)
      \<and> \<not> (tag_in r \<in> {tag_GetClientKeyResponse, tag_GetGroupKeyResponse} \<and> FromGroup (header_of r) = None)
      \<longrightarrow> lib_error S e \<or> \<not> NDEBUG L \<and> e = assertion_failed
        \<or> e = undefined_behaviour \<and> (\<exists>x. x \<in> set (r # evs) \<and> null_account S x))"
proof -
  note i = sent_inv_more [OF sent_run_inv [OF run], of r]
  have m: "r \<in> set (r # evs)" by simp
  show ?thesis
  proof (cases "FromGroup (header_of r)")
    case None
    then show ?thesis
      using node_message_waits [OF i m None, of L S now t]
      by (auto simp: Sentinel_Add_def add_client_key_response_def add_group_key_response_def)
  next
    case (Some g)
    have "add_error L S (r # evs) e" if "Sentinel_Add L S now t st r = (st', Inl e)"
      using that Some add_client_key_response_error [OF i Some, of L S now t st' e]
        add_group_key_response_error [OF i Some, of L S now t st' e]
        add_group_message_error [OF i m Some, of L S now t st' e]
      by (auto simp: Sentinel_Add_def split: if_splits)
    with Some show ?thesis unfolding add_error_def by simp
  qed
qed

lemma resolve_node_requests: "resolve_node L S t st key ms ks = (st', res) \<Longrightarrow> requests st' = requests st"
  by (auto simp: resolve_node_def split: sum.splits option.splits)

lemma resolve_group_requests: "resolve_group L S t st key ms ks = (st', res) \<Longrightarrow> requests st' = requests st"
  by (auto simp: resolve_group_def split: sum.splits option.splits)

lemma resolve_group_unresolved:
  "resolve_group L S t st key ms ks = (st', Inr None) \<Longrightarrow> st' = st"
  by (auto simp: resolve_group_def split: sum.splits option.splits)

lemma resolve_node_unresolved:
  "resolve_node L S t st key ms ks = (st', Inr None) \<Longrightarrow> st' = st"
  by (auto simp: resolve_node_def split: sum.splits option.splits)

text \<open>The store of a message and the request for its keys\<close>

definition pending :: "('a::linorder, 's) Sentinel \<Rightarrow> ('a, 's) ResultType \<Rightarrow> bool" where
  "pending st r = (case FromGroup (header_of r) of
     Some g \<Rightarrow> HaveName (group_accumulator st) (g, h_message_id (header_of r))
   | None \<Rightarrow> HaveName (node_accumulator st) (FromNode (header_of r), h_message_id (header_of r)))"

definition key_request_for :: "('a, 's) ResultType \<Rightarrow> 'a key_request" where
  "key_request_for r = (case FromGroup (header_of r) of
     Some g \<Rightarrow> SendGetGroupKey g | None \<Rightarrow> SendGetClientKey (FromNode (header_of r)))"

definition is_key_response :: "('a, 's) ResultType \<Rightarrow> bool" where
  "is_key_response r \<longleftrightarrow> tag_in r \<in> {tag_GetClientKeyResponse, tag_GetGroupKeyResponse}"

lemma add_group_message_requests:
  assumes inv: "sent_inv evs st" and r: "r \<in> set evs" "FromGroup (header_of r) = Some g"
    and add: "add_group_message L S now t st g r = (st', res)"
  shows "requests st' = (if pending st r then requests st else key_request_for r # requests st)"
    and "res = Inr None \<Longrightarrow> pending st' r"
proof -
  define key where "key = (g, h_message_id (header_of r))"
  define st0 where "st0 = (if HaveName (group_accumulator st) key then st
      else st\<lparr>requests := SendGetGroupKey g # requests st\<rparr>)"
  have req: "requests st0 = (if pending st r then requests st else key_request_for r # requests st)"
    using r(2) by (simp add: st0_def pending_def key_request_for_def key_def)
  have i0: "sent_inv evs st0" using inv by (simp add: st0_def)
  note i = sent_inv_accs(2) [OF i0]
  obtain acc q where a: "Accumulator_Add (NDEBUG L) now (group_accumulator st0) key r (FromNode (header_of r)) = Inr (acc, q)"
    using store.add_returns [OF i] by blast
  have have_it: "HaveName acc key"
    using store.have_law [OF store.add_D(1) [OF i a]] store.add_D(3) [OF i a] by simp
  show "requests st' = (if pending st r then requests st else key_request_for r # requests st)"
    using add a unfolding req [symmetric] add_group_message_def key_def [symmetric] Let_def st0_def [symmetric]
    by (auto split: option.splits dest!: resolve_group_requests)
  show "pending st' r" if "res = Inr None"
    using add a have_it r(2) that unfolding add_group_message_def key_def [symmetric] Let_def st0_def [symmetric]
    by (auto simp: pending_def key_def split: option.splits dest!: resolve_group_unresolved)
qed

lemma add_node_message_requests:
  assumes inv: "sent_inv evs st" and r: "r \<in> set evs" "FromGroup (header_of r) = None"
    and add: "add_node_message L S now t st r = (st', res)"
  shows "requests st' = (if pending st r then requests st else key_request_for r # requests st)"
    and "pending st' r"
proof -
  define key where "key = (FromNode (header_of r), h_message_id (header_of r))"
  define st0 where "st0 = (if HaveName (node_accumulator st) key then st
      else st\<lparr>requests := SendGetClientKey (FromNode (header_of r)) # requests st\<rparr>)"
  have req: "requests st0 = (if pending st r then requests st else key_request_for r # requests st)"
    using r(2) by (simp add: st0_def pending_def key_request_for_def key_def)
  have i0: "sent_inv evs st0" using inv by (simp add: st0_def)
  note i = sent_inv_accs(1) [OF i0]
  obtain acc q where a: "Accumulator_Add (NDEBUG L) now (node_accumulator st0) key r (FromNode (header_of r)) = Inr (acc, q)"
    using store.add_returns [OF i] by blast
  have have_it: "HaveName acc key"
    using store.have_law [OF store.add_D(1) [OF i a]] store.add_D(3) [OF i a] by simp
  have none: "res = Inr None" using node_message_waits [OF inv r, of L S now t] add by auto
  show "requests st' = (if pending st r then requests st else key_request_for r # requests st)"
    using add a unfolding req [symmetric] add_node_message_def Let_def key_def [symmetric] st0_def [symmetric]
    by (auto split: option.splits dest!: resolve_node_requests)
  show "pending st' r"
    using add a have_it r(2) none unfolding add_node_message_def Let_def key_def [symmetric] st0_def [symmetric]
    by (auto simp: pending_def key_def split: option.splits dest!: resolve_node_unresolved)
qed

lemma key_response_requests:
  "add_client_key_response L S now t st r = (st', res) \<Longrightarrow> requests st' = requests st"
  "add_group_key_response L S now t st r = (st', res) \<Longrightarrow> requests st' = requests st"
  by (auto simp: add_client_key_response_def add_group_key_response_def Let_def
      split: option.splits sum.splits dest!: resolve_node_requests resolve_group_requests)

text \<open>
  C19. Keys are asked for once. A message asks for its sender's keys exactly when nothing is
  kept yet under its sender and message id, a key response asks for nothing, and a message that
  was not resolved is kept, so that the next part of it does not ask again.
\<close>

theorem sentinel_requests_once:
  assumes run: "sent_run L S evs st" and add: "Sentinel_Add L S now t st r = (st', res)"
  shows "requests st' = (if is_key_response r \<or> pending st r then requests st
      else key_request_for r # requests st)
    \<and> (\<not> is_key_response r \<and> res = Inr None \<longrightarrow> pending st' r)"
proof -
  note i = sent_inv_more [OF sent_run_inv [OF run], of r]
  have m: "r \<in> set (r # evs)" by simp
  show ?thesis
  proof (cases "is_key_response r")
    case True
    then have "add_client_key_response L S now t st r = (st', res) \<or> add_group_key_response L S now t st r = (st', res)"
      using add by (auto simp: Sentinel_Add_def is_key_response_def)
    with True key_response_requests show ?thesis by metis
  next
    case False
    then have d: "case FromGroup (header_of r) of Some g \<Rightarrow> add_group_message L S now t st g r = (st', res)
        | None \<Rightarrow> add_node_message L S now t st r = (st', res)"
      using add by (auto simp: Sentinel_Add_def is_key_response_def split: option.splits)
    show ?thesis
    proof (cases "FromGroup (header_of r)")
      case None
      with d have "add_node_message L S now t st r = (st', res)" by simp
      from add_node_message_requests [OF i m None this] False show ?thesis by simp
    next
      case (Some g)
      with d have "add_group_message L S now t st g r = (st', res)" by simp
      from add_group_message_requests [OF i m Some this] False show ?thesis by simp
    qed
  qed
qed

lemma verify_all:
  "(\<And>s x. (s, x) \<in> set ms \<Longrightarrow> verified S key_for x) \<Longrightarrow> verify S key_for ms = Inr (map snd ms)"
proof (induction ms)
  case (Cons m ms)
  obtain s x where m: "m = (s, x)" by (cases m)
  have "verified S key_for x" using Cons.prems [of s x] by (simp add: m)
  moreover have "verify S key_for ms = Inr (map snd ms)"
    by (rule Cons.IH, rule Cons.prems) (rule list.set_intros(2))
  ultimately show ?case by (auto simp: m verified_def signed_with_def)
qed simp

lemma Resolve_group_agree:
  assumes "QuorumSize \<le> length vs" "\<And>x. x \<in> set vs \<Longrightarrow> payload x = msg \<and> tag_in x \<noteq> tag_AccountTransfer"
  shows "\<exists>res. Resolve_group S vs = Inr (Some res) \<and> payload res = msg \<and> res \<in> set vs"
proof -
  obtain v vs' where vs: "vs = v # vs'" using assms(1) by (cases vs) (auto simp: QuorumSize_def)
  have "filter (\<lambda>r. payload r = payload v) vs = vs" using assms(2) vs by (auto simp: filter_id_conv)
  then have "find (\<lambda>m. length (filter (\<lambda>r. payload r = payload m) vs) \<ge> QuorumSize) vs = Some v"
    using assms(1) unfolding vs by simp
  moreover have "tag_in (hd vs) \<noteq> tag_AccountTransfer" "payload v = msg" using assms(2) [of v] vs by simp_all
  ultimately show ?thesis using assms(1) vs by (simp add: Resolve_group_def)
qed

text \<open>The next sender of a name that is kept\<close>

lemma add_last:
  assumes inv: "acc_inv acc" and ms: "GetAll acc n = Some (n', ms)" "s \<notin> fst ` set ms"
  shows "\<exists>acc' m. Accumulator_Add nd now acc n v s
      = Inr (acc', if unat (quorum acc) \<le> Suc (length ms) then Some (n, m) else None)
    \<and> acc_inv acc' \<and> length m = Suc (length ms) \<and> set m = insert (s, v) (set ms)"
proof -
  have held: "held acc n = Some (map_of ms)" and wf: "smap_wf (<) ms"
    using store.get_law [OF inv, of n] ms(1) by auto
  have new: "map_of ms s = None" using ms(2) by (simp add: map_of_eq_None_iff)
  obtain acc' m where a: "Accumulator_Add nd now acc n v s
      = Inr (acc', if unat (quorum acc) \<le> length m then Some (n, m) else None)" "acc_inv acc'" "smap_wf (<) m"
    "map_of m = (map_of ms)(s \<mapsto> v)"
    using store.add_law [OF inv, of nd now n v s] new unfolding held put_first_def by auto
  have dist: "distinct (map fst m)" "distinct (map fst ms)" using std_less.smap_wf_distinct a(3) wf by auto
  have mem: "(x, y) \<in> set m \<longleftrightarrow> (x, y) \<in> insert (s, v) (set ms)" for x y
    using map_of_eq_Some_iff [OF dist(1), of x y] map_of_eq_Some_iff [OF dist(2), of x y] new unfolding a(4)
    by (cases "x = s") auto
  then have set_m: "set m = insert (s, v) (set ms)" by auto
  have "length m = Suc (length ms)"
    using ms(2) distinct_card [OF dist(1)] distinct_card [OF dist(2)] by (simp add: set_m)
  then show ?thesis using a(1,2) set_m by auto
qed

lemma group_message_resolves:
  assumes run: "sent_run L S evs st" and r: "\<not> is_key_response r" "FromGroup (header_of r) = Some g"
    and key: "key = (g, h_message_id (header_of r))"
    and ks: "GetAll (group_key_accumulator st) g = Some (g, ks)" "QuorumSize \<le> length ks"
      "collect_group_keys S ks [] = Inr km" "NDEBUG L \<or> list_all (\<lambda>(_, k). length k = 1) km"
    and ms: "GetAll (group_accumulator st) key = Some (key, ms)" "FromNode (header_of r) \<notin> fst ` set ms"
      "QuorumSize \<le> Suc (length ms)"
    and good: "\<And>x. x \<in> insert r (snd ` set ms) \<Longrightarrow> payload x = payload r \<and> tag_in x \<noteq> tag_AccountTransfer
      \<and> verified S (group_key_for L km) x"
  shows "\<exists>st' res. Sentinel_Add L S now t st r = (st', Inr (Some res)) \<and> payload res = payload r
    \<and> res \<in> insert r (snd ` set ms) \<and> \<not> HaveName (group_accumulator st') key"
proof -
  have inv: "acc_inv (group_accumulator st)" "unat (quorum (group_accumulator st)) = QuorumSize"
    using sent_run_inv [OF run] by (simp_all add: sent_inv_def QuorumSize_def)
  obtain acc m where a: "Accumulator_Add (NDEBUG L) now (group_accumulator st) key r (FromNode (header_of r))
      = Inr (acc, Some (key, m))" "acc_inv acc" "length m = Suc (length ms)"
    "set m = insert (FromNode (header_of r), r) (set ms)"
    using add_last [OF inv(1) ms(1,2), of "NDEBUG L" now r] ms(3) unfolding inv(2) by auto
  have len: "QuorumSize \<le> length m" using a(3) ms(3) by simp
  have parts: "x \<in> insert r (snd ` set ms)" if "(s', x) \<in> set m" for s' x
    using that unfolding a(4) by force
  have "verify S (group_key_for L km) m = Inr (map snd m)" using verify_all parts good by meson
  then have v: "Validate_group L S m ks = Inr (map snd m)"
    using len ks(2-4) by (auto simp: Validate_group_def cpp_assert_def)
  have agree: "payload x = payload r \<and> tag_in x \<noteq> tag_AccountTransfer" if "x \<in> set (map snd m)" for x
    using that parts good by fastforce
  have "QuorumSize \<le> length (map snd m)" using len by simp
  from Resolve_group_agree [OF this agree, of S]
  obtain res where res: "Resolve_group S (map snd m) = Inr (Some res)" "payload res = payload r"
    "res \<in> set (map snd m)" by blast
  have from_parts: "res \<in> insert r (snd ` set ms)" using res(3) unfolding set_map a(4) by simp
  obtain acc2 where d: "Accumulator_Delete (NDEBUG L) t acc key = Inr acc2" "acc_inv acc2" "held acc2 key = None"
    using store.del_law [OF a(2), of "NDEBUG L" t key] by auto
  have "HaveName (group_accumulator st) key" using store.have_law [OF inv(1)] store.get_law [OF inv(1), of key] ms(1) by auto
  then have "Sentinel_Add L S now t st r = (st\<lparr>group_accumulator := acc2\<rparr>, Inr (Some res))"
    using r a(1) ks(1) v res(1) d(1)
    by (simp add: Sentinel_Add_def is_key_response_def add_group_message_def resolve_group_def key [symmetric])
  moreover have "\<not> HaveName acc2 key" using store.have_law [OF d(2)] d(3) by simp
  ultimately show ?thesis using res(2) from_parts by simp
qed

lemma collect_same_key:
  assumes "\<And>s x. (s, x) \<in> set ms \<Longrightarrow> \<exists>kr. parse_client_key S (payload x) = Inr kr \<and> gckr_address kr = a \<and> gckr_public_key kr = k"
  shows "collect_client_keys S ms [(a, [k])] = Inr [(a, [k])]"
    and "ms \<noteq> [] \<Longrightarrow> collect_client_keys S ms [] = Inr [(a, [k])]"
proof -
  show 1: "collect_client_keys S ms [(a, [k])] = Inr [(a, [k])]"
    using assms
  proof (induction ms)
    case (Cons m ms)
    obtain s x where m: "m = (s, x)" by (cases m)
    obtain kr where "parse_client_key S (payload x) = Inr kr" "gckr_address kr = a" "gckr_public_key kr = k"
      using Cons.prems [of s x] by (auto simp: m)
    moreover have "add_key S a k [(a, [k])] = [(a, [k])]" by (simp add: add_key_def)
    moreover have "collect_client_keys S ms [(a, [k])] = Inr [(a, [k])]"
      by (rule Cons.IH, rule Cons.prems) (rule list.set_intros(2))
    ultimately show ?case by (simp add: m)
  qed simp
  assume "ms \<noteq> []"
  then obtain s x ms' where ms: "ms = (s, x) # ms'" by (cases ms) auto
  obtain kr where kr: "parse_client_key S (payload x) = Inr kr" "gckr_address kr = a" "gckr_public_key kr = k"
    using assms [of s x] by (auto simp: ms)
  have "collect_client_keys S ((s, x) # ms') [(a, [k])] = collect_client_keys S ms' [(a, [k])]"
    using kr by (simp add: add_key_def)
  then show "collect_client_keys S ms [] = Inr [(a, [k])]" using kr 1 by (simp add: ms add_key_def)
qed

lemma node_message_resolves:
  assumes run: "sent_run L S evs st" and r: "tag_in r = tag_GetClientKeyResponse" "FromGroup (header_of r) = Some g"
    and key: "key = (g, h_message_id (header_of r))"
    and ms: "GetAll (node_accumulator st) key = Some (key, ms)"
    and ks: "GetAll (node_key_accumulator st) g = Some (g, ks)" "FromNode (header_of r) \<notin> fst ` set ks"
      "QuorumSize \<le> Suc (length ks)"
    and same: "\<And>x. x \<in> insert r (snd ` set ks) \<Longrightarrow>
      \<exists>kr. parse_client_key S (payload x) = Inr kr \<and> gckr_address kr = a \<and> gckr_public_key kr = k"
    and good: "ValidateKey L k" "\<And>x. x \<in> snd ` set ms \<Longrightarrow> signed_with S x k"
  shows "\<exists>st' res. Sentinel_Add L S now t st r = (st', Inr (Some res)) \<and> res \<in> snd ` set ms
    \<and> \<not> HaveName (node_accumulator st') key"
proof -
  have inv: "acc_inv (node_key_accumulator st)" "unat (quorum (node_key_accumulator st)) = QuorumSize"
    "acc_inv (node_accumulator st)"
    using sent_run_inv [OF run] by (simp_all add: sent_inv_def QuorumSize_def)
  obtain acc m where b: "Accumulator_Add (NDEBUG L) now (node_key_accumulator st) g r (FromNode (header_of r))
      = Inr (acc, Some (g, m))" "length m = Suc (length ks)" "set m = insert (FromNode (header_of r), r) (set ks)"
    using add_last [OF inv(1) ks(1,2), of "NDEBUG L" now r] ks(3) unfolding inv(2) by auto
  have len: "QuorumSize \<le> length m" "m \<noteq> []" using b(2) ks(3) by auto
  have "collect_client_keys S m [] = Inr [(a, [k])]"
  proof (rule collect_same_key(2) [OF _ len(2)])
    show "\<exists>kr. parse_client_key S (payload x) = Inr kr \<and> gckr_address kr = a \<and> gckr_public_key kr = k"
      if "(s, x) \<in> set m" for s x
      using that b(3) by (intro same) force
  qed
  moreover have "verify S (\<lambda>_. Some k) ms = Inr (map snd ms)"
    using good(2) by (intro verify_all) (force simp: verified_def)
  moreover have ne: "ms \<noteq> []" 
    using ms acc_inv_senders [OF inv(3), of key]
    by (auto simp: GetAll_def std_less.smap_find_map_of split: option.splits)
  ultimately have v: "Validate_node L S ms m = Inr (map snd ms)"
    using len good(1) by (auto simp: Validate_node_def Suc_le_eq)
  obtain acc2 where d: "Accumulator_Delete (NDEBUG L) t (node_accumulator st) key = Inr acc2" "acc_inv acc2" "held acc2 key = None"
    using store.del_law [OF inv(3), of "NDEBUG L" t key] by auto
  have "Sentinel_Add L S now t st r = (st\<lparr>node_key_accumulator := acc, node_accumulator := acc2\<rparr>, Inr (Some (snd (hd ms))))"
    using r b(1) ms v d(1) ne
    by (cases ms) (simp_all add: Sentinel_Add_def add_client_key_response_def resolve_node_def Resolve_single_def key [symmetric])
  moreover have "\<not> HaveName acc2 key" using store.have_law [OF d(2)] d(3) by simp
  moreover have "snd (hd ms) \<in> snd ` set ms" using ne by simp
  ultimately show ?thesis by simp
qed

subsection \<open>Answers on the wire\<close>

lemma parse_body_enc: "codec_ok c \<Longrightarrow> parse_body c (enc c x) = Inr x"
  using codec_asD [of "\<lambda>x. x" c x "[]"] by (simp add: parse_body_def)

lemma wire_sentinel_parse:
  assumes "prims_ok P"
  shows "parse_client_key (wire_sentinel moved P S) (enc (GetClientKeyResponse_serialize P) x) =
      Inr (received_key_response moved x)"
    "parse_group_key (wire_sentinel moved P S) (enc (GetGroupKeyResponse_serialize P) y) = Inr y"
  using assms by (simp_all add: wire_sentinel_def parse_body_enc codec_ok_GetClientKeyResponse codec_ok_GetGroupKeyResponse)

lemma received_key [simp]: "gckr_public_key (received_key_response moved m) = gckr_public_key m"
  by (simp add: received_key_response_def GetClientKeyResponse_move_def split: option.split)

text \<open>
  When the move is not left out, all answers seem to be about one address, whatever addresses they
  name: the check that they are about the same node has no effect.
\<close>

lemma moved_answers_share_address:
  "parse_client_key (wire_sentinel (Some d) P S) bytes = Inr m \<Longrightarrow> gckr_address m = d"
  by (auto simp: wire_sentinel_def received_key_response_def GetClientKeyResponse_move_def
      bindR_def split: sum.splits)

text \<open>Answers that agree on the keys: each address that one of them lists has exactly its key in the map.\<close>

definition agreed :: "('a::linorder \<Rightarrow> 'k) \<Rightarrow> 'a set \<Rightarrow> ('a, 'k list) smap \<Rightarrow> bool" where
  "agreed key listed km \<longleftrightarrow> smap_wf (<) km \<and> (\<forall>a. map_of km a = (if a \<in> listed then Some [key a] else None))"

lemma add_key_agreed:
  "agreed key listed km \<Longrightarrow> agreed key (insert a listed) (add_key S a (key a) km)"
  by (auto simp: agreed_def add_key_def std_less.smap_find_map_of std_less.smap_wf_insert std_less.map_of_smap_insert)

lemma add_keys_agreed:
  assumes "agreed key listed km" "\<And>a k. (a, k) \<in> set aks \<Longrightarrow> k = key a"
  shows "agreed key (listed \<union> fst ` set aks) (fold (\<lambda>(a, k) m. add_key S a k m) aks km)"
  using assms
proof (induction aks arbitrary: listed km)
  case (Cons ak aks)
  define a where "a = fst ak"
  then have ak: "ak = (a, key a)" using Cons.prems(2) [of "fst ak" "snd ak"] by (cases ak) simp
  have "agreed key (insert a listed \<union> fst ` set aks) (fold (\<lambda>(a, k) m. add_key S a k m) aks (add_key S a (key a) km))"
    by (rule Cons.IH [OF add_key_agreed [OF Cons.prems(1)]]) (rule Cons.prems(2), simp)
  then show ?case by (simp add: ak)
qed simp

lemma collect_group_keys_agreed:
  assumes "agreed key listed km"
    "\<And>x. x \<in> snd ` set ks \<Longrightarrow> \<exists>resp. parse_group_key S (payload x) = Inr resp
      \<and> fst ` set (ggkr_public_keys resp) = answer x \<and> (\<forall>(a, k) \<in> set (ggkr_public_keys resp). k = key a)"
  shows "\<exists>km'. collect_group_keys S ks km = Inr km' \<and> agreed key (listed \<union> \<Union> (answer ` snd ` set ks)) km'"
  using assms
proof (induction ks arbitrary: listed km)
  case (Cons x0 ks)
  obtain a x where x0: "x0 = (a, x)" by (cases x0)
  obtain resp where resp: "parse_group_key S (payload x) = Inr resp" "fst ` set (ggkr_public_keys resp) = answer x"
    "\<forall>(a, k) \<in> set (ggkr_public_keys resp). k = key a"
    using Cons.prems(2) [of x] by (auto simp: x0)
  have "agreed key (listed \<union> answer x) (fold (\<lambda>(a, k) m. add_key S a k m) (ggkr_public_keys resp) km)"
    using add_keys_agreed [OF Cons.prems(1), of "ggkr_public_keys resp" S] resp(2,3) by auto
  then have "\<exists>km'. collect_group_keys S ks (fold (\<lambda>(a, k) m. add_key S a k m) (ggkr_public_keys resp) km) = Inr km'
      \<and> agreed key ((listed \<union> answer x) \<union> \<Union> (answer ` snd ` set ks)) km'"
    by (rule Cons.IH) (rule Cons.prems(2), simp)
  then show ?case by (simp add: x0 resp(1) Un_assoc)
qed simp

lemma agreed_single: "agreed key listed km \<Longrightarrow> list_all (\<lambda>(_, k). length k = 1) km"
  unfolding agreed_def list_all_iff
  by (auto dest!: std_less.smap_wf_distinct map_of_is_SomeI) (metis length_Cons list.size(3) option.distinct(1) option.inject)

lemma agreed_verified:
  assumes "agreed key listed km" "FromNode (header_of x) \<in> listed" "ValidateKey L (key (FromNode (header_of x)))"
    "signed_with S x (key (FromNode (header_of x)))"
  shows "verified S (group_key_for L km) x"
  using assms by (auto simp: agreed_def verified_def group_key_for_def std_less.smap_find_map_of)

subsection \<open>A small network\<close>

text \<open>
  A group at the address 7 whose nodes are 1, 2, 3 and so on. A node's key and its signatures
  are its own number. A node's answer gives its own key for the group, and the key 1 for a client.
\<close>

definition ex_lib :: "(nat, nat, nat) lib" where
  "ex_lib = \<lparr>NDEBUG = False, IsInitialised = (\<lambda>a. a \<noteq> 0), CloserToTarget = (\<lambda>a b t. a < b),
     CommonLeadingBits = (\<lambda>a b. 0), fob_name = (\<lambda>f. f), fob_public_key = (\<lambda>f. f), ValidateKey = (\<lambda>k. True)\<rparr>"

definition ex_sentinel_lib :: "(nat, nat, nat, nat) sentinel_lib" where
  "ex_sentinel_lib = \<lparr>parse_client_key = parse_body (GetClientKeyResponse_serialize nat_prims),
     parse_group_key = parse_body (GetGroupKeyResponse_serialize nat_prims),
     serialise_key = (\<lambda>k. [of_nat k]), CheckSignature = (\<lambda>m s k. Inr (s = k)),
     parse_account = (\<lambda>m. Inr (Some 0)), Merge = (\<lambda>i is'. Inr None), serialise_account = (\<lambda>i. Inr [])\<rparr>"

definition ex_group_header :: "nat \<Rightarrow> (nat, nat) MessageHeader" where
  "ex_group_header i = \<lparr>h_destination = (9, None), h_source = \<lparr>node_address = i, group_address = Some 7,
     reply_to_address = None\<rparr>, h_message_id = 5, h_authority = nae_manager, h_signature = Some i\<rparr>"

definition ex_node_header :: "(nat, nat) MessageHeader" where
  "ex_node_header = \<lparr>h_destination = (9, None), h_source = \<lparr>node_address = 7, group_address = None,
     reply_to_address = None\<rparr>, h_message_id = 5, h_authority = node, h_signature = Some 1\<rparr>"

definition ex_part :: "nat \<Rightarrow> (nat, nat) ResultType" where
  "ex_part i = (ex_group_header i, tag_PutData, [1])"

definition ex_group_key :: "nat \<Rightarrow> (nat, nat) ResultType" where
  "ex_group_key i = (ex_group_header i, tag_GetGroupKeyResponse,
     enc (GetGroupKeyResponse_serialize nat_prims) \<lparr>ggkr_public_keys = [(i, i)], ggkr_target_id = 7\<rparr>)"

definition ex_client_key :: "nat \<Rightarrow> (nat, nat) ResultType" where
  "ex_client_key i = (ex_group_header i, tag_GetClientKeyResponse,
     enc (GetClientKeyResponse_serialize nat_prims) \<lparr>gckr_address = 1, gckr_public_key = 1\<rparr>)"

definition ex_node_message :: "(nat, nat) ResultType" where
  "ex_node_message = (ex_node_header, tag_PutData, [2])"

lemma ex_parse:
  "parse_client_key ex_sentinel_lib (enc (GetClientKeyResponse_serialize nat_prims) x) = Inr x"
  "parse_group_key ex_sentinel_lib (enc (GetGroupKeyResponse_serialize nat_prims) y) = Inr y"
  by (simp_all add: ex_sentinel_lib_def parse_body_enc codec_ok_GetClientKeyResponse codec_ok_GetGroupKeyResponse nat_prims_ok)

definition feed :: "(nat, nat) ResultType list \<Rightarrow> (nat, nat) Sentinel" where
  "feed rs = foldr (\<lambda>r st. fst (Sentinel_Add ex_lib ex_sentinel_lib (\<lambda>_. 0) 0 st r)) rs Sentinel_new"

lemma feed_run: "sent_run ex_lib ex_sentinel_lib rs (feed rs)"
proof (induction rs)
  case Nil
  show ?case by (simp add: feed_def sent_new)
next
  case (Cons r rs)
  have "feed (r # rs) = fst (Sentinel_Add ex_lib ex_sentinel_lib (\<lambda>_. 0) 0 (feed rs) r)" by (simp add: feed_def)
  then show ?case using sent_add [OF Cons, where now = "\<lambda>_. 0" and t = 0 and r = r] by (metis prod.collapse)
qed


text \<open>What is kept after the nodes \<open>ns\<close> have each sent one value under one name\<close>

definition kept :: "('n::linorder, 'v, nat) Accumulator \<Rightarrow> 'n \<Rightarrow> (nat \<Rightarrow> 'v) \<Rightarrow> nat list \<Rightarrow> bool" where
  "kept acc n val ns \<longleftrightarrow> acc_inv acc \<and> unat (quorum acc) = QuorumSize \<and> distinct ns
     \<and> held acc n = (if ns = [] then None else Some (\<lambda>i. if i \<in> set ns then Some (val i) else None))"

lemma kept_senders:
  assumes "kept acc n val ns" "ns \<noteq> []"
  shows "\<exists>ms. GetAll acc n = Some (n, ms) \<and> set ms = (\<lambda>i. (i, val i)) ` set ns \<and> smap_wf (<) ms \<and> length ms = length ns"
proof -
  have inv: "acc_inv acc" using assms(1) by (simp add: kept_def)
  obtain ms where ms: "GetAll acc n = Some (n, ms)" "smap_wf (<) ms"
    "map_of ms = (\<lambda>i. if i \<in> set ns then Some (val i) else None)"
    using store.get_law [OF inv, of n] assms by (auto simp: kept_def)
  have d: "distinct (map fst ms)" by (rule std_less.smap_wf_distinct [OF ms(2)])
  have "(i, v) \<in> set ms \<longleftrightarrow> i \<in> set ns \<and> v = val i" for i v
    using map_of_eq_Some_iff [OF d, of i v] by (auto simp: ms(3) split: if_splits)
  then have set_ms: "set ms = (\<lambda>i. (i, val i)) ` set ns" by auto
  have "fst ` set ms = set ns" unfolding set_ms by force
  then have "length ms = length ns"
    using distinct_card [OF d] distinct_card [of ns] assms(1) by (simp add: kept_def)
  with ms set_ms show ?thesis by blast
qed

lemma kept_add:
  assumes "kept acc n val ns" "i \<notin> set ns"
  shows "\<exists>acc' q. Accumulator_Add nd now acc n (val i) i = Inr (acc', q) \<and> kept acc' n val (i # ns)
    \<and> (Suc (length ns) < QuorumSize \<longrightarrow> q = None)"
proof -
  have inv: "acc_inv acc" using assms(1) by (simp add: kept_def)
  obtain acc' m where a: "Accumulator_Add nd now acc n (val i) i
      = Inr (acc', if unat (quorum acc) \<le> length m then Some (n, m) else None)"
    "acc_inv acc'" "unat (quorum acc') = unat (quorum acc)" "smap_wf (<) m" "held acc' n = Some (map_of m)"
    "map_of m = put_first i (val i) (held acc n)"
    using store.add_law [OF inv, of nd now n "val i" i] by blast
  have m: "map_of m = (\<lambda>j. if j \<in> set (i # ns) then Some (val j) else None)"
    using assms unfolding a(6) by (auto simp: kept_def put_first_def fun_eq_iff)
  have k: "kept acc' n val (i # ns)" using a assms m by (simp add: kept_def)
  obtain ms where "GetAll acc' n = Some (n, ms)" "smap_wf (<) ms" "length ms = Suc (length ns)"
    using kept_senders [OF k] by auto
  moreover have "GetAll acc' n = Some (n, ms) \<Longrightarrow> map_of ms = map_of m" for ms
    using store.get_law [OF a(2), of n] a(5) by auto
  moreover have "map_of xs = map_of ys \<Longrightarrow> smap_wf (<) xs \<Longrightarrow> smap_wf (<) ys \<Longrightarrow> length xs = length ys"
    for xs ys :: "(nat, 'b) smap"
    using std_less.smap_wf_distinct [of xs] std_less.smap_wf_distinct [of ys]
    by (metis distinct_card dom_map_of_conv_image_fst length_map list.set_map)
  ultimately have "length m = Suc (length ns)" using a(4) by metis
  then show ?thesis using a(1) k assms(1) by (auto simp: kept_def)
qed

lemma feed_Cons: "feed (r # rs) = fst (Sentinel_Add ex_lib ex_sentinel_lib (\<lambda>_. 0) 0 (feed rs) r)"
  by (simp add: feed_def)

lemmas ex_simps = ex_group_key_def ex_client_key_def ex_part_def ex_node_message_def ex_group_header_def
  ex_node_header_def FromNode_def FromGroup_def

lemma feed_group_keys:
  assumes "distinct ns"
  shows "kept (group_key_accumulator (feed (map ex_group_key ns))) 7 ex_group_key ns
    \<and> kept (group_accumulator (feed (map ex_group_key ns))) (7, 5) ex_part []"
  using assms
proof (induction ns)
  case Nil
  show ?case by (simp add: feed_def kept_def Sentinel_new_def acc_inv_new QuorumSize_def)
next
  case (Cons i ns)
  define st where "st = feed (map ex_group_key ns)"
  have k: "kept (group_key_accumulator st) 7 ex_group_key ns" "kept (group_accumulator st) (7, 5) ex_part []"
    using Cons by (simp_all add: st_def)
  obtain acc q where a: "Accumulator_Add (NDEBUG ex_lib) (\<lambda>_. 0) (group_key_accumulator st) 7 (ex_group_key i) i = Inr (acc, q)"
    "kept acc 7 ex_group_key (i # ns)"
    using kept_add [OF k(1), of i "NDEBUG ex_lib" "\<lambda>_. 0"] Cons.prems by auto
  have "GetAll (group_accumulator st) (7, 5) = None"
    using k(2) store.get_law [of "group_accumulator st" "(7, 5)"] by (auto simp: kept_def)
  then have "feed (map ex_group_key (i # ns)) = st\<lparr>group_key_accumulator := acc\<rparr>"
    using a(1) by (simp add: feed_Cons st_def [symmetric])
      (auto simp: Sentinel_Add_def add_group_key_response_def ex_simps split: option.splits)
  with a(2) k(2) show ?case by simp
qed

lemma feed_parts:
  assumes "distinct ns" "length ns < QuorumSize" "distinct ks"
  shows "kept (group_key_accumulator (feed (map ex_part ns @ map ex_group_key ks))) 7 ex_group_key ks
    \<and> kept (group_accumulator (feed (map ex_part ns @ map ex_group_key ks))) (7, 5) ex_part ns"
  using assms(1,2)
proof (induction ns)
  case Nil
  show ?case using feed_group_keys [OF assms(3)] by simp
next
  case (Cons i ns)
  define st where "st = feed (map ex_part ns @ map ex_group_key ks)"
  have k: "kept (group_key_accumulator st) 7 ex_group_key ks" "kept (group_accumulator st) (7, 5) ex_part ns"
    using Cons by (simp_all add: st_def)
  obtain acc where a: "Accumulator_Add (NDEBUG ex_lib) (\<lambda>_. 0) (group_accumulator st) (7, 5) (ex_part i) i = Inr (acc, None)"
    "kept acc (7, 5) ex_part (i # ns)"
    using kept_add [OF k(2), of i "NDEBUG ex_lib" "\<lambda>_. 0"] Cons.prems by auto
  have f: "feed (map ex_part (i # ns) @ map ex_group_key ks) = fst (Sentinel_Add ex_lib ex_sentinel_lib (\<lambda>_. 0) 0 st (ex_part i))"
    by (simp add: feed_Cons st_def)
  have "group_accumulator (feed (map ex_part (i # ns) @ map ex_group_key ks)) = acc"
    "group_key_accumulator (feed (map ex_part (i # ns) @ map ex_group_key ks)) = group_key_accumulator st"
    using a(1) unfolding f by (simp_all add: Sentinel_Add_def add_group_message_def ex_simps Let_def)
  with a(2) k(1) show ?case by simp
qed

lemma collect_increasing:
  assumes "sorted_wrt (<) ns" "\<And>k i. k \<in> fst ` set km \<Longrightarrow> i \<in> set ns \<Longrightarrow> k < i"
  shows "collect_group_keys ex_sentinel_lib (map (\<lambda>i. (i, ex_group_key i)) ns) km = Inr (km @ map (\<lambda>i. (i, [i])) ns)"
  using assms
proof (induction ns arbitrary: km)
  case (Cons i ns)
  have less: "k < i" if "k \<in> fst ` set km" for k using Cons.prems(2) that by simp
  then have "i \<notin> fst ` set km" by blast
  then have "map_of km i = None" by (simp add: map_of_eq_None_iff)
  then have add: "add_key ex_sentinel_lib i i km = km @ [(i, [i])]"
    by (simp add: add_key_def std_less.smap_find_map_of smap_insert_end [OF less])
  have "collect_group_keys ex_sentinel_lib (map (\<lambda>i. (i, ex_group_key i)) ns) (km @ [(i, [i])])
      = Inr ((km @ [(i, [i])]) @ map (\<lambda>i. (i, [i])) ns)"
    using Cons.prems by (intro Cons.IH) auto
  then show ?case by (simp add: ex_group_key_def [of i] ex_parse flip: add)
qed simp

lemma kept_sorted:
  assumes "kept acc n val ns" "ns \<noteq> []" "set ns = set is'" "sorted_wrt (<) is'"
  shows "GetAll acc n = Some (n, map (\<lambda>i. (i, val i)) is')"
proof -
  obtain ms where ms: "GetAll acc n = Some (n, ms)" "set ms = (\<lambda>i. (i, val i)) ` set ns" "smap_wf (<) ms"
    using kept_senders [OF assms(1,2)] by blast
  have "ms = map (\<lambda>i. (i, val i)) is'"
  proof (rule std_less.ordered_by_unique [of fst])
    show "ordered_by (<) fst ms" using ms(3) by (simp add: smap_wf_def)
    show "ordered_by (<) fst (map (\<lambda>i. (i, val i)) is')" using assms(4) by (simp add: ordered_by_def sorted_wrt_map)
    show "set ms = set (map (\<lambda>i. (i, val i)) is')" using ms(2) assms(3) by simp
  qed
  with ms(1) show ?thesis by simp
qed

definition ex_history :: "(nat, nat) ResultType list" where
  "ex_history = map ex_part [1..<19] @ map ex_group_key [1..<20]"

lemma ex_history_keys: "GetAll (group_key_accumulator (feed ex_history)) 7 = Some (7, map (\<lambda>i. (i, ex_group_key i)) [1..<20])"
  unfolding ex_history_def
  by (rule kept_sorted [OF conjunct1 [OF feed_parts]]) (simp_all add: QuorumSize_def sorted_wrt_upt)

lemma ex_history_parts: "GetAll (group_accumulator (feed ex_history)) (7, 5) = Some ((7, 5), map (\<lambda>i. (i, ex_part i)) [1..<19])"
  unfolding ex_history_def
  by (rule kept_sorted [OF conjunct2 [OF feed_parts]]) (simp_all add: QuorumSize_def sorted_wrt_upt)

lemma ex_collect:
  "collect_group_keys ex_sentinel_lib (map (\<lambda>i. (i, ex_group_key i)) [1..<20]) [] = Inr (map (\<lambda>i. (i, [i])) [1..<20])"
  using collect_increasing [of "[1..<20]" "[]"] by (simp add: sorted_wrt_upt del: upt.simps)

lemma ex_part_verified:
  assumes "1 \<le> i" "i < 20"
  shows "verified ex_sentinel_lib (group_key_for ex_lib (map (\<lambda>i. (i, [i])) [1..<20])) (ex_part i)"
proof -
  have "map_of (map (\<lambda>i. (i, [i])) [1..<20]) i = Some [i]"
    using assms by (simp add: map_of_map_restrict del: upt.simps)
  then show ?thesis
    by (simp add: verified_def group_key_for_def signed_with_def std_less.smap_find_map_of ex_simps
        ex_lib_def ex_sentinel_lib_def del: upt.simps)
qed

lemma ex_history_resolves:
  "\<exists>st' res. Sentinel_Add ex_lib ex_sentinel_lib (\<lambda>_. 0) 0 (feed ex_history) (ex_part 19) = (st', Inr (Some res))
    \<and> payload res = payload (ex_part 19) \<and> res \<in> insert (ex_part 19) (snd ` set (map (\<lambda>i. (i, ex_part i)) [1..<19]))
    \<and> \<not> HaveName (group_accumulator st') (7, 5)"
proof (rule group_message_resolves [OF feed_run _ _ _ ex_history_keys _ ex_collect _ ex_history_parts])
  show "payload x = payload (ex_part 19) \<and> tag_in x \<noteq> tag_AccountTransfer
      \<and> verified ex_sentinel_lib (group_key_for ex_lib (map (\<lambda>i. (i, [i])) [1..<20])) x"
    if x: "x \<in> insert (ex_part 19) (snd ` set (map (\<lambda>i. (i, ex_part i)) [1..<19]))" for x
  proof -
    obtain i where "x = ex_part i" "1 \<le> i" "i < 20" using x by (auto simp del: upt.simps)
    then show ?thesis using ex_part_verified [of i] by (simp add: ex_part_def del: upt.simps)
  qed
qed (auto simp: ex_simps is_key_response_def QuorumSize_def list_all_iff simp del: upt.simps)

lemma ex_history_result:
  "\<exists>st' i. Sentinel_Add ex_lib ex_sentinel_lib (\<lambda>_. 0) 0 (feed ex_history) (ex_part 19)
    = (st', Inr (Some (ex_group_header i, tag_PutData, [1])))"
proof -
  obtain st' res where r: "Sentinel_Add ex_lib ex_sentinel_lib (\<lambda>_. 0) 0 (feed ex_history) (ex_part 19) = (st', Inr (Some res))"
    "res \<in> insert (ex_part 19) (snd ` set (map (\<lambda>i. (i, ex_part i)) [1..<19]))"
    using ex_history_resolves by blast
  then obtain i where "res = ex_part i" by auto
  with r(1) show ?thesis by (auto simp: ex_part_def)
qed

text \<open>The same for a message of the node 7, with the answers to the request for its key\<close>

definition ex_node_history :: "nat list \<Rightarrow> (nat, nat) ResultType list" where
  "ex_node_history ns = map ex_client_key ns @ [ex_node_message]"

lemma feed_client_keys:
  assumes "distinct ns" "length ns < QuorumSize"
  shows "kept (node_key_accumulator (feed (ex_node_history ns))) 7 ex_client_key ns
    \<and> node_accumulator (feed (ex_node_history ns)) = node_accumulator (feed [ex_node_message])"
  using assms
proof (induction ns)
  case Nil
  have "node_key_accumulator (feed [ex_node_message]) = node_key_accumulator Sentinel_new"
    by (auto simp: feed_def Sentinel_Add_def add_node_message_def resolve_node_def ex_simps Let_def
        split: sum.splits option.splits)
  then show ?case by (simp add: ex_node_history_def kept_def Sentinel_new_def acc_inv_new QuorumSize_def)
next
  case (Cons i ns)
  define st where "st = feed (ex_node_history ns)"
  have k: "kept (node_key_accumulator st) 7 ex_client_key ns" using Cons by (simp add: st_def)
  obtain acc where a: "Accumulator_Add (NDEBUG ex_lib) (\<lambda>_. 0) (node_key_accumulator st) 7 (ex_client_key i) i = Inr (acc, None)"
    "kept acc 7 ex_client_key (i # ns)"
    using kept_add [OF k, of i "NDEBUG ex_lib" "\<lambda>_. 0"] Cons.prems by auto
  have f: "feed (ex_node_history (i # ns)) = fst (Sentinel_Add ex_lib ex_sentinel_lib (\<lambda>_. 0) 0 st (ex_client_key i))"
    by (simp add: ex_node_history_def feed_Cons st_def)
  have "feed (ex_node_history (i # ns)) = st\<lparr>node_key_accumulator := acc\<rparr>"
    using a(1) unfolding f by (simp add: Sentinel_Add_def add_client_key_response_def ex_simps)
  with a(2) Cons show ?case by (simp add: st_def)
qed

lemma ex_node_kept:
  "\<exists>ms. GetAll (node_accumulator (feed [ex_node_message])) (7, 5) = Some ((7, 5), ms) \<and> snd ` set ms = {ex_node_message}"
proof -
  have run: "sent_inv [ex_node_message] (feed [ex_node_message])" by (rule sent_run_inv [OF feed_run])
  obtain st' where "Sentinel_Add ex_lib ex_sentinel_lib (\<lambda>_. 0) 0 Sentinel_new ex_node_message = (st', Inr None)"
    using node_message_waits [OF sent_inv_more [OF sent_inv_new, of ex_node_message], where r = ex_node_message
      and L = ex_lib and S = ex_sentinel_lib and now = "\<lambda>_. 0" and t = 0]
    by (auto simp: Sentinel_Add_def ex_simps)
  then have st': "feed [ex_node_message] = st'" "add_node_message ex_lib ex_sentinel_lib (\<lambda>_. 0) 0 Sentinel_new ex_node_message = (st', Inr None)"
    by (auto simp: feed_def Sentinel_Add_def ex_simps)
  have "pending (feed [ex_node_message]) ex_node_message"
    using add_node_message_requests(2) [OF sent_inv_more [OF sent_inv_new] _ _ st'(2)] st'(1) by (simp add: ex_simps)
  then have "held (node_accumulator (feed [ex_node_message])) (7, 5) \<noteq> None"
    using store.have_law [OF sent_inv_accs(1) [OF run], of "(7, 5)"] by (simp add: pending_def ex_simps)
  then obtain ms where ms: "GetAll (node_accumulator (feed [ex_node_message])) (7, 5) = Some ((7, 5), ms)"
    using store.get_law [OF sent_inv_accs(1) [OF run], of "(7, 5)"] by auto
  have "senders_ok (node_entry [ex_node_message] (7, 5)) ms"
    by (rule got_ok(1) [OF sent_inv_accs(1) [OF run] sent_inv_held(1) [OF run] ms])
  then have "snd ` set ms \<subseteq> {ex_node_message}" by (auto simp: senders_ok_def node_entry_def)
  moreover have "ms \<noteq> []"
    using ms acc_inv_senders [OF sent_inv_accs(1) [OF run], of "(7, 5)"]
    by (auto simp: GetAll_def std_less.smap_find_map_of split: option.splits)
  ultimately have "snd ` set ms = {ex_node_message}" by (cases ms) auto
  with ms show ?thesis by blast
qed

lemma ex_node_keys:
  "GetAll (node_key_accumulator (feed (ex_node_history [1..<19]))) 7 = Some (7, map (\<lambda>i. (i, ex_client_key i)) [1..<19])"
  by (rule kept_sorted [OF conjunct1 [OF feed_client_keys]]) (simp_all add: QuorumSize_def sorted_wrt_upt)

lemma ex_node_history_kept:
  "\<exists>ms. GetAll (node_accumulator (feed (ex_node_history [1..<19]))) (7, 5) = Some ((7, 5), ms) \<and> snd ` set ms = {ex_node_message}"
proof -
  have "node_accumulator (feed (ex_node_history [1..<19])) = node_accumulator (feed [ex_node_message])"
    using feed_client_keys [of "[1..<19]"] by (simp add: QuorumSize_def del: upt.simps)
  then show ?thesis using ex_node_kept by simp
qed

lemma ex_node_history_result:
  "\<exists>st'. Sentinel_Add ex_lib ex_sentinel_lib (\<lambda>_. 0) 0 (feed (ex_node_history [1..<19])) (ex_client_key 19)
    = (st', Inr (Some ex_node_message))"
proof -
  obtain ms where ms: "GetAll (node_accumulator (feed (ex_node_history [1..<19]))) (7, 5) = Some ((7, 5), ms)"
    "snd ` set ms = {ex_node_message}"
    using ex_node_history_kept by blast
  have "\<exists>st' res. Sentinel_Add ex_lib ex_sentinel_lib (\<lambda>_. 0) 0 (feed (ex_node_history [1..<19])) (ex_client_key 19)
      = (st', Inr (Some res)) \<and> res \<in> snd ` set ms \<and> \<not> HaveName (node_accumulator st') (7, 5)"
  proof (rule node_message_resolves [OF feed_run _ _ _ ms(1) ex_node_keys, where a = 1 and k = 1])
    show "signed_with ex_sentinel_lib x 1" if "x \<in> snd ` set ms" for x
      using that ms(2) by (simp add: signed_with_def ex_simps ex_sentinel_lib_def)
  qed (auto simp: ex_simps QuorumSize_def ex_parse ex_lib_def simp del: upt.simps)
  then show ?thesis using ms(2) by auto
qed

subsection \<open>The properties on the small network\<close>

theorem sentinel_group_result_genuine_witness:
  "\<exists>st' i rs. Sentinel_Add ex_lib ex_sentinel_lib (\<lambda>_. 0) 0 (feed ex_history) (ex_part 19)
      = (st', Inr (Some (ex_group_header i, tag_PutData, [1])))
    \<and> QuorumSize \<le> length rs \<and> distinct (map (\<lambda>x. FromNode (header_of x)) rs)
    \<and> list_all (\<lambda>x. x \<in> set (ex_part 19 # ex_history) \<and> payload x = [1]) rs"
proof -
  obtain st' i where a: "Sentinel_Add ex_lib ex_sentinel_lib (\<lambda>_. 0) 0 (feed ex_history) (ex_part 19)
      = (st', Inr (Some (ex_group_header i, tag_PutData, [1])))"
    using ex_history_result by blast
  have "FromGroup (ex_group_header i) = Some 7" by (simp add: ex_simps)
  from sentinel_group_result_genuine [OF feed_run a this] a show ?thesis by (auto simp: list_all_iff)
qed

theorem sentinel_node_result_genuine_witness:
  "\<exists>st'. Sentinel_Add ex_lib ex_sentinel_lib (\<lambda>_. 0) 0 (feed (ex_node_history [1..<19])) (ex_client_key 19)
      = (st', Inr (Some ex_node_message))
    \<and> (\<exists>k. signed_with ex_sentinel_lib ex_node_message k)"
proof -
  obtain st' where a: "Sentinel_Add ex_lib ex_sentinel_lib (\<lambda>_. 0) 0 (feed (ex_node_history [1..<19])) (ex_client_key 19)
      = (st', Inr (Some ex_node_message))"
    using ex_node_history_result by blast
  have "FromGroup (header_of ex_node_message) = None" by (simp add: ex_simps)
  from sentinel_node_result_genuine [OF feed_run a this] a show ?thesis by auto
qed

theorem sentinel_node_message_never_resolves_witness:
  "\<exists>st'. Sentinel_Add ex_lib ex_sentinel_lib (\<lambda>_. 0) 0 (feed []) ex_node_message = (st', Inr None)"
  by (rule sentinel_node_message_never_resolves [OF feed_run]) (simp_all add: ex_simps)

theorem sentinel_errors_witness:
  "Sentinel_Add ex_lib ex_sentinel_lib (\<lambda>_. 0) 0 (feed []) (ex_node_header, tag_GetGroupKeyResponse, [])
     = (feed [], Inl parsing_error)"
  using sentinel_errors [OF feed_run, where r = "(ex_node_header, tag_GetGroupKeyResponse, [])" and now = "\<lambda>_. 0" and t = 0]
  by (simp add: ex_simps)

theorem sentinel_requests_once_witness:
  "\<exists>st' res. Sentinel_Add ex_lib ex_sentinel_lib (\<lambda>_. 0) 0 (feed []) ex_node_message = (st', res)
     \<and> requests st' = [SendGetClientKey 7]"
proof -
  obtain st' res where a: "Sentinel_Add ex_lib ex_sentinel_lib (\<lambda>_. 0) 0 (feed []) ex_node_message = (st', res)" by force
  have "requests (feed []) = []" "\<not> is_key_response ex_node_message" "\<not> pending (feed []) ex_node_message"
    "key_request_for ex_node_message = SendGetClientKey 7"
    by (simp_all add: feed_def Sentinel_new_def is_key_response_def pending_def key_request_for_def HaveName_def
        Accumulator_new_def ex_simps)
  with sentinel_requests_once [OF feed_run a] a show ?thesis by simp
qed

end
