(* ===== verification/Account_Transfer.thy ===== *)
theory Account_Transfer
  imports Archive
begin

section \<open>Account transfers\<close>

text \<open>
  Models \<^verbatim>\<open>account_transfer_info.h\<close> and \<^verbatim>\<open>.cc\<close>: the base class of what a group hands over when
  it changes, an object that only has a name, and the pair of a name and a type that identifies
  it. \<^verbatim>\<open>Merge\<close> and \<^verbatim>\<open>ThisTypeId\<close> are pure virtual; the first is a parameter of the
  sentinel, the second of the operations here. \<open>'t\<close> is \<^verbatim>\<open>DataTypeId\<close>.
\<close>

subsection \<open>NameAndTypeId\<close>

record ('a, 't) NameAndTypeId =
  nt_name :: 'a
  nt_type_id :: 't

text \<open>The default constructor takes an uninitialised name and the largest type there is.\<close>

definition NameAndTypeId_new :: "'a \<Rightarrow> 't \<Rightarrow> ('a, 't) NameAndTypeId" where
  "NameAndTypeId_new name_in type_id_in = \<lparr>nt_name = name_in, nt_type_id = type_id_in\<rparr>"

definition NameAndTypeId_default :: "'a \<Rightarrow> 't \<Rightarrow> ('a, 't) NameAndTypeId" where
  "NameAndTypeId_default identity_default type_id_max = \<lparr>nt_name = identity_default, nt_type_id = type_id_max\<rparr>"

definition NameAndTypeId_serialize :: "('a, 'f, 'k, 's, 'n, 't, 'x) prims \<Rightarrow> ('a, 't) NameAndTypeId codec" where
  "NameAndTypeId_serialize P =
     class_codec (\<lambda>x. (nt_name x, nt_type_id x)) (\<lambda>(n, t). \<lparr>nt_name = n, nt_type_id = t\<rparr>)
       (archive2 (p_address P) (p_type_id P))"

definition NameAndTypeId_tie :: "('a, 't) NameAndTypeId \<Rightarrow> 'a \<times> 't" where
  "NameAndTypeId_tie x = (nt_name x, nt_type_id x)"

definition NameAndTypeId_eq :: "('a, 't) NameAndTypeId \<Rightarrow> ('a, 't) NameAndTypeId \<Rightarrow> bool" where
  "NameAndTypeId_eq lhs rhs = (NameAndTypeId_tie lhs = NameAndTypeId_tie rhs)"

definition NameAndTypeId_neq :: "('a, 't) NameAndTypeId \<Rightarrow> ('a, 't) NameAndTypeId \<Rightarrow> bool" where
  "NameAndTypeId_neq lhs rhs = (\<not> NameAndTypeId_eq lhs rhs)"

definition NameAndTypeId_less ::
  "('a::linorder, 't::linorder) NameAndTypeId \<Rightarrow> ('a, 't) NameAndTypeId \<Rightarrow> bool" where
  "NameAndTypeId_less lhs rhs = lex_less (<) (<) (NameAndTypeId_tie lhs) (NameAndTypeId_tie rhs)"

definition NameAndTypeId_greater ::
  "('a::linorder, 't::linorder) NameAndTypeId \<Rightarrow> ('a, 't) NameAndTypeId \<Rightarrow> bool" where
  "NameAndTypeId_greater lhs rhs = NameAndTypeId_less rhs lhs"

definition NameAndTypeId_le ::
  "('a::linorder, 't::linorder) NameAndTypeId \<Rightarrow> ('a, 't) NameAndTypeId \<Rightarrow> bool" where
  "NameAndTypeId_le lhs rhs = (\<not> NameAndTypeId_greater lhs rhs)"

definition NameAndTypeId_ge ::
  "('a::linorder, 't::linorder) NameAndTypeId \<Rightarrow> ('a, 't) NameAndTypeId \<Rightarrow> bool" where
  "NameAndTypeId_ge lhs rhs = (\<not> NameAndTypeId_less lhs rhs)"

interpretation name_type_order:
  strict_linear_order "NameAndTypeId_less :: ('a::linorder, 't::linorder) NameAndTypeId \<Rightarrow> _"
  unfolding NameAndTypeId_less_def
  by (rule key_order) (auto simp: inj_def NameAndTypeId_tie_def)

lemma NameAndTypeId_eq_iff: "NameAndTypeId_eq lhs rhs \<longleftrightarrow> lhs = rhs"
  by (auto simp: NameAndTypeId_eq_def NameAndTypeId_tie_def)

lemma codec_ok_NameAndTypeId: "prims_ok P \<Longrightarrow> codec_ok (NameAndTypeId_serialize P)"
  unfolding NameAndTypeId_serialize_def
  by (intro codec_ok_class codec_ok_archive2 prims_okD) simp_all

subsection \<open>AccountTransferInfo\<close>

record 'a AccountTransferInfo =
  ati_name :: 'a

definition AccountTransferInfo_default :: "'a \<Rightarrow> 'a AccountTransferInfo" where
  "AccountTransferInfo_default identity_default = \<lparr>ati_name = identity_default\<rparr>"

definition Account_IsInitialised :: "('a, 'f, 'k) lib \<Rightarrow> 'a AccountTransferInfo \<Rightarrow> bool" where
  "Account_IsInitialised L this = IsInitialised L (ati_name this)"

definition AccountTransferInfo_new :: "('a, 'f, 'k) lib \<Rightarrow> 'a \<Rightarrow> 'a AccountTransferInfo result" where
  "AccountTransferInfo_new L name =
     (let this = \<lparr>ati_name = name\<rparr> in
      if \<not> Account_IsInitialised L this then Inl uninitialised else Inr this)"

definition Account_Name :: "('a, 'f, 'k) lib \<Rightarrow> 'a AccountTransferInfo \<Rightarrow> 'a result" where
  "Account_Name L this = (if \<not> Account_IsInitialised L this then Inl uninitialised else Inr (ati_name this))"

text \<open>\<open>this_type_id\<close> is what the derived class returns, \<open>DataTypeId\<close> the constructor of the type.\<close>

definition Account_TypeId :: "('a, 'f, 'k) lib \<Rightarrow> (32 word \<Rightarrow> 't) \<Rightarrow> 32 word \<Rightarrow> 'a AccountTransferInfo \<Rightarrow> 't result" where
  "Account_TypeId L DataTypeId this_type_id this =
     (if \<not> Account_IsInitialised L this then Inl uninitialised else Inr (DataTypeId this_type_id))"

definition Account_NameAndType ::
  "('a, 'f, 'k) lib \<Rightarrow> (32 word \<Rightarrow> 't) \<Rightarrow> 32 word \<Rightarrow> 'a AccountTransferInfo \<Rightarrow> ('a, 't) NameAndTypeId result" where
  "Account_NameAndType L DataTypeId this_type_id this =
     (if \<not> Account_IsInitialised L this then Inl uninitialised
      else bindR (Account_TypeId L DataTypeId this_type_id this) (\<lambda>t. Inr (NameAndTypeId_new (ati_name this) t)))"

definition Account_save ::
  "('a, 'f, 'k) lib \<Rightarrow> ('a, 'f, 'k, 's, 'n, 't, 'x) prims \<Rightarrow> 'a AccountTransferInfo \<Rightarrow> byte list result" where
  "Account_save L P this =
     (if \<not> Account_IsInitialised L this then Inl uninitialised else Inr (enc (p_address P) (ati_name this)))"

text \<open>
  \<open>None\<close> when the archive itself cannot read a name. Otherwise the object has the name that was
  read, also when the load then throws.
\<close>

definition Account_load ::
  "('a, 'f, 'k) lib \<Rightarrow> ('a, 'f, 'k, 's, 'n, 't, 'x) prims \<Rightarrow> byte list \<Rightarrow> 'a AccountTransferInfo \<Rightarrow>
     ('a AccountTransferInfo \<times> byte list result) option" where
  "Account_load L P bs this =
     (case dec (p_address P) bs of
        None \<Rightarrow> None
      | Some (name, rest) \<Rightarrow>
          (let this' = this\<lparr>ati_name := name\<rparr> in
           Some (this', if \<not> Account_IsInitialised L this' then Inl parsing_error else Inr rest)))"

text \<open>
  Only an initialised account transfer is usable, and every one that was made is
  initialised. Construction from a name, \<open>Name\<close>, \<open>TypeId\<close>, \<open>NameAndType\<close> and \<open>save\<close> throw
  \<open>uninitialised\<close> exactly when the name is not initialised, and otherwise give the object, the
  name, the type, both, or bytes that any object loads back, whatever follows them; a load that
  returns has given the object an initialised name.
\<close>

lemma account_transfer_usable:
  assumes "prims_ok P"
  shows "(if IsInitialised L n then AccountTransferInfo_new L n = Inr \<lparr>ati_name = n\<rparr>
       else AccountTransferInfo_new L n = Inl uninitialised)
    \<and> (if Account_IsInitialised L x
       then Account_Name L x = Inr (ati_name x) \<and> Account_TypeId L T i x = Inr (T i)
         \<and> Account_NameAndType L T i x = Inr \<lparr>nt_name = ati_name x, nt_type_id = T i\<rparr>
         \<and> (\<exists>bs. Account_save L P x = Inr bs \<and> Account_load L P (bs @ rest) y = Some (x, Inr rest))
       else Account_Name L x = Inl uninitialised \<and> Account_TypeId L T i x = Inl uninitialised
         \<and> Account_NameAndType L T i x = Inl uninitialised \<and> Account_save L P x = Inl uninitialised)
    \<and> (Account_load L P bs' y = Some (z, Inr rest') \<longrightarrow> Account_IsInitialised L z)"
  using codec_asD [OF prims_okD(1) [OF assms]]
  by (cases x; cases y)
    (auto simp: AccountTransferInfo_new_def Account_IsInitialised_def Account_Name_def Account_TypeId_def
      Account_NameAndType_def Account_save_def Account_load_def NameAndTypeId_new_def Let_def
      split: option.splits if_splits)

definition positive_lib :: "(nat, nat, nat) lib" where
  "positive_lib = \<lparr>NDEBUG = False, IsInitialised = (\<lambda>n. n \<noteq> 0), CloserToTarget = (\<lambda>x y t. x < y),
     CommonLeadingBits = (\<lambda>t x. 0), fob_name = (\<lambda>f. f), fob_public_key = (\<lambda>f. f), ValidateKey = (\<lambda>k. True)\<rparr>"

lemma account_transfer_usable_witness:
  "AccountTransferInfo_new positive_lib 0 = Inl uninitialised
   \<and> Account_NameAndType positive_lib unat 7 \<lparr>ati_name = 3\<rparr> = Inr \<lparr>nt_name = 3, nt_type_id = 7\<rparr>
   \<and> (\<exists>bs. Account_save positive_lib nat_prims \<lparr>ati_name = 3\<rparr> = Inr bs
        \<and> Account_load positive_lib nat_prims (bs @ [9]) \<lparr>ati_name = 0\<rparr> = Some (\<lparr>ati_name = 3\<rparr>, Inr [9]))"
  using account_transfer_usable [OF nat_prims_ok, where L = positive_lib and n = 0 and x = "\<lparr>ati_name = 3\<rparr>"
      and y = "\<lparr>ati_name = 0\<rparr>" and T = unat and i = 7 and rest = "[9]" and z = "\<lparr>ati_name = 3\<rparr>"]
  by (simp add: positive_lib_def Account_IsInitialised_def)

end
