(* ===== verification/Bootstrap_Handler.thy ===== *)
theory Bootstrap_Handler
  imports Archive
begin

section \<open>Bootstrap contacts\<close>

text \<open>
  Models \<^verbatim>\<open>bootstrap_handler.h\<close> and \<^verbatim>\<open>.cc\<close>: the contacts a node can join the network by,
  kept in one table of an SQLite database. SQLite and its wrapper are a parameter: a statement
  is the text of its query and the blobs bound to it, and what each of the four queries does to
  the table is a hypothesis. The handler's own work is modelled in full: the text of the
  queries, the batches of an insertion, the blobs that are bound, transactions and the timer.
\<close>

subsection \<open>Where the file is\<close>

record 'p filesystem =
  initial_path :: 'p
  path_of :: "string \<Rightarrow> 'p"
  slash :: "'p \<Rightarrow> 'p \<Rightarrow> 'p"
  exists_path :: "'p \<Rightarrow> bool"

text \<open>The build setting that decides about the file's place; on Windows also the value of \<^verbatim>\<open>ALLUSERSPROFILE\<close>.\<close>

datatype place = BOOTSTRAP_FILE_PATH string | MAIDSAFE_WIN32 string | MAIDSAFE_APPLE | MAIDSAFE_LINUX | no_place

definition GetBootstrapFilePath :: "'p filesystem \<Rightarrow> place \<Rightarrow> 'p result" where
  "GetBootstrapFilePath F b =
     (let file_name = path_of F ''bootstrap.cache''; file_path = slash F (initial_path F) file_name in
      if exists_path F file_path then Inr file_path
      else (case b of
          BOOTSTRAP_FILE_PATH s \<Rightarrow> Inr (path_of F s)
        | MAIDSAFE_WIN32 s \<Rightarrow> Inr (slash F (slash F (path_of F s) (path_of F ''MaidSafe'')) file_name)
        | MAIDSAFE_APPLE \<Rightarrow>
            Inr (slash F (slash F (path_of F ''/Library/Application Support/'') (path_of F ''MaidSafe'')) file_name)
        | MAIDSAFE_LINUX \<Rightarrow>
            Inr (slash F (slash F (slash F (path_of F ''/opt/'') (path_of F ''maidsafe'')) (path_of F ''sbin'')) file_name)
        | no_place \<Rightarrow> Inl invalid_argument))"

subsection \<open>The database\<close>

type_synonym blob = "byte list"

text \<open>
  \<open>run_statement\<close> prepares a query, binds blobs to its parameters in order and steps it once;
  \<open>select_rows\<close> steps a query for as long as it gives rows. Both may throw. The destructor of a
  transaction that was not committed rolls it back.
\<close>

record ('p, 'db) sqlite =
  open_database :: "'p \<Rightarrow> 'db result"
  InsertLimit :: int
  run_statement :: "string \<Rightarrow> blob list \<Rightarrow> 'db \<Rightarrow> 'db \<times> unit result"
  select_rows :: "string \<Rightarrow> 'db \<Rightarrow> blob list list result"
  begin_transaction :: "'db \<Rightarrow> 'db \<times> unit result"
  commit_transaction :: "'db \<Rightarrow> 'db \<times> unit result"
  rollback_transaction :: "'db \<Rightarrow> 'db"

record 'db BootstrapHandler =
  bh_database :: 'db
  last_updated :: int

definition MaxListSize :: nat where
  "MaxListSize = 1500"

text \<open>Four hours in nanoseconds\<close>

definition UpdateDuration :: int where
  "UpdateDuration = 4 * 3600 * 1000000000"

definition create_query :: string where
  "create_query = ''CREATE TABLE IF NOT EXISTS BOOTSTRAP_CONTACTS(NODEID BLOB PRIMARY KEY NOT NULL, PUBLIC_KEY BLOB, ENDPOINT BLOB)''"

definition select_query :: string where
  "select_query = ''SELECT NODEID, PUBLIC_KEY, ENDPOINT FROM BOOTSTRAP_CONTACTS''"

definition delete_query :: string where
  "delete_query = ''DELETE FROM BOOTSTRAP_CONTACTS''"

definition insert_query :: "nat \<Rightarrow> string" where
  "insert_query thisbatch =
     ''INSERT OR REPLACE INTO BOOTSTRAP_CONTACTS(NODEID, PUBLIC_KEY, ENDPOINT) VALUES(?, ?, ?)''
     @ concat (replicate (thisbatch - 1) '',(?, ?, ?)'')"

subsection \<open>The operations\<close>

definition BootstrapHandler_new ::
  "('p, 'db) sqlite \<Rightarrow> 'p filesystem \<Rightarrow> place \<Rightarrow> int \<Rightarrow> 'db BootstrapHandler result" where
  "BootstrapHandler_new S F b now =
     bindR (GetBootstrapFilePath F b) (\<lambda>file_path. bindR (open_database S file_path) (\<lambda>db.
       let (db', r) = run_statement S create_query [] db in
       bindR r (\<lambda>_. Inr \<lparr>bh_database = db', last_updated = now\<rparr>)))"

definition OutOfDate :: "int \<Rightarrow> 'db BootstrapHandler \<Rightarrow> bool" where
  "OutOfDate now this \<longleftrightarrow> now + UpdateDuration > last_updated this"

definition ResetTimer :: "int \<Rightarrow> 'db BootstrapHandler \<Rightarrow> 'db BootstrapHandler" where
  "ResetTimer now this = this\<lparr>last_updated := now\<rparr>"

definition CheckBootstrapContacts :: "'db BootstrapHandler \<Rightarrow> 'db BootstrapHandler" where
  "CheckBootstrapContacts this = this"

definition RemoveBootstrapContacts :: "('p, 'db) sqlite \<Rightarrow> 'db \<Rightarrow> 'db \<times> unit result" where
  "RemoveBootstrapContacts S db = run_statement S delete_query [] db"

text \<open>
  One batch: the blobs of each contact in the order of the columns, and the assertion that the
  two endpoints of the contact are the same, of which only the external one is written. An
  exception from preparing the query counts as one of running it.
\<close>

definition contact_blobs ::
  "('v4, 'v6) asio_ip \<Rightarrow> ('a, 'f, 'k, 's, 'n, 't, 'x) prims \<Rightarrow> ('a, ('v4, 'v6) endpoint, 'k) Contact \<Rightarrow> blob list" where
  "contact_blobs A P contact =
     [enc (p_address P) (contact_id contact), enc (p_key P) (contact_public_key contact),
      enc (Endpoint_codec A P) (ep_external (endpoint_pair contact))]"

definition same_endpoints :: "('a, 'e, 'k) Contact \<Rightarrow> bool" where
  "same_endpoints contact \<longleftrightarrow> ep_external (endpoint_pair contact) = ep_local (endpoint_pair contact)"

definition insert_batch ::
  "bool \<Rightarrow> ('p, 'db) sqlite \<Rightarrow> ('v4, 'v6) asio_ip \<Rightarrow> ('a, 'f, 'k, 's, 'n, 't, 'x) prims \<Rightarrow>
   ('a, ('v4, 'v6) endpoint, 'k) Contact list \<Rightarrow> 'db \<Rightarrow> 'db \<times> unit result" where
  "insert_batch nd S A P batch db =
     (case cpp_assert nd (list_all same_endpoints batch) of
        Inl e \<Rightarrow> (db, Inl e)
      | Inr _ \<Rightarrow> run_statement S (insert_query (length batch)) (concat (map (contact_blobs A P) batch)) db)"

text \<open>
  The loop over the batches. Its counter has 64 bits. It may not end (with a limit of zero), and
  then the result is \<open>None\<close>.
\<close>

partial_function (option) insert_loop ::
  "bool \<Rightarrow> ('p, 'db) sqlite \<Rightarrow> ('v4, 'v6) asio_ip \<Rightarrow> ('a, 'f, 'k, 's, 'n, 't, 'x) prims \<Rightarrow> nat \<Rightarrow>
   ('a, ('v4, 'v6) endpoint, 'k) Contact list \<Rightarrow> nat \<Rightarrow> 'db \<Rightarrow> ('db \<times> unit result) option" where
  "insert_loop nd S A P insertlimit contacts i db =
     (if i < length contacts
      then (case insert_batch nd S A P (take (min (length contacts - i) insertlimit) (drop i contacts)) db of
              (db', Inl e) \<Rightarrow> Some (db', Inl e)
            | (db', Inr _) \<Rightarrow> insert_loop nd S A P insertlimit contacts ((i + insertlimit) mod 2 ^ 64) db')
      else Some (db, Inr ()))"

declare insert_loop.simps [code]

definition insertlimit_of :: "int \<Rightarrow> nat" where
  "insertlimit_of l = nat (l mod 2 ^ 64) div 3"

definition InsertBootstrapContacts ::
  "bool \<Rightarrow> ('p, 'db) sqlite \<Rightarrow> ('v4, 'v6) asio_ip \<Rightarrow> ('a, 'f, 'k, 's, 'n, 't, 'x) prims \<Rightarrow>
   ('a, ('v4, 'v6) endpoint, 'k) Contact list \<Rightarrow> 'db \<Rightarrow> ('db \<times> unit result) option" where
  "InsertBootstrapContacts nd S A P contacts db =
     (if contacts = [] then Some (db, Inr ())
      else insert_loop nd S A P (insertlimit_of (InsertLimit S)) contacts 0 db)"

text \<open>
  The part of an operation that is inside a transaction: an exception in it leaves through the
  destructor, which rolls back.
\<close>

definition in_transaction ::
  "('p, 'db) sqlite \<Rightarrow> ('db \<Rightarrow> ('db \<times> unit result) option) \<Rightarrow> 'db \<Rightarrow> ('db \<times> unit result) option" where
  "in_transaction S body db =
     (case begin_transaction S db of
        (db1, Inl e) \<Rightarrow> Some (db1, Inl e)
      | (db1, Inr _) \<Rightarrow>
          (case body db1 of
             None \<Rightarrow> None
           | Some (db2, Inl e) \<Rightarrow> Some (rollback_transaction S db2, Inl e)
           | Some (db2, Inr _) \<Rightarrow>
               (case commit_transaction S db2 of
                  (db3, Inl e) \<Rightarrow> Some (rollback_transaction S db3, Inl e)
                | (db3, Inr _) \<Rightarrow> Some (db3, Inr ()))))"

definition AddBootstrapContacts ::
  "bool \<Rightarrow> ('p, 'db) sqlite \<Rightarrow> ('v4, 'v6) asio_ip \<Rightarrow> ('a, 'f, 'k, 's, 'n, 't, 'x) prims \<Rightarrow> int \<Rightarrow>
   ('a, ('v4, 'v6) endpoint, 'k) Contact list \<Rightarrow> 'db BootstrapHandler \<Rightarrow> ('db BootstrapHandler \<times> unit result) option" where
  "AddBootstrapContacts nd S A P now contacts this =
     (case in_transaction S (InsertBootstrapContacts nd S A P contacts) (bh_database this) of
        None \<Rightarrow> None
      | Some (db, Inl e) \<Rightarrow> Some (this\<lparr>bh_database := db\<rparr>, Inl e)
      | Some (db, Inr _) \<Rightarrow>
          (let this' = this\<lparr>bh_database := db\<rparr> in
           Some (if now + UpdateDuration > last_updated this' then CheckBootstrapContacts this' else this', Inr ())))"

definition ReplaceBootstrapContacts ::
  "bool \<Rightarrow> ('p, 'db) sqlite \<Rightarrow> ('v4, 'v6) asio_ip \<Rightarrow> ('a, 'f, 'k, 's, 'n, 't, 'x) prims \<Rightarrow>
   ('a, ('v4, 'v6) endpoint, 'k) Contact list \<Rightarrow> 'db BootstrapHandler \<Rightarrow> ('db BootstrapHandler \<times> unit result) option" where
  "ReplaceBootstrapContacts nd S A P contacts this =
     (let contacts' = (if length contacts > MaxListSize then take MaxListSize contacts else contacts) in
      map_option (\<lambda>(db, r). (this\<lparr>bh_database := db\<rparr>, r))
        (in_transaction S
           (\<lambda>db. case RemoveBootstrapContacts S db of
              (db', Inl e) \<Rightarrow> Some (db', Inl e)
            | (db', Inr _) \<Rightarrow> InsertBootstrapContacts nd S A P contacts' db')
           (bh_database this)))"

definition parse_blob :: "'x codec \<Rightarrow> blob \<Rightarrow> 'x result" where
  "parse_blob c b = (case dec c b of None \<Rightarrow> Inl library_error | Some (x, _) \<Rightarrow> Inr x)"

fun read_rows ::
  "('v4, 'v6) asio_ip \<Rightarrow> ('a, 'f, 'k, 's, 'n, 't, 'x) prims \<Rightarrow> blob list list \<Rightarrow>
   ('a, ('v4, 'v6) endpoint, 'k) Contact list result" where
  "read_rows A P [] = Inr []"
| "read_rows A P (row # rows) =
     bindR (vector_at row 0) (\<lambda>b0. bindR (parse_blob (p_address P) b0) (\<lambda>node_id.
     bindR (vector_at row 2) (\<lambda>b2. bindR (parse_blob (Endpoint_codec A P) b2) (\<lambda>both.
     bindR (vector_at row 1) (\<lambda>b1. bindR (parse_blob (p_key P) b1) (\<lambda>key.
     bindR (read_rows A P rows) (\<lambda>cs. Inr (Contact_both node_id both key # cs))))))))"

definition ReadBootstrapContacts ::
  "('p, 'db) sqlite \<Rightarrow> ('v4, 'v6) asio_ip \<Rightarrow> ('a, 'f, 'k, 's, 'n, 't, 'x) prims \<Rightarrow> 'db BootstrapHandler \<Rightarrow>
   ('a, ('v4, 'v6) endpoint, 'k) Contact list result" where
  "ReadBootstrapContacts S A P this = bindR (select_rows S select_query (bh_database this)) (read_rows A P)"

subsection \<open>What is relied on of the database\<close>

type_synonym table = "blob \<rightharpoonup> blob \<times> blob"

fun upsert :: "blob list \<Rightarrow> table \<Rightarrow> table" where
  "upsert (i # k # e # bs) t = upsert bs (t(i \<mapsto> (k, e)))"
| "upsert bs t = t"

text \<open>
  \<open>rows db\<close> is the table, \<open>saved db\<close> the table as it was when the transaction began. A statement
  that returns has changed the table as its query says; nothing is known of the table after a
  statement that throws, but rolling back restores what was saved. A query gives each row of the
  table once, in an unknown order.
\<close>

definition statement_does ::
  "('db \<Rightarrow> table) \<Rightarrow> ('db \<Rightarrow> table) \<Rightarrow> (table \<Rightarrow> table) \<Rightarrow> 'db \<Rightarrow> 'db \<times> unit result \<Rightarrow> bool" where
  "statement_does rows saved f db res \<longleftrightarrow>
     saved (fst res) = saved db \<and> (snd res = Inr () \<longrightarrow> rows (fst res) = f (rows db))"

definition sqlite_ok :: "('p, 'db) sqlite \<Rightarrow> ('db \<Rightarrow> table) \<Rightarrow> ('db \<Rightarrow> table) \<Rightarrow> bool" where
  "sqlite_ok S rows saved \<longleftrightarrow>
     (\<forall>n bs db. 1 \<le> n \<longrightarrow> length bs = 3 * n \<longrightarrow> int (3 * n) \<le> InsertLimit S \<longrightarrow>
        statement_does rows saved (upsert bs) db (run_statement S (insert_query n) bs db))
     \<and> (\<forall>db. statement_does rows saved (\<lambda>_. Map.empty) db (run_statement S delete_query [] db))
     \<and> (\<forall>db db' r. begin_transaction S db = (db', r) \<longrightarrow> rows db' = rows db \<and> (r = Inr () \<longrightarrow> saved db' = rows db))
     \<and> (\<forall>db. statement_does rows saved (\<lambda>t. t) db (commit_transaction S db))
     \<and> (\<forall>db. rows (rollback_transaction S db) = saved db)
     \<and> (\<forall>db rs. select_rows S select_query db = Inr rs \<longrightarrow>
          distinct (map hd rs) \<and> set rs = {[i, k, e] | i k e. rows db i = Some (k, e)})"

lemmas sqlite_okD =
  sqlite_ok_def [THEN iffD1, THEN conjunct1, rule_format]
  sqlite_ok_def [THEN iffD1, THEN conjunct2, THEN conjunct1, rule_format]
  sqlite_ok_def [THEN iffD1, THEN conjunct2, THEN conjunct2, THEN conjunct1, rule_format]
  sqlite_ok_def [THEN iffD1, THEN conjunct2, THEN conjunct2, THEN conjunct2, THEN conjunct1, rule_format]
  sqlite_ok_def [THEN iffD1, THEN conjunct2, THEN conjunct2, THEN conjunct2, THEN conjunct2, THEN conjunct1, rule_format]
  sqlite_ok_def [THEN iffD1, THEN conjunct2, THEN conjunct2, THEN conjunct2, THEN conjunct2, THEN conjunct2, rule_format]

subsection \<open>Contacts in the table\<close>

text \<open>The contacts a table holds: for an address, an endpoint and a key\<close>

type_synonym ('a, 'e, 'k) contacts = "'a \<rightharpoonup> 'e \<times> 'k"

definition table_of ::
  "('v4, 'v6) asio_ip \<Rightarrow> ('a, 'f, 'k, 's, 'n, 't, 'x) prims \<Rightarrow> ('a, ('v4, 'v6) endpoint, 'k) contacts \<Rightarrow> table" where
  "table_of A P ct b =
     (case dec (p_address P) b of
        Some (a, []) \<Rightarrow>
          if enc (p_address P) a = b
          then map_option (\<lambda>(e, k). (enc (p_key P) k, enc (Endpoint_codec A P) e)) (ct a) else None
      | _ \<Rightarrow> None)"

definition store_contacts ::
  "('a, 'e, 'k) Contact list \<Rightarrow> ('a, 'e, 'k) contacts \<Rightarrow> ('a, 'e, 'k) contacts" where
  "store_contacts cs ct =
     foldl (\<lambda>t c. t(contact_id c \<mapsto> (ep_external (endpoint_pair c), contact_public_key c))) ct cs"

text \<open>The list a reader gets: each contact once, with both endpoints set to the stored one\<close>

definition contact_list ::
  "('v4, 'v6) asio_ip \<Rightarrow> ('a, ('v4, 'v6) endpoint, 'k) contacts \<Rightarrow> ('a, ('v4, 'v6) endpoint, 'k) Contact list \<Rightarrow> bool" where
  "contact_list A ct cs \<longleftrightarrow> distinct (map contact_id cs)
     \<and> set cs = {Contact_both a (endpoint_norm A e) k | a e k. ct a = Some (e, k)}"

lemma contact_blobs_length [simp]: "length (contact_blobs A P c) = 3"
  by (simp add: contact_blobs_def)

lemma blobs_length [simp]: "length (concat (map (contact_blobs A P) cs)) = 3 * length cs"
  by (induction cs) auto

lemma upsert_blobs_append:
  "upsert (concat (map (contact_blobs A P) (cs @ ds))) t
     = upsert (concat (map (contact_blobs A P) ds)) (upsert (concat (map (contact_blobs A P) cs)) t)"
  by (induction cs arbitrary: t) (auto simp: contact_blobs_def)

lemma table_of_upd:
  assumes "prims_ok P"
  shows "(table_of A P ct)(enc (p_address P) a \<mapsto> (enc (p_key P) k, enc (Endpoint_codec A P) e))
    = table_of A P (ct(a \<mapsto> (e, k)))"
proof
  fix b
  have d: "dec (p_address P) (enc (p_address P) a) = Some (a, [])"
    using codec_asD [OF prims_okD(1) [OF assms], of a "[]"] by simp
  show "((table_of A P ct)(enc (p_address P) a \<mapsto> (enc (p_key P) k, enc (Endpoint_codec A P) e))) b
    = table_of A P (ct(a \<mapsto> (e, k))) b"
    using d by (auto simp: table_of_def split: option.splits list.splits)
qed

lemma table_of_empty: "table_of A P Map.empty = Map.empty"
  by (auto simp: table_of_def fun_eq_iff split: option.splits list.splits)

lemma upsert_contacts:
  assumes "prims_ok P"
  shows "upsert (concat (map (contact_blobs A P) cs)) (table_of A P ct) = table_of A P (store_contacts cs ct)"
  by (induction cs arbitrary: ct)
    (simp_all add: store_contacts_def contact_blobs_def table_of_upd [OF assms])

subsection \<open>Inserting returns\<close>

lemma insertlimit_range:
  assumes "3 \<le> l" "l < 2 ^ 31"
  shows "0 < insertlimit_of l" "int (3 * insertlimit_of l) \<le> l" "insertlimit_of l < 2 ^ 31"
proof -
  have l: "l mod 2 ^ 64 = l" using assms by simp
  have "int (insertlimit_of l) = l div 3" using assms unfolding insertlimit_of_def l by simp
  then have "0 < insertlimit_of l" "int (3 * insertlimit_of l) \<le> l" "insertlimit_of l < nat (2 ^ 31)"
    using assms by linarith+
  then show "0 < insertlimit_of l" "int (3 * insertlimit_of l) \<le> l" "insertlimit_of l < 2 ^ 31"
    by (simp_all add: nat_power_eq)
qed

lemma insert_batch_does:
  assumes "sqlite_ok S rows saved" "batch \<noteq> []" "int (3 * length batch) \<le> InsertLimit S"
  shows "statement_does rows saved (upsert (concat (map (contact_blobs A P) batch))) db (insert_batch nd S A P batch db)"
proof (cases "nd \<or> list_all same_endpoints batch")
  case True
  moreover have "statement_does rows saved (upsert (concat (map (contact_blobs A P) batch))) db
      (run_statement S (insert_query (length batch)) (concat (map (contact_blobs A P) batch)) db)"
    using assms by (intro sqlite_okD(1)) (auto simp: Suc_le_eq)
  ultimately show ?thesis by (simp add: insert_batch_def cpp_assert_def)
next
  case False
  then show ?thesis by (simp add: insert_batch_def cpp_assert_def statement_does_def)
qed

lemma insert_loop_returns:
  assumes S: "sqlite_ok S rows saved" and l: "0 < l" "int (3 * l) \<le> InsertLimit S" "l < 2 ^ 31"
    and cs: "length cs < 2 ^ 63"
  shows "\<exists>res. insert_loop nd S A P l cs i db = Some res
    \<and> statement_does rows saved (upsert (concat (map (contact_blobs A P) (drop i cs)))) db res"
proof (induction "length cs - i" arbitrary: i db rule: less_induct)
  case less
  show ?case
  proof (cases "i < length cs")
    case False
    then show ?thesis by (subst insert_loop.simps) (simp add: statement_does_def)
  next
    case True
    define batch where "batch = take (min (length cs - i) l) (drop i cs)"
    have "batch \<noteq> []" "int (3 * length batch) \<le> InsertLimit S" "(i + l) mod 2 ^ 64 = i + l"
      "drop i cs = batch @ drop (i + l) cs"
      using True l cs append_take_drop_id [of l "drop i cs"]
      by (auto simp: batch_def min_def add.commute)
    note batch = this insert_batch_does [OF S this(1,2), of A P db nd]
    obtain db1 r1 where b: "insert_batch nd S A P batch db = (db1, r1)" by force
    have loop: "insert_loop nd S A P l cs i db =
        (case r1 of Inl e \<Rightarrow> Some (db1, Inl e) | Inr _ \<Rightarrow> insert_loop nd S A P l cs (i + l) db1)"
      using True b batch(3) by (subst insert_loop.simps) (simp add: batch_def [symmetric])
    show ?thesis
    proof (cases r1)
      case (Inl e)
      then show ?thesis using batch(5) b unfolding loop by (auto simp: statement_does_def)
    next
      case (Inr u)
      obtain res where res: "insert_loop nd S A P l cs (i + l) db1 = Some res"
        "statement_does rows saved (upsert (concat (map (contact_blobs A P) (drop (i + l) cs)))) db1 res"
        using less [of "i + l" db1] True l(1) by (meson add_strict_increasing2 diff_less_mono2 less_add_same_cancel1)
      then show ?thesis
        using batch(5) b Inr unfolding loop batch(4) upsert_blobs_append by (auto simp: statement_does_def)
    qed
  qed
qed

lemma Insert_returns:
  assumes "sqlite_ok S rows saved" "prims_ok P" "3 \<le> InsertLimit S" "InsertLimit S < 2 ^ 31" "length cs < 2 ^ 63"
  shows "\<exists>res. InsertBootstrapContacts nd S A P cs db = Some res
    \<and> statement_does rows saved (upsert (concat (map (contact_blobs A P) cs))) db res"
  using insert_loop_returns [OF assms(1) insertlimit_range [OF assms(3,4)] assms(5), of nd A P 0 db]
  by (auto simp: InsertBootstrapContacts_def statement_does_def)

text \<open>A transaction is atomic: the body's effect, or what was there before.\<close>

lemma transaction_atomic:
  assumes S: "sqlite_ok S rows saved"
    and body: "\<And>db. \<exists>res. body db = Some res \<and> statement_does rows saved f db res"
  shows "\<exists>db' r. in_transaction S body db = Some (db', r)
    \<and> rows db' = (case r of Inl _ \<Rightarrow> rows db | Inr _ \<Rightarrow> f (rows db))"
proof -
  obtain db1 r1 where b: "begin_transaction S db = (db1, r1)" by force
  then have r1: "rows db1 = rows db" "r1 = Inr () \<Longrightarrow> saved db1 = rows db" using sqlite_okD(3) [OF S b] by auto
  obtain db2 r2 where e: "body db1 = Some (db2, r2)" "statement_does rows saved f db1 (db2, r2)"
    using body [of db1] by auto
  obtain db3 r3 where c: "commit_transaction S db2 = (db3, r3)" by force
  then have r3: "statement_does rows saved (\<lambda>t. t) db2 (db3, r3)" using sqlite_okD(4) [OF S, of db2] by simp
  have roll: "rows (rollback_transaction S d) = saved d" for d by (rule sqlite_okD(5) [OF S])
  show ?thesis
    using r1 e r3 roll by (auto simp: in_transaction_def b c statement_does_def split: sum.splits)
qed

subsection \<open>Reading\<close>

lemma read_rows_stored:
  assumes "prims_ok P" "asio_ok A"
  shows "read_rows A P (map (\<lambda>(a, e, k). [enc (p_address P) a, enc (p_key P) k, enc (Endpoint_codec A P) e]) ts)
    = Inr (map (\<lambda>(a, e, k). Contact_both a (endpoint_norm A e) k) ts)"
proof (induction ts)
  case (Cons t ts)
  obtain a e k where t: "t = (a, e, k)" by (rule prod_cases3)
  have "dec (p_address P) (enc (p_address P) a) = Some (a, [])" "dec (p_key P) (enc (p_key P) k) = Some (k, [])"
    "dec (Endpoint_codec A P) (enc (Endpoint_codec A P) e) = Some (endpoint_norm A e, [])"
    using codec_asD [OF prims_okD(1) [OF assms(1)], of a "[]"] codec_asD [OF prims_okD(4) [OF assms(1)], of k "[]"]
      codec_asD [OF codec_as_Endpoint [OF assms], of e "[]"] by simp_all
  then show ?case using Cons by (simp add: t parse_blob_def vector_at_def numeral_2_eq_2)
qed simp

lemma table_of_enc:
  assumes "prims_ok P"
  shows "table_of A P ct (enc (p_address P) a)
    = map_option (\<lambda>(e, k). (enc (p_key P) k, enc (Endpoint_codec A P) e)) (ct a)"
  using codec_asD [OF prims_okD(1) [OF assms], of a "[]"] by (simp add: table_of_def)

lemma table_of_Some:
  assumes "prims_ok P" "table_of A P ct b = Some y"
  shows "\<exists>a e k. b = enc (p_address P) a \<and> ct a = Some (e, k) \<and> y = (enc (p_key P) k, enc (Endpoint_codec A P) e)"
proof -
  obtain a where "b = enc (p_address P) a"
    using assms(2) by (auto simp: table_of_def split: option.splits list.splits if_splits)
  then show ?thesis using assms(2) table_of_enc [OF assms(1), of A ct a] by (cases "ct a") auto
qed

lemma contact_image:
  assumes "\<And>t. t \<in> set ts \<Longrightarrow> ct (fst t) = Some (snd t)" "\<And>a e k. ct a = Some (e, k) \<Longrightarrow> (a, e, k) \<in> set ts"
  shows "(\<lambda>(a, e, k). Contact_both a (endpoint_norm A e) k) ` set ts
    = {Contact_both a (endpoint_norm A e) k | a e k. ct a = Some (e, k)}" (is "?f ` _ = ?C")
proof (intro equalityI subsetI)
  fix x assume "x \<in> ?f ` set ts"
  then obtain t where t: "t \<in> set ts" "x = ?f t" by blast
  obtain a e k where "t = (a, e, k)" by (rule prod_cases3)
  with t assms(1) [OF t(1)] have "x = Contact_both a (endpoint_norm A e) k" "ct a = Some (e, k)" by simp_all
  then show "x \<in> ?C" by blast
next
  fix x assume "x \<in> ?C"
  then obtain a e k where x: "x = Contact_both a (endpoint_norm A e) k" "ct a = Some (e, k)" by blast
  show "x \<in> ?f ` set ts" by (rule image_eqI [OF _ assms(2) [OF x(2)]]) (simp add: x(1))
qed

lemma Read_contacts:
  assumes "prims_ok P" "asio_ok A" "sqlite_ok S rows saved" "rows (bh_database h) = table_of A P ct"
    "select_rows S select_query (bh_database h) = Inr rs"
  shows "\<exists>cs. ReadBootstrapContacts S A P h = Inr cs \<and> contact_list A ct cs"
proof -
  let ?contact = "\<lambda>(a, e, k). Contact_both a (endpoint_norm A e) k"
  let ?row = "\<lambda>(a, e, k). [enc (p_address P) a, enc (p_key P) k, enc (Endpoint_codec A P) e]"
  have rs: "distinct (map hd rs)" "set rs = {[i, k, e] | i k e. table_of A P ct i = Some (k, e)}"
    using sqlite_okD(6) [OF assms(3,5)] assms(4) by simp_all
  have "\<exists>t. row = ?row t \<and> ct (fst t) = Some (snd t)" if row: "row \<in> set rs" for row
  proof -
    obtain i y where y: "row = [i, fst y, snd y]" "table_of A P ct i = Some y" using row rs(2) by auto
    obtain a e k where "i = enc (p_address P) a" "ct a = Some (e, k)" "y = (enc (p_key P) k, enc (Endpoint_codec A P) e)"
      using table_of_Some [OF assms(1) y(2)] by blast
    then show ?thesis using y(1) by (intro exI [of _ "(a, e, k)"]) simp
  qed
  then obtain pick where pick: "\<And>row. row \<in> set rs \<Longrightarrow> row = ?row (pick row) \<and> ct (fst (pick row)) = Some (snd (pick row))"
    by metis
  define ts where "ts = map pick rs"
  have ts: "rs = map ?row ts" "\<And>t. t \<in> set ts \<Longrightarrow> ct (fst t) = Some (snd t)"
    using pick by (auto simp: ts_def map_idI [symmetric] comp_def intro!: map_idI [symmetric])
  have all: "(a, e, k) \<in> set ts" if "ct a = Some (e, k)" for a e k
  proof -
    have "?row (a, e, k) \<in> set rs" using rs(2) table_of_enc [OF assms(1), of A ct a] that by auto
    then obtain t where t: "t \<in> set ts" "?row (a, e, k) = ?row t" using ts(1) by auto
    have "enc (p_address P) a = enc (p_address P) (fst t)" using t(2) by (cases t) auto
    then have "fst t = a" using codec_unambiguous [OF prims_okD(1) [OF assms(1)], of a "[]" "fst t" "[]"] by simp
    then have "t = (a, e, k)" using ts(2) [OF t(1)] that by (cases t) auto
    then show ?thesis using t(1) by simp
  qed
  have "map hd rs = map (enc (p_address P)) (map fst ts)" unfolding ts(1) by (simp add: case_prod_beta)
  then have "distinct (map fst ts)" using rs(1) by (simp only: distinct_map)
  then have "distinct (map contact_id (map ?contact ts))" by (simp add: Contact_both_def case_prod_beta comp_def)
  moreover have "?contact ` set ts = {Contact_both a (endpoint_norm A e) k | a e k. ct a = Some (e, k)}"
    by (rule contact_image [OF ts(2) all])
  ultimately have "contact_list A ct (map ?contact ts)" by (simp add: contact_list_def)
  then show ?thesis
    using assms(5) read_rows_stored [OF assms(1,2), of ts]
    by (simp add: ReadBootstrapContacts_def ts(1))
qed

lemma Read_either:
  assumes "prims_ok P" "asio_ok A" "sqlite_ok S rows saved" "rows (bh_database h) = table_of A P ct"
  shows "(\<exists>e. select_rows S select_query (bh_database h) = Inl e)
    \<or> (\<exists>cs. ReadBootstrapContacts S A P h = Inr cs \<and> contact_list A ct cs)"
  using Read_contacts [OF assms] by (cases "select_rows S select_query (bh_database h)") auto

lemma contact_list_length:
  assumes "contact_list A ct cs" "dom ct \<subseteq> contact_id ` set ds"
  shows "length cs \<le> length ds"
proof -
  have "contact_id ` set cs \<subseteq> dom ct" using assms(1) by (auto simp: contact_list_def Contact_both_def)
  moreover have "length cs = card (contact_id ` set cs)"
    using distinct_card [of "map contact_id cs"] assms(1) unfolding contact_list_def by simp
  moreover have "card (contact_id ` set ds) \<le> length ds" by (metis card_length length_map set_map)
  ultimately show ?thesis using assms(2) card_mono [of "contact_id ` set ds" "contact_id ` set cs"] by fastforce
qed

lemma dom_store_contacts: "dom (store_contacts cs ct) = dom ct \<union> contact_id ` set cs"
  by (induction cs arbitrary: ct) (auto simp: store_contacts_def)

text \<open>With a clock that does not go back the list is always out of date.\<close>

lemma OutOfDate_always: "last_updated this \<le> now \<Longrightarrow> OutOfDate now this"
  by (simp add: OutOfDate_def UpdateDuration_def)

subsection \<open>An in-memory database\<close>

type_synonym memory = "(blob \<times> blob \<times> blob) list \<times> (blob \<times> blob \<times> blob) list"

fun memory_upsert :: "blob list \<Rightarrow> (blob \<times> blob \<times> blob) list \<Rightarrow> (blob \<times> blob \<times> blob) list" where
  "memory_upsert (i # k # e # bs) t = memory_upsert bs ((i, k, e) # t)"
| "memory_upsert bs t = t"

fun latest_rows :: "(blob \<times> blob \<times> blob) list \<Rightarrow> (blob \<times> blob \<times> blob) list" where
  "latest_rows [] = []"
| "latest_rows (r # t) = r # filter (\<lambda>x. fst x \<noteq> fst r) (latest_rows t)"

text \<open>The first letter of a query tells it apart from the others.\<close>

definition memory_sqlite :: "(unit, memory) sqlite" where
  "memory_sqlite = \<lparr>open_database = (\<lambda>_. Inr ([], [])), InsertLimit = 7,
     run_statement = (\<lambda>q bs (t, s).
       (if take 1 q = ''D'' then ([], s) else if take 1 q = ''I'' then (memory_upsert bs t, s) else (t, s), Inr ())),
     select_rows = (\<lambda>q (t, s). Inr (map (\<lambda>(i, k, e). [i, k, e]) (latest_rows t))),
     begin_transaction = (\<lambda>(t, s). ((t, t), Inr ())), commit_transaction = (\<lambda>db. (db, Inr ())),
     rollback_transaction = (\<lambda>(t, s). (s, s))\<rparr>"

definition memory_rows :: "memory \<Rightarrow> table" where
  "memory_rows db = map_of (fst db)"

definition memory_saved :: "memory \<Rightarrow> table" where
  "memory_saved db = map_of (snd db)"

lemma map_of_memory_upsert: "map_of (memory_upsert bs t) = upsert bs (map_of t)"
  by (induction bs t rule: memory_upsert.induct) (simp_all add: fun_upd_def)

lemma map_of_filter_key: "map_of (filter (\<lambda>x. fst x \<noteq> k) t) = (map_of t)(k := None)"
  by (induction t) (auto simp: fun_eq_iff)

lemma map_of_latest_rows: "map_of (latest_rows t) = map_of t"
  by (induction t) (auto simp: map_of_filter_key fun_eq_iff)

lemma distinct_latest_rows: "distinct (map fst (latest_rows t))"
  by (induction t) (auto simp: distinct_map_filter)

lemma memory_sqlite_ok: "sqlite_ok memory_sqlite memory_rows memory_saved"
proof -
  have "distinct (map hd (map (\<lambda>(i, k, e). [i, k, e]) (latest_rows t)))" for t
    using distinct_latest_rows [of t] by (simp add: comp_def case_prod_beta)
  moreover have "set (map (\<lambda>(i, k, e). [i, k, e]) (latest_rows t)) = {[i, k, e] | i k e. map_of t i = Some (k, e)}" for t
    using map_of_eq_Some_iff [OF distinct_latest_rows, of t] unfolding map_of_latest_rows by force
  ultimately show ?thesis
    unfolding sqlite_ok_def
    by (auto simp: memory_sqlite_def statement_does_def memory_rows_def memory_saved_def insert_query_def
        delete_query_def map_of_memory_upsert)
qed

definition ex_contact :: "nat \<Rightarrow> nat \<Rightarrow> (nat, (32 word, 128 word) endpoint, nat) Contact" where
  "ex_contact a k = Contact_both a (V4 0x7F000001, 5483) k"

definition ex_handler :: "memory BootstrapHandler" where
  "ex_handler = \<lparr>bh_database = ([], []), last_updated = 0\<rparr>"

lemma ex_handler_empty: "memory_rows (bh_database ex_handler) = table_of word_asio nat_prims Map.empty"
  by (simp add: memory_rows_def ex_handler_def table_of_empty)

subsection \<open>Properties of the handler\<close>

text \<open>
  C23. Adding contacts returns and is all or nothing, and the contacts can be read back. With a
  limit of at least three blobs for an insertion the loop over the batches ends. If \<open>Add\<close> throws,
  the table is as before. If it returns, the table has for every address that was given the last
  contact given for it, and its old contacts for the other addresses; and reading, unless the
  query itself throws, gives each of these contacts once, with both endpoints set to the one
  that was stored (changed only as reading an endpoint does).
\<close>

theorem bootstrap_add_then_read:
  assumes "sqlite_ok S rows saved" "prims_ok P" "asio_ok A" "3 \<le> InsertLimit S" "InsertLimit S < 2 ^ 31"
    "length cs < 2 ^ 63" "rows (bh_database h) = table_of A P ct"
  shows "\<exists>h' r. AddBootstrapContacts nd S A P now cs h = Some (h', r)
    \<and> (case r of
         Inl _ \<Rightarrow> rows (bh_database h') = table_of A P ct
       | Inr _ \<Rightarrow> rows (bh_database h') = table_of A P (store_contacts cs ct)
           \<and> ((\<exists>e. select_rows S select_query (bh_database h') = Inl e)
              \<or> (\<exists>res. ReadBootstrapContacts S A P h' = Inr res \<and> contact_list A (store_contacts cs ct) res)))"
proof -
  have ins: "\<exists>res. InsertBootstrapContacts nd S A P cs db = Some res
      \<and> statement_does rows saved (upsert (concat (map (contact_blobs A P) cs))) db res" for db
    by (rule Insert_returns [OF assms(1,2,4,5,6)])
  obtain db r where t: "in_transaction S (InsertBootstrapContacts nd S A P cs) (bh_database h) = Some (db, r)"
    "rows db = (case r of Inl _ \<Rightarrow> table_of A P ct | Inr _ \<Rightarrow> table_of A P (store_contacts cs ct))"
    using transaction_atomic [OF assms(1) ins, of "bh_database h"]
    unfolding assms(7) upsert_contacts [OF assms(2)] by blast
  have "AddBootstrapContacts nd S A P now cs h = Some (h\<lparr>bh_database := db\<rparr>, r)"
    using t(1) by (auto simp: AddBootstrapContacts_def CheckBootstrapContacts_def Let_def split: sum.splits)
  moreover have "rows (bh_database (h\<lparr>bh_database := db\<rparr>)) = table_of A P (store_contacts cs ct)" if "r = Inr ()"
    using t(2) that by simp
  ultimately show ?thesis
    using t(2) Read_either [OF assms(2,3,1), of "h\<lparr>bh_database := db\<rparr>" "store_contacts cs ct"]
    by (intro exI [of _ "h\<lparr>bh_database := db\<rparr>"] exI [of _ r]) (auto split: sum.splits)
qed

theorem bootstrap_add_then_read_witness:
  "\<exists>h' r. AddBootstrapContacts False memory_sqlite word_asio nat_prims 5 [ex_contact 1 2, ex_contact 3 4, ex_contact 1 5] ex_handler
      = Some (h', r)
    \<and> store_contacts [ex_contact 1 2, ex_contact 3 4, ex_contact 1 5] Map.empty 1 = Some ((V4 0x7F000001, 5483), 5)"
proof -
  have l: "3 \<le> InsertLimit memory_sqlite" "InsertLimit memory_sqlite < 2 ^ 31" by (simp_all add: memory_sqlite_def)
  show ?thesis
    using bootstrap_add_then_read [OF memory_sqlite_ok nat_prims_ok word_asio_ok l _ ex_handler_empty,
        of "[ex_contact 1 2, ex_contact 3 4, ex_contact 1 5]" False 5]
    by (auto simp: store_contacts_def ex_contact_def Contact_both_def EndpointPair_both_def)
qed

text \<open>
  C24. Replacing the contacts returns and is all or nothing. If it throws, the table is as before.
  If it returns, the table has exactly the first \<open>MaxListSize\<close> contacts that were given (the last
  one of each address), and whoever reads it gets at most \<open>MaxListSize\<close> contacts.
\<close>

theorem bootstrap_replace:
  assumes "sqlite_ok S rows saved" "prims_ok P" "asio_ok A" "3 \<le> InsertLimit S" "InsertLimit S < 2 ^ 31"
    "rows (bh_database h) = table_of A P ct"
  shows "\<exists>h' r. ReplaceBootstrapContacts nd S A P cs h = Some (h', r)
    \<and> (case r of
         Inl _ \<Rightarrow> rows (bh_database h') = table_of A P ct
       | Inr _ \<Rightarrow> rows (bh_database h') = table_of A P (store_contacts (take MaxListSize cs) Map.empty)
           \<and> ((\<exists>e. select_rows S select_query (bh_database h') = Inl e)
              \<or> (\<exists>res. ReadBootstrapContacts S A P h' = Inr res \<and> length res \<le> MaxListSize)))"
proof -
  define cs' where "cs' = take MaxListSize cs"
  have len: "length cs' \<le> MaxListSize" "length cs' < 2 ^ 63" by (auto simp: cs'_def MaxListSize_def)
  have if_take: "(if length cs > MaxListSize then take MaxListSize cs else cs) = cs'" by (simp add: cs'_def)
  define body where "body = (\<lambda>db. case RemoveBootstrapContacts S db of (db', Inl e) \<Rightarrow> Some (db', Inl e)
      | (db', Inr _) \<Rightarrow> InsertBootstrapContacts nd S A P cs' db')"
  have "\<exists>res. body db = Some res \<and> statement_does rows saved (\<lambda>_. upsert (concat (map (contact_blobs A P) cs')) Map.empty) db res" for db
    using sqlite_okD(2) [OF assms(1), of db] Insert_returns [OF assms(1,2,4,5) len(2), of nd A]
    by (fastforce simp: body_def RemoveBootstrapContacts_def statement_does_def split: prod.splits sum.splits)
  from transaction_atomic [OF assms(1) this, of "bh_database h"]
  obtain db r where t: "in_transaction S body (bh_database h) = Some (db, r)"
    "rows db = (case r of Inl _ \<Rightarrow> table_of A P ct | Inr _ \<Rightarrow> table_of A P (store_contacts cs' Map.empty))"
    unfolding assms(6) upsert_contacts [OF assms(2), of A cs' Map.empty, unfolded table_of_empty] by blast
  have "ReplaceBootstrapContacts nd S A P cs h = Some (h\<lparr>bh_database := db\<rparr>, r)"
    using t(1) unfolding ReplaceBootstrapContacts_def body_def if_take Let_def by simp
  moreover have "length res \<le> MaxListSize" if "contact_list A (store_contacts cs' Map.empty) res" for res
    using contact_list_length [OF that, of cs'] len(1) by (simp add: dom_store_contacts)
  ultimately show ?thesis
    using t(2) Read_either [OF assms(2,3,1), of "h\<lparr>bh_database := db\<rparr>" "store_contacts cs' Map.empty"]
    by (intro exI [of _ "h\<lparr>bh_database := db\<rparr>"] exI [of _ r]) (auto simp: cs'_def split: sum.splits)
qed

theorem bootstrap_replace_witness:
  "\<exists>h' r. ReplaceBootstrapContacts False memory_sqlite word_asio nat_prims (replicate 2000 (ex_contact 1 2)) ex_handler = Some (h', r)"
proof -
  have l: "3 \<le> InsertLimit memory_sqlite" "InsertLimit memory_sqlite < 2 ^ 31" by (simp_all add: memory_sqlite_def)
  show ?thesis
    using bootstrap_replace [OF memory_sqlite_ok nat_prims_ok word_asio_ok l ex_handler_empty,
        of False "replicate 2000 (ex_contact 1 2)"] by blast
qed

end
