(* ===== verification/Async_Queue.thy ===== *)
theory Async_Queue
  imports Routing_Prelude
begin

section \<open>The asynchronous queue and the exchange of a socket\<close>

text \<open>
  Models \<^verbatim>\<open>async_queue.h\<close> and \<^verbatim>\<open>async_exchange.h\<close>. The queue holds either values nobody
  has asked for or handlers waiting for a value. The part of an operation that runs under the
  mutex is one step of the model; the handler is called after the mutex is released, so a step
  returns the call to make, a handler with the tuple it gets.
\<close>

subsection \<open>Calling a handler with a tuple\<close>

text \<open>
  \<open>AsyncPop\<close> calls its handler with the members of a tuple, picked by a list of indices that a
  recursive template makes at compile time. A tuple is the list of its members, \<open>'u\<close> the union of
  their types, and a function of many arguments a function of their list.
\<close>

fun GeneratedSequence :: "nat \<Rightarrow> nat list \<Rightarrow> nat list" where
  "GeneratedSequence 0 Is = Is"
| "GeneratedSequence (Suc n) Is = GeneratedSequence n (n # Is)"

definition ApplyTuple_index :: "('u list \<Rightarrow> 'r) \<Rightarrow> 'u list \<Rightarrow> nat list \<Rightarrow> 'r" where
  "ApplyTuple_index f tup Is = f (map ((!) tup) Is)"

definition ApplyTuple :: "('u list \<Rightarrow> 'r) \<Rightarrow> 'u list \<Rightarrow> 'r" where
  "ApplyTuple f tup = ApplyTuple_index f tup (GeneratedSequence (length tup) [])"

lemma GeneratedSequence_upt: "GeneratedSequence n Is = [0..<n] @ Is"
  by (induction n arbitrary: Is) simp_all

text \<open>The function gets every member once and in order: the call is that of the function and the tuple.\<close>

lemma ApplyTuple_all_members: "ApplyTuple f tup = f tup"
  by (simp add: ApplyTuple_def ApplyTuple_index_def GeneratedSequence_upt map_nth)

subsection \<open>AsyncQueue\<close>

record ('h, 'v) AsyncQueue =
  aq_handlers :: "'h list"
  aq_values :: "'v list"

definition AsyncQueue_new :: "('h, 'v) AsyncQueue" where
  "AsyncQueue_new = \<lparr>aq_handlers = [], aq_values = []\<rparr>"

definition Push :: "'v \<Rightarrow> ('h, 'v) AsyncQueue \<Rightarrow> ('h, 'v) AsyncQueue \<times> ('h \<times> 'v) option" where
  "Push args q =
     (case aq_handlers q of
        [] \<Rightarrow> (q\<lparr>aq_values := aq_values q @ [args]\<rparr>, None)
      | handler # hs \<Rightarrow> (q\<lparr>aq_handlers := hs\<rparr>, Some (handler, args)))"

definition AsyncPop :: "'h \<Rightarrow> ('h, 'v) AsyncQueue \<Rightarrow> ('h, 'v) AsyncQueue \<times> ('h \<times> 'v) option" where
  "AsyncPop handler q =
     (case aq_values q of
        [] \<Rightarrow> (q\<lparr>aq_handlers := aq_handlers q @ [handler]\<rparr>, None)
      | tuple # vs \<Rightarrow> (q\<lparr>aq_values := vs\<rparr>, Some (handler, tuple)))"

subsection \<open>What a queue of this kind promises\<close>

datatype ('h, 'v) queue_op = Pushed 'v | Popped 'h

fun values_pushed :: "('h, 'v) queue_op list \<Rightarrow> 'v list" where
  "values_pushed [] = []"
| "values_pushed (Pushed v # ops) = v # values_pushed ops"
| "values_pushed (Popped h # ops) = values_pushed ops"

fun handlers_given :: "('h, 'v) queue_op list \<Rightarrow> 'h list" where
  "handlers_given [] = []"
| "handlers_given (Pushed v # ops) = handlers_given ops"
| "handlers_given (Popped h # ops) = h # handlers_given ops"

text \<open>The calls made by a sequence of operations, in the order they are made.\<close>

fun queue_run ::
  "('v \<Rightarrow> 'q \<Rightarrow> 'q \<times> ('h \<times> 'v) option) \<Rightarrow> ('h \<Rightarrow> 'q \<Rightarrow> 'q \<times> ('h \<times> 'v) option) \<Rightarrow>
   ('h, 'v) queue_op list \<Rightarrow> 'q \<Rightarrow> 'q \<times> ('h \<times> 'v) list" where
  "queue_run push pop [] q = (q, [])"
| "queue_run push pop (c # ops) q =
     (let (q', d) = (case c of Pushed v \<Rightarrow> push v q | Popped h \<Rightarrow> pop h q);
          (q'', ds) = queue_run push pop ops q'
      in (q'', (case d of None \<Rightarrow> ds | Some x \<Rightarrow> x # ds)))"

text \<open>
  The interface: the handlers waiting and the values stored, of which one is always empty.
  Everything a client needs follows from the four laws of the two operations.
\<close>

locale matching_queue =
  fixes ok :: "'q \<Rightarrow> bool" and waiting :: "'q \<Rightarrow> 'h list" and stored :: "'q \<Rightarrow> 'v list"
    and push :: "'v \<Rightarrow> 'q \<Rightarrow> 'q \<times> ('h \<times> 'v) option" and pop :: "'h \<Rightarrow> 'q \<Rightarrow> 'q \<times> ('h \<times> 'v) option"
  assumes one_empty: "ok q \<Longrightarrow> waiting q = [] \<or> stored q = []"
    and push_store: "ok q \<Longrightarrow> waiting q = [] \<Longrightarrow>
      \<exists>q'. push v q = (q', None) \<and> ok q' \<and> waiting q' = [] \<and> stored q' = stored q @ [v]"
    and push_call: "ok q \<Longrightarrow> waiting q = h # hs \<Longrightarrow>
      \<exists>q'. push v q = (q', Some (h, v)) \<and> ok q' \<and> waiting q' = hs \<and> stored q' = stored q"
    and pop_wait: "ok q \<Longrightarrow> stored q = [] \<Longrightarrow>
      \<exists>q'. pop h q = (q', None) \<and> ok q' \<and> waiting q' = waiting q @ [h] \<and> stored q' = []"
    and pop_call: "ok q \<Longrightarrow> stored q = v # vs \<Longrightarrow>
      \<exists>q'. pop h q = (q', Some (h, v)) \<and> ok q' \<and> waiting q' = waiting q \<and> stored q' = vs"
begin

text \<open>
  Values and handlers meet in order: the calls are the waiting handlers followed by those still
  to come, paired with the stored values followed by those still to come.
\<close>

lemma run_matches:
  assumes "ok q" "hs = waiting q @ handlers_given ops" "vs = stored q @ values_pushed ops"
  shows "\<exists>q'. queue_run push pop ops q = (q', zip hs vs) \<and> ok q'
    \<and> waiting q' = drop (length vs) hs \<and> stored q' = drop (length hs) vs"
  using assms
proof (induction ops arbitrary: q hs vs)
  case Nil
  then show ?case using one_empty [of q] by auto
next
  case (Cons c ops)
  show ?case
  proof (cases c)
    case (Pushed v)
    show ?thesis
    proof (cases "waiting q")
      case Nil
      then obtain q' where q': "push v q = (q', None)" "ok q'" "waiting q' = []" "stored q' = stored q @ [v]"
        using push_store [OF Cons.prems(1)] by blast
      then show ?thesis using Cons.IH [OF q'(2), of hs vs] Cons.prems Pushed Nil by auto
    next
      case (Cons h hs')
      then obtain q' where q': "push v q = (q', Some (h, v))" "ok q'" "waiting q' = hs'" "stored q' = stored q"
        using push_call [OF Cons.prems(1)] by blast
      have "stored q = []" using one_empty [OF Cons.prems(1)] Cons by simp
      then show ?thesis
        using Cons.IH [OF q'(2) refl refl] Cons.prems Pushed Cons q' by auto
    qed
  next
    case (Popped h)
    show ?thesis
    proof (cases "stored q")
      case Nil
      then obtain q' where q': "pop h q = (q', None)" "ok q'" "waiting q' = waiting q @ [h]" "stored q' = []"
        using pop_wait [OF Cons.prems(1)] by blast
      then show ?thesis using Cons.IH [OF q'(2), of hs vs] Cons.prems Popped Nil by auto
    next
      case (Cons v vs')
      then obtain q' where q': "pop h q = (q', Some (h, v))" "ok q'" "waiting q' = waiting q" "stored q' = vs'"
        using pop_call [OF Cons.prems(1)] by blast
      have "waiting q = []" using one_empty [OF Cons.prems(1)] Cons by simp
      then show ?thesis
        using Cons.IH [OF q'(2) refl refl] Cons.prems Popped Cons q' by auto
    qed
  qed
qed

end

definition queue_ok :: "('h, 'v) AsyncQueue \<Rightarrow> bool" where
  "queue_ok q \<longleftrightarrow> aq_handlers q = [] \<or> aq_values q = []"

interpretation aq: matching_queue queue_ok aq_handlers aq_values Push AsyncPop
  by unfold_locales (auto simp: queue_ok_def Push_def AsyncPop_def split: list.splits)

text \<open>
  C21. Values meet handlers in order and none is lost. Whatever sequence of \<open>Push\<close> and
  \<open>AsyncPop\<close> is made on a new queue, the n-th handler given is called with the n-th value
  pushed, exactly once and in this order; handlers without a value wait, values without a
  handler are kept, each in their order, and there is nothing else in the queue.
\<close>

theorem async_queue_matches:
  "queue_run Push AsyncPop ops AsyncQueue_new =
    (\<lparr>aq_handlers = drop (length (values_pushed ops)) (handlers_given ops),
      aq_values = drop (length (handlers_given ops)) (values_pushed ops)\<rparr>,
     zip (handlers_given ops) (values_pushed ops))"
proof -
  obtain q where "queue_run Push AsyncPop ops AsyncQueue_new = (q, zip (handlers_given ops) (values_pushed ops))"
    "aq_handlers q = drop (length (values_pushed ops)) (handlers_given ops)"
    "aq_values q = drop (length (handlers_given ops)) (values_pushed ops)"
    using aq.run_matches [of AsyncQueue_new "handlers_given ops" ops "values_pushed ops"]
    by (auto simp: queue_ok_def AsyncQueue_new_def)
  then show ?thesis by (cases q) simp
qed

subsection \<open>AsyncExchange\<close>

text \<open>
  One message each way over a socket. An error code is an option: \<open>None\<close> is a code that tests
  false. The state is shared by the two completion handlers, which the socket calls in either
  order; a completion handler returns the call of the user's handler it makes, if any.
\<close>

record 'x exchange_state =
  first_error :: "'x option option"
  rx_buffer :: "8 word list"
  tx_buffer :: "8 word list"

type_synonym 'x exchange_call = "'x option \<times> 8 word list"

definition max_buffer_size :: nat where
  "max_buffer_size = 262144"

definition AsyncExchange :: "8 word list \<Rightarrow> 'x exchange_state" where
  "AsyncExchange our_data =
     \<lparr>first_error = None, rx_buffer = replicate max_buffer_size 0, tx_buffer = our_data\<rparr>"

definition exchange_sent :: "'x option \<Rightarrow> 'x exchange_state \<Rightarrow> 'x exchange_state \<times> 'x exchange_call option" where
  "exchange_sent err st =
     (case first_error st of
        Some (Some e) \<Rightarrow> (st, Some (Some e, []))
      | Some None \<Rightarrow>
          (case err of
             Some e \<Rightarrow> (st, Some (Some e, []))
           | None \<Rightarrow> (st\<lparr>rx_buffer := []\<rparr>, Some (None, rx_buffer st)))
      | None \<Rightarrow> (st\<lparr>first_error := Some err\<rparr>, None))"

definition vector_resize :: "nat \<Rightarrow> 8 word list \<Rightarrow> 8 word list" where
  "vector_resize n xs = take n xs @ replicate (n - length xs) 0"

definition exchange_received ::
  "'x option \<Rightarrow> nat \<Rightarrow> 'x exchange_state \<Rightarrow> 'x exchange_state \<times> 'x exchange_call option" where
  "exchange_received err len st =
     (case first_error st of
        Some (Some e) \<Rightarrow> (st, Some (Some e, []))
      | Some None \<Rightarrow>
          (case err of
             Some e \<Rightarrow> (st, Some (Some e, []))
           | None \<Rightarrow> (st\<lparr>rx_buffer := []\<rparr>, Some (None, vector_resize len (rx_buffer st))))
      | None \<Rightarrow> (st\<lparr>first_error := Some err\<rparr>, None))"

text \<open>
  The socket finishes the two operations it was given, in some order. Before it reports a
  received message it has written its bytes to the start of the buffer.
\<close>

datatype 'x completion = Sent "'x option" | Received "'x option" "8 word list"

fun complete :: "'x completion \<Rightarrow> 'x exchange_state \<Rightarrow> 'x exchange_state \<times> 'x exchange_call option" where
  "complete (Sent err) st = exchange_sent err st"
| "complete (Received err bs) st =
     exchange_received err (length bs) (st\<lparr>rx_buffer := bs @ drop (length bs) (rx_buffer st)\<rparr>)"

fun complete_all :: "'x completion list \<Rightarrow> 'x exchange_state \<Rightarrow> 'x exchange_call list" where
  "complete_all [] st = []"
| "complete_all (c # cs) st =
     (let (st', call) = complete c st in (case call of None \<Rightarrow> [] | Some x \<Rightarrow> [x]) @ complete_all cs st')"

text \<open>What the handler gets when the two operations end with these errors, the first one first.\<close>

definition exchange_result :: "'x option \<Rightarrow> 'x option \<Rightarrow> 8 word list \<Rightarrow> 'x exchange_call" where
  "exchange_result err1 err2 bs =
     (case err1 of Some e \<Rightarrow> (Some e, []) | None \<Rightarrow> (case err2 of Some e \<Rightarrow> (Some e, []) | None \<Rightarrow> (None, bs)))"

text \<open>
  C22. The exchange calls its handler exactly once, when both operations are over, whichever
  ends first. If one of them failed the handler gets the error of the first one that did, and
  no data. If both succeeded and the sending ended first, the handler gets exactly the bytes
  received. If the receiving ended first, it gets the whole buffer: the bytes received, followed
  by zeros up to the size of the buffer.
\<close>

theorem async_exchange_calls_once:
  assumes "length bs \<le> max_buffer_size"
  shows "complete_all [Sent err1, Received err2 bs] (AsyncExchange our_data) = [exchange_result err1 err2 bs]
    \<and> complete_all [Received err2 bs, Sent err1] (AsyncExchange our_data)
        = [exchange_result err2 err1 (bs @ replicate (max_buffer_size - length bs) 0)]"
  using assms
  by (auto simp: AsyncExchange_def exchange_sent_def exchange_received_def exchange_result_def vector_resize_def
      split: option.splits)

theorem async_exchange_calls_once_witness:
  "complete_all [Sent None, Received None [1, 2]] (AsyncExchange [3]) = [(None :: unit option, [1, 2])]
   \<and> complete_all [Received None [1, 2], Sent None] (AsyncExchange [3])
       = [(None :: unit option, [1, 2] @ replicate 262142 0)]"
  using async_exchange_calls_once [of "[1, 2]" "None :: unit option" None "[3]"]
  by (simp add: max_buffer_size_def exchange_result_def del: replicate.simps complete_all.simps)

end
