(* ===== verification/Connection_Manager.thy ===== *)
theory Connection_Manager
  imports Async_Queue Archive
begin

section \<open>Peers and the connection manager\<close>

text \<open>
  Models \<^verbatim>\<open>peer_node.h\<close>, \<^verbatim>\<open>connection_manager.h\<close> and \<^verbatim>\<open>connection_manager.cc\<close>. The manager
  runs on one thread of an \<^verbatim>\<open>io_service\<close>: its operations start asynchronous operations on
  sockets, and the completion handlers of these run later, one at a time. The state therefore
  has the list of operations that are outstanding, and a handler is a function from states to
  states that is applied when one of them completes. Sockets, and the objects whose life is
  watched through a weak pointer (\<^verbatim>\<open>DestroyGuard\<close>), are numbers. What the code calls or sends is
  written to a log, latest first. Constructors of sockets and acceptors do not fail here.
\<close>

subsection \<open>Peers\<close>

datatype asio_error = operation_aborted | already_started | bad_descriptor | other_error nat

type_synonym error_code = "asio_error option"

definition MaxMessageSize :: nat where
  "MaxMessageSize = 1048576"

record ('a, 'f) PeerNode =
  peer_info :: "('a, 'f) NodeInfo"
  receive_buffer :: "byte list"
  peer_socket :: nat
  destroy_indicator :: nat

definition PeerNode_new :: "('a, 'f) NodeInfo \<Rightarrow> nat \<Rightarrow> nat \<Rightarrow> ('a, 'f) PeerNode" where
  "PeerNode_new info s g =
     \<lparr>peer_info = info, receive_buffer = replicate MaxMessageSize 0, peer_socket = s, destroy_indicator = g\<rparr>"

definition peer_id :: "('a, 'f) PeerNode \<Rightarrow> 'a" where
  "peer_id p = ni_id (peer_info p)"

subsection \<open>The state\<close>

text \<open>
  An operation that is outstanding holds what its completion handler captured: a port and a
  socket, a socket and the state of its exchange, the guard of a peer. The socket of an outgoing
  connection is captured as a weak pointer.
\<close>

datatype ('a, 'f, 'e, 'h) pending =
    Accepting "16 word" nat
  | AcceptExchange nat "asio_error exchange_state"
  | Connecting 'e nat "('a, 'f) NodeInfo option"
  | ConnectExchange 'e nat "('a, 'f) NodeInfo option" "asio_error exchange_state"
  | Receiving nat
  | Sending nat 'h

datatype ('a, 'h) cm_event =
    ConnectionAdded 'h 'a
  | MessageArrived 'h 'a "byte list"
  | SendDone 'h error_code
  | Transmitted nat "byte list"

text \<open>
  \<open>cm_running\<close> is the receive handler while it is being called, with the peer it is called for;
  until it returns no other completion handler runs, but the handler may call operations.
\<close>

record ('a, 'f, 'e, 'h) ConnectionManager =
  on_connection_added :: "'h option"
  on_receive :: "'h option"
  cm_our_fob :: 'f
  cm_our_id :: 'a
  acceptors :: "(16 word, nat) smap"
  being_connected :: "('e, nat) smap"
  peers :: "('a, ('a, 'f) PeerNode) smap"
  current_close_group :: "'a list"
  cm_alive :: bool
  cm_next :: nat
  cm_pending :: "('a, 'f, 'e, 'h) pending list"
  cm_running :: "('h \<times> nat) option"
  cm_log :: "('a, 'h) cm_event list"

definition Address_Comparison :: "('a, 'f, 'k) lib \<Rightarrow> 'a \<Rightarrow> 'a \<Rightarrow> 'a \<Rightarrow> bool" where
  "Address_Comparison L our_id lhs rhs = CloserToTarget L lhs rhs our_id"

abbreviation peer_less :: "('a, 'f, 'k) lib \<Rightarrow> ('a, 'f, 'e, 'h) ConnectionManager \<Rightarrow> 'a \<Rightarrow> 'a \<Rightarrow> bool" where
  "peer_less L cm \<equiv> Address_Comparison L (cm_our_id cm)"

definition ConnectionManager_new :: "('a, 'f, 'k) lib \<Rightarrow> 'f \<Rightarrow> ('a, 'f, 'e, 'h) ConnectionManager" where
  "ConnectionManager_new L our_fob =
     \<lparr>on_connection_added = None, on_receive = None, cm_our_fob = our_fob, cm_our_id = fob_name L our_fob,
      acceptors = [], being_connected = [], peers = [], current_close_group = [], cm_alive = True,
      cm_next = 0, cm_pending = [], cm_running = None, cm_log = []\<rparr>"

definition log_event :: "('a, 'h) cm_event \<Rightarrow> ('a, 'f, 'e, 'h) ConnectionManager \<Rightarrow> ('a, 'f, 'e, 'h) ConnectionManager" where
  "log_event ev cm = cm\<lparr>cm_log := ev # cm_log cm\<rparr>"

definition start :: "('a, 'f, 'e, 'h) pending \<Rightarrow> ('a, 'f, 'e, 'h) ConnectionManager \<Rightarrow> ('a, 'f, 'e, 'h) ConnectionManager" where
  "start op cm = cm\<lparr>cm_pending := cm_pending cm @ [op]\<rparr>"

definition finish :: "nat \<Rightarrow> ('a, 'f, 'e, 'h) ConnectionManager \<Rightarrow> ('a, 'f, 'e, 'h) ConnectionManager" where
  "finish i cm = cm\<lparr>cm_pending := erase_at i (cm_pending cm)\<rparr>"

text \<open>A weak pointer can be locked while its object is owned: a guard by a peer of the map, a
  socket of an outgoing connection by the map of such connections or by a peer.\<close>

definition guard_alive :: "nat \<Rightarrow> ('a, 'f, 'e, 'h) ConnectionManager \<Rightarrow> bool" where
  "guard_alive g cm = list_ex (\<lambda>(a, p). destroy_indicator p = g) (peers cm)"

definition socket_alive :: "nat \<Rightarrow> ('a, 'f, 'e, 'h) ConnectionManager \<Rightarrow> bool" where
  "socket_alive s cm \<longleftrightarrow> list_ex (\<lambda>(e, s'). s' = s) (being_connected cm) \<or> list_ex (\<lambda>(a, p). peer_socket p = s) (peers cm)"

subsection \<open>Lookups\<close>

definition IsManaged :: "('a, 'f, 'k) lib \<Rightarrow> 'a \<Rightarrow> ('a, 'f, 'e, 'h) ConnectionManager \<Rightarrow> bool" where
  "IsManaged L node_id cm = (smap_find (peer_less L cm) node_id (peers cm) \<noteq> None)"

definition GetTarget :: "'a \<Rightarrow> ('a, 'f, 'e, 'h) ConnectionManager \<Rightarrow> 'a list" where
  "GetTarget target_node cm = []"

definition FindPeer :: "('a, 'f, 'k) lib \<Rightarrow> 'a \<Rightarrow> ('a, 'f, 'e, 'h) ConnectionManager \<Rightarrow> ('a, 'f) PeerNode option" where
  "FindPeer L addr cm = smap_find (peer_less L cm) addr (peers cm)"

definition GetPublicKey :: "('a, 'f, 'k) lib \<Rightarrow> 'a \<Rightarrow> ('a, 'f, 'e, 'h) ConnectionManager \<Rightarrow> 'k option" where
  "GetPublicKey L node_id cm =
     (case smap_find (peer_less L cm) node_id (peers cm) of
        None \<Rightarrow> None
      | Some p \<Rightarrow> Some (fob_public_key L (dht_fob (peer_info p))))"

definition cm_Size :: "('a, 'f, 'e, 'h) ConnectionManager \<Rightarrow> 32 word" where
  "cm_Size cm = of_nat (length (peers cm))"

text \<open>The loop counts before it compares.\<close>

fun close_group_loop :: "nat \<Rightarrow> ('a, ('a, 'f) PeerNode) smap \<Rightarrow> 'f list" where
  "close_group_loop i [] = []"
| "close_group_loop i ((a, p) # m) =
     (if Suc i > GroupSize then [] else dht_fob (peer_info p) # close_group_loop (Suc i) m)"

definition OurCloseGroup :: "('a, 'f, 'e, 'h) ConnectionManager \<Rightarrow> 'f list" where
  "OurCloseGroup cm = close_group_loop 0 (peers cm)"

definition AddressInCloseGroupRange :: "('a, 'f, 'k) lib \<Rightarrow> 'a \<Rightarrow> ('a, 'f, 'e, 'h) ConnectionManager \<Rightarrow> bool" where
  "AddressInCloseGroupRange L address cm =
     (if length (peers cm) < GroupSize then True
      else smap_upper_rank (peer_less L cm) address (peers cm) < GroupSize)"

subsection \<open>Changes of the close group\<close>

definition GroupChanged ::
  "('a, 'f, 'k) lib \<Rightarrow> ('a, 'f, 'e, 'h) ConnectionManager \<Rightarrow>
   ('a, 'f, 'e, 'h) ConnectionManager \<times> 'a CloseGroupDifference option" where
  "GroupChanged L cm =
     (let new_group_ids = map (fob_name L) (OurCloseGroup cm) in
      if new_group_ids \<noteq> current_close_group cm
      then (cm\<lparr>current_close_group := new_group_ids\<rparr>, Some (new_group_ids, current_close_group cm))
      else (cm, None))"

definition cm_DropNode ::
  "('a, 'f, 'k) lib \<Rightarrow> 'a \<Rightarrow> ('a, 'f, 'e, 'h) ConnectionManager \<Rightarrow>
   ('a, 'f, 'e, 'h) ConnectionManager \<times> 'a CloseGroupDifference option" where
  "cm_DropNode L their_id cm = GroupChanged L (cm\<lparr>peers := smap_erase (peer_less L cm) their_id (peers cm)\<rparr>)"

subsection \<open>Receiving and sending\<close>

definition StartReceiving :: "nat \<Rightarrow> ('a, 'f, 'e, 'h) ConnectionManager \<Rightarrow> ('a, 'f, 'e, 'h) ConnectionManager" where
  "StartReceiving g cm = start (Receiving g) cm"

text \<open>
  The socket has written the bytes it received to the start of the peer's buffer. The handler is
  moved out of the manager and called with the whole buffer.
\<close>

definition update_peer ::
  "nat \<Rightarrow> (('a, 'f) PeerNode \<Rightarrow> ('a, 'f) PeerNode) \<Rightarrow> ('a, 'f, 'e, 'h) ConnectionManager \<Rightarrow> ('a, 'f, 'e, 'h) ConnectionManager" where
  "update_peer g f cm = cm\<lparr>peers := map (\<lambda>(a, p). (a, if destroy_indicator p = g then f p else p)) (peers cm)\<rparr>"

definition write_buffer :: "byte list \<Rightarrow> ('a, 'f) PeerNode \<Rightarrow> ('a, 'f) PeerNode" where
  "write_buffer bs p = p\<lparr>receive_buffer := bs @ drop (length bs) (receive_buffer p)\<rparr>"

definition received_begin ::
  "nat \<Rightarrow> error_code \<Rightarrow> byte list \<Rightarrow> ('a, 'f, 'e, 'h) ConnectionManager \<Rightarrow> ('a, 'f, 'e, 'h) ConnectionManager" where
  "received_begin g err bs cm =
     (let cm' = update_peer g (write_buffer bs) cm in
      case find (\<lambda>(a, p). destroy_indicator p = g) (peers cm') of
        None \<Rightarrow> cm'
      | Some (a, p) \<Rightarrow>
          if err \<noteq> None then cm'
          else (case on_receive cm' of
              None \<Rightarrow> cm'
            | Some h \<Rightarrow>
                log_event (MessageArrived h (peer_id p) (receive_buffer p))
                  (cm'\<lparr>on_receive := None, cm_running := Some (h, g)\<rparr>)))"

definition received_end :: "'h \<Rightarrow> nat \<Rightarrow> ('a, 'f, 'e, 'h) ConnectionManager \<Rightarrow> ('a, 'f, 'e, 'h) ConnectionManager" where
  "received_end h g cm =
     (let cm' = cm\<lparr>cm_running := None\<rparr> in
      if \<not> guard_alive g cm' then cm'
      else StartReceiving g (if on_receive cm' = None then cm'\<lparr>on_receive := Some h\<rparr> else cm'))"

text \<open>\<^verbatim>\<open>FindPeer(target)->Send(message, handler)\<close>: a null pointer is undefined behaviour.\<close>

definition PeerNode_Send ::
  "('a, 'f, 'k) lib \<Rightarrow> 'a \<Rightarrow> byte list \<Rightarrow> 'h \<Rightarrow> ('a, 'f, 'e, 'h) ConnectionManager \<Rightarrow>
   ('a, 'f, 'e, 'h) ConnectionManager result" where
  "PeerNode_Send L target msg h cm =
     (case FindPeer L target cm of
        None \<Rightarrow> Inl undefined_behaviour
      | Some p \<Rightarrow> Inr (log_event (Transmitted (peer_socket p) msg) (start (Sending (destroy_indicator p) h) cm)))"

definition on_sent :: "nat \<Rightarrow> 'h \<Rightarrow> error_code \<Rightarrow> ('a, 'f, 'e, 'h) ConnectionManager \<Rightarrow> ('a, 'f, 'e, 'h) ConnectionManager" where
  "on_sent g h err cm =
     (if \<not> guard_alive g cm then log_event (SendDone h (Some operation_aborted)) cm
      else log_event (SendDone h err)
        (if err \<noteq> None then update_peer g (\<lambda>p. p\<lparr>peer_info := (peer_info p)\<lparr>connected := False\<rparr>\<rparr>) cm else cm))"

subsection \<open>Making connections\<close>

definition InsertPeer ::
  "('a, 'f, 'k) lib \<Rightarrow> ('a, 'f) PeerNode \<Rightarrow> ('a, 'f, 'e, 'h) ConnectionManager \<Rightarrow> ('a, 'f, 'e, 'h) ConnectionManager" where
  "InsertPeer L node_arg cm =
     (case smap_find (peer_less L cm) (peer_id node_arg) (peers cm) of
        Some _ \<Rightarrow> cm
      | None \<Rightarrow>
          (let cm1 = cm\<lparr>peers := smap_insert (peer_less L cm) (peer_id node_arg) node_arg (peers cm)\<rparr>;
               cm2 = StartReceiving (destroy_indicator node_arg) cm1
           in (case on_connection_added cm2 of
                 None \<Rightarrow> cm2
               | Some h \<Rightarrow> log_event (ConnectionAdded h (peer_id node_arg)) cm2)))"

text \<open>\<^verbatim>\<open>InsertPeer(PeerNode(NodeInfo(...), socket))\<close>: the peer gets a new guard.\<close>

definition insert_new_peer ::
  "('a, 'f, 'k) lib \<Rightarrow> ('a, 'f) NodeInfo \<Rightarrow> nat \<Rightarrow> ('a, 'f, 'e, 'h) ConnectionManager \<Rightarrow> ('a, 'f, 'e, 'h) ConnectionManager" where
  "insert_new_peer L info s cm =
     InsertPeer L (PeerNode_new info s (cm_next cm)) (cm\<lparr>cm_next := Suc (cm_next cm)\<rparr>)"

definition StartAccepting :: "16 word \<Rightarrow> ('a, 'f, 'e, 'h) ConnectionManager \<Rightarrow> ('a, 'f, 'e, 'h) ConnectionManager" where
  "StartAccepting port cm =
     (let cm1 = (case smap_find (<) port (acceptors cm) of
                   None \<Rightarrow> cm\<lparr>acceptors := smap_insert (<) port (cm_next cm) (acceptors cm), cm_next := Suc (cm_next cm)\<rparr>
                 | Some _ \<Rightarrow> cm)
      in start (Accepting port (cm_next cm1)) (cm1\<lparr>cm_next := Suc (cm_next cm1)\<rparr>))"

text \<open>
  \<^verbatim>\<open>AsyncExchange(*socket, Serialise(our_fob_), ...)\<close> on a new connection: our fob is sent while theirs is
  awaited.
\<close>

definition exchange_identity ::
  "('a, 'f, 'k, 's, 'n, 't, 'x) prims \<Rightarrow> nat \<Rightarrow> (asio_error exchange_state \<Rightarrow> ('a, 'f, 'e, 'h) pending) \<Rightarrow>
   ('a, 'f, 'e, 'h) ConnectionManager \<Rightarrow> ('a, 'f, 'e, 'h) ConnectionManager" where
  "exchange_identity P s op cm =
     (let bytes = enc (p_fob P) (cm_our_fob cm) in start (op (AsyncExchange bytes)) (log_event (Transmitted s bytes) cm))"

definition on_accepted ::
  "('a, 'f, 'k, 's, 'n, 't, 'x) prims \<Rightarrow> 16 word \<Rightarrow> nat \<Rightarrow> error_code \<Rightarrow>
   ('a, 'f, 'e, 'h) ConnectionManager \<Rightarrow> ('a, 'f, 'e, 'h) ConnectionManager" where
  "on_accepted P port s err cm =
     (if \<not> cm_alive cm then cm
      else if err = Some operation_aborted then cm
      else exchange_identity P s (AcceptExchange s) (StartAccepting port cm))"

definition on_accept_exchanged ::
  "('a, 'f, 'k) lib \<Rightarrow> ('a, 'f, 'k, 's, 'n, 't, 'x) prims \<Rightarrow> nat \<Rightarrow> error_code \<Rightarrow> byte list \<Rightarrow>
   ('a, 'f, 'e, 'h) ConnectionManager \<Rightarrow> ('a, 'f, 'e, 'h) ConnectionManager \<times> unit result" where
  "on_accept_exchanged L P s err data cm =
     (if \<not> cm_alive cm then (cm, Inr ())
      else if err \<noteq> None then (cm, Inr ())
      else (case dec (p_fob P) data of
          None \<Rightarrow> (cm, Inl library_error)
        | Some (fob, _) \<Rightarrow>
            (insert_new_peer L (NodeInfo_new (fob_name L fob) fob True) s cm, Inr ())))"

definition cm_AddNode ::
  "('a, 'f) NodeInfo option \<Rightarrow> 'e::linorder EndpointPair \<Rightarrow> ('a, 'f, 'e, 'h) ConnectionManager \<Rightarrow>
   ('a, 'f, 'e, 'h) ConnectionManager" where
  "cm_AddNode assumed_node_info eps cm =
     (let endpoint = ep_external eps in
      case smap_find (<) endpoint (being_connected cm) of
        Some s \<Rightarrow> start (Connecting endpoint s assumed_node_info) cm
      | None \<Rightarrow>
          start (Connecting endpoint (cm_next cm) assumed_node_info)
            (cm\<lparr>being_connected := smap_insert (<) endpoint (cm_next cm) (being_connected cm), cm_next := Suc (cm_next cm)\<rparr>))"

definition on_connected ::
  "('a, 'f, 'k, 's, 'n, 't, 'x) prims \<Rightarrow> 'e::linorder \<Rightarrow> nat \<Rightarrow> ('a, 'f) NodeInfo option \<Rightarrow> error_code \<Rightarrow>
   ('a, 'f, 'e, 'h) ConnectionManager \<Rightarrow> ('a, 'f, 'e, 'h) ConnectionManager" where
  "on_connected P endpoint s assumed err cm =
     (if \<not> socket_alive s cm then cm
      else if err \<noteq> None then cm\<lparr>being_connected := smap_erase (<) endpoint (being_connected cm)\<rparr>
      else exchange_identity P s (ConnectExchange endpoint s assumed) cm)"

definition on_connect_exchanged ::
  "('a, 'f, 'k) lib \<Rightarrow> ('a, 'f, 'k, 's, 'n, 't, 'x) prims \<Rightarrow> 'e::linorder \<Rightarrow> nat \<Rightarrow> ('a, 'f) NodeInfo option \<Rightarrow>
   error_code \<Rightarrow> byte list \<Rightarrow> ('a, 'f, 'e, 'h) ConnectionManager \<Rightarrow> ('a, 'f, 'e, 'h) ConnectionManager \<times> unit result" where
  "on_connect_exchanged L P endpoint s assumed err data cm =
     (if \<not> socket_alive s cm then (cm, Inr ())
      else let cm' = cm\<lparr>being_connected := smap_erase (<) endpoint (being_connected cm)\<rparr> in
        if err \<noteq> None then (cm', Inr ())
        else (case dec (p_fob P) data of
            None \<Rightarrow> (cm', Inl library_error)
          | Some (fob, _) \<Rightarrow>
              (let their_node_info = NodeInfo_new (fob_name L fob) fob True in
               if (case assumed of None \<Rightarrow> False | Some i \<Rightarrow> NodeInfo_neq i their_node_info) then (cm', Inr ())
               else (insert_new_peer L their_node_info s cm', Inr ()))))"

definition Shutdown :: "('a, 'f, 'e, 'h) ConnectionManager \<Rightarrow> ('a, 'f, 'e, 'h) ConnectionManager" where
  "Shutdown cm = cm\<lparr>acceptors := [], being_connected := [], peers := []\<rparr>"

definition SetOnConnectionAdded :: "'h \<Rightarrow> ('a, 'f, 'e, 'h) ConnectionManager \<Rightarrow> ('a, 'f, 'e, 'h) ConnectionManager" where
  "SetOnConnectionAdded handler cm = cm\<lparr>on_connection_added := Some handler\<rparr>"

definition SetOnReceive :: "'h \<Rightarrow> ('a, 'f, 'e, 'h) ConnectionManager \<Rightarrow> ('a, 'f, 'e, 'h) ConnectionManager" where
  "SetOnReceive handler cm = cm\<lparr>on_receive := Some handler\<rparr>"

definition ConnectionManager_destroy :: "('a, 'f, 'e, 'h) ConnectionManager \<Rightarrow> ('a, 'f, 'e, 'h) ConnectionManager" where
  "ConnectionManager_destroy cm = cm\<lparr>acceptors := [], being_connected := [], peers := [], cm_alive := False\<rparr>"

subsection \<open>Runs\<close>

text \<open>The operations others call, also from inside a handler\<close>

inductive cm_op ::
  "('a, 'f, 'k) lib \<Rightarrow> ('a, 'f, 'e::linorder, 'h) ConnectionManager \<Rightarrow> ('a, 'f, 'e, 'h) ConnectionManager \<Rightarrow> bool"
  for L where
  op_on_added: "cm_op L cm (SetOnConnectionAdded h cm)"
| op_on_receive: "cm_op L cm (SetOnReceive h cm)"
| op_accept: "cm_op L cm (StartAccepting port cm)"
| op_add: "cm_op L cm (cm_AddNode assumed eps cm)"
| op_drop: "cm_op L cm (fst (cm_DropNode L a cm))"
| op_send: "PeerNode_Send L a msg h cm = Inr cm' \<Longrightarrow> cm_op L cm cm'"
| op_shutdown: "cm_op L cm (Shutdown cm)"
| op_destroy: "cm_op L cm (ConnectionManager_destroy cm)"

text \<open>The completion of an outstanding operation, with whatever result\<close>

inductive cm_complete ::
  "('a, 'f, 'k) lib \<Rightarrow> ('a, 'f, 'k, 's, 'n, 't, 'x) prims \<Rightarrow>
   ('a, 'f, 'e::linorder, 'h) ConnectionManager \<Rightarrow> ('a, 'f, 'e, 'h) ConnectionManager \<Rightarrow> bool"
  for L P where
  done_accepting: "i < length (cm_pending cm) \<Longrightarrow> cm_pending cm ! i = Accepting port s \<Longrightarrow>
    cm_complete L P cm (on_accepted P port s err (finish i cm))"
| half_accept_exchange: "i < length (cm_pending cm) \<Longrightarrow> cm_pending cm ! i = AcceptExchange s ex \<Longrightarrow>
    complete c ex = (ex', None) \<Longrightarrow> cm_complete L P cm (start (AcceptExchange s ex') (finish i cm))"
| done_accept_exchange: "i < length (cm_pending cm) \<Longrightarrow> cm_pending cm ! i = AcceptExchange s ex \<Longrightarrow>
    complete c ex = (ex', Some (err, data)) \<Longrightarrow>
    cm_complete L P cm (fst (on_accept_exchanged L P s err data (finish i cm)))"
| done_connecting: "i < length (cm_pending cm) \<Longrightarrow> cm_pending cm ! i = Connecting e s assumed \<Longrightarrow>
    cm_complete L P cm (on_connected P e s assumed err (finish i cm))"
| half_connect_exchange: "i < length (cm_pending cm) \<Longrightarrow> cm_pending cm ! i = ConnectExchange e s assumed ex \<Longrightarrow>
    complete c ex = (ex', None) \<Longrightarrow> cm_complete L P cm (start (ConnectExchange e s assumed ex') (finish i cm))"
| done_connect_exchange: "i < length (cm_pending cm) \<Longrightarrow> cm_pending cm ! i = ConnectExchange e s assumed ex \<Longrightarrow>
    complete c ex = (ex', Some (err, data)) \<Longrightarrow>
    cm_complete L P cm (fst (on_connect_exchanged L P e s assumed err data (finish i cm)))"
| done_receiving: "i < length (cm_pending cm) \<Longrightarrow> cm_pending cm ! i = Receiving g \<Longrightarrow>
    length bs \<le> MaxMessageSize \<Longrightarrow> cm_complete L P cm (received_begin g err bs (finish i cm))"
| done_sending: "i < length (cm_pending cm) \<Longrightarrow> cm_pending cm ! i = Sending g h \<Longrightarrow>
    cm_complete L P cm (on_sent g h err (finish i cm))"

inductive cm_step ::
  "('a, 'f, 'k) lib \<Rightarrow> ('a, 'f, 'k, 's, 'n, 't, 'x) prims \<Rightarrow>
   ('a, 'f, 'e::linorder, 'h) ConnectionManager \<Rightarrow> ('a, 'f, 'e, 'h) ConnectionManager \<Rightarrow> bool"
  for L P where
  step_op: "cm_op L cm cm' \<Longrightarrow> cm_step L P cm cm'"
| step_complete: "cm_running cm = None \<Longrightarrow> cm_complete L P cm cm' \<Longrightarrow> cm_step L P cm cm'"
| step_return: "cm_running cm = Some (h, g) \<Longrightarrow> cm_step L P cm (received_end h g cm)"

inductive cm_run ::
  "('a, 'f, 'k) lib \<Rightarrow> ('a, 'f, 'k, 's, 'n, 't, 'x) prims \<Rightarrow> ('a, 'f, 'e::linorder, 'h) ConnectionManager \<Rightarrow> bool"
  for L P where
  run_new: "cm_run L P (ConnectionManager_new L fob)"
| run_step: "cm_run L P cm \<Longrightarrow> cm_step L P cm cm' \<Longrightarrow> cm_run L P cm'"

subsection \<open>The invariant\<close>

fun pending_guards :: "('a, 'f, 'e, 'h) pending list \<Rightarrow> nat list" where
  "pending_guards [] = []"
| "pending_guards (Receiving g # ops) = g # pending_guards ops"
| "pending_guards (_ # ops) = pending_guards ops"

text \<open>The peers that a receive operation is outstanding for, or whose message is being handled\<close>

definition receiving :: "('a, 'f, 'e, 'h) ConnectionManager \<Rightarrow> nat list" where
  "receiving cm = (case cm_running cm of None \<Rightarrow> [] | Some (h, g) \<Rightarrow> [g]) @ pending_guards (cm_pending cm)"

definition peers_ok :: "('a, 'f, 'k) lib \<Rightarrow> ('a, 'f, 'e, 'h) ConnectionManager \<Rightarrow> bool" where
  "peers_ok L cm \<longleftrightarrow> smap_wf (peer_less L cm) (peers cm)
     \<and> (\<forall>x \<in> set (peers cm). peer_id (snd x) = fst x \<and> fob_name L (dht_fob (peer_info (snd x))) = fst x)"

definition guards_ok :: "('a, 'f, 'e, 'h) ConnectionManager \<Rightarrow> bool" where
  "guards_ok cm \<longleftrightarrow> distinct (map (\<lambda>x. destroy_indicator (snd x)) (peers cm))
     \<and> (\<forall>x \<in> set (peers cm). destroy_indicator (snd x) < cm_next cm)
     \<and> distinct (receiving cm) \<and> (\<forall>g \<in> set (receiving cm). g < cm_next cm)"

definition cm_inv :: "('a, 'f, 'k) lib \<Rightarrow> ('a, 'f, 'e, 'h) ConnectionManager \<Rightarrow> bool" where
  "cm_inv L cm \<longleftrightarrow> peers_ok L cm \<and> guards_ok cm"

lemmas cm_inv_defs = cm_inv_def peers_ok_def guards_ok_def receiving_def

lemma pending_guards_append [simp]: "pending_guards (xs @ ys) = pending_guards xs @ pending_guards ys"
  by (induction xs rule: pending_guards.induct) auto

lemma pending_guards_erase_at:
  assumes "i < length ops"
  shows "distinct (pending_guards ops) \<Longrightarrow> distinct (pending_guards (erase_at i ops))"
    "set (pending_guards (erase_at i ops)) \<subseteq> set (pending_guards ops)"
    "distinct (pending_guards ops) \<Longrightarrow> ops ! i = Receiving g \<Longrightarrow>
      g \<in> set (pending_guards ops) \<and> g \<notin> set (pending_guards (erase_at i ops))"
proof -
  have ops: "ops = take i ops @ [ops ! i] @ drop (Suc i) ops" using id_take_nth_drop [OF assms] by simp
  have g: "pending_guards ops = pending_guards (take i ops) @ pending_guards [ops ! i] @ pending_guards (drop (Suc i) ops)"
    by (subst ops) (simp only: pending_guards_append)
  show "distinct (pending_guards ops) \<Longrightarrow> distinct (pending_guards (erase_at i ops))"
    "set (pending_guards (erase_at i ops)) \<subseteq> set (pending_guards ops)"
    "distinct (pending_guards ops) \<Longrightarrow> ops ! i = Receiving g \<Longrightarrow>
      g \<in> set (pending_guards ops) \<and> g \<notin> set (pending_guards (erase_at i ops))"
    unfolding erase_at_def g by auto
qed

lemma smap_insert_subset: "set (smap_insert lt k v m) \<subseteq> insert (k, v) (set m)"
  by (induction lt k v m rule: smap_insert.induct) (auto split: if_splits)

lemma distinct_smap_insert:
  "distinct (map f m) \<Longrightarrow> f (k, v) \<notin> f ` set m \<Longrightarrow> distinct (map f (smap_insert lt k v m))"
proof (induction lt k v m rule: smap_insert.induct)
  case (2 lt k v k' v' m)
  then show ?case using smap_insert_subset [of lt k v m] by (auto simp: image_iff)
qed simp

lemma closer_less: "closer_order L \<Longrightarrow> strict_linear_order (Address_Comparison L our_id)"
  unfolding closer_order_def Address_Comparison_def by blast

text \<open>An operation that leaves the peers alone and starts no receiving keeps the invariant.\<close>

lemma cm_inv_frame:
  assumes "cm_inv L cm" "peers cm' = peers cm" "cm_our_id cm' = cm_our_id cm" "cm_next cm \<le> cm_next cm'"
    "distinct (receiving cm')" "set (receiving cm') \<subseteq> set (receiving cm)"
  shows "cm_inv L cm'"
  using assms unfolding cm_inv_def peers_ok_def guards_ok_def by (metis order.strict_trans2 subsetD)

lemma cm_inv_receiving: "cm_inv L cm \<Longrightarrow> distinct (receiving cm)"
  by (simp add: cm_inv_def guards_ok_def)

lemma receiving_start [simp]:
  "receiving (start op cm) = receiving cm @ pending_guards [op]"
  by (simp add: receiving_def start_def)

lemma start_simps [simp]:
  "peers (start op cm) = peers cm" "cm_our_id (start op cm) = cm_our_id cm" "cm_next (start op cm) = cm_next cm"
  "on_connection_added (start op cm) = on_connection_added cm" "on_receive (start op cm) = on_receive cm"
  "cm_running (start op cm) = cm_running cm" "being_connected (start op cm) = being_connected cm"
  "cm_log (start op cm) = cm_log cm" "cm_alive (start op cm) = cm_alive cm" "cm_our_fob (start op cm) = cm_our_fob cm"
  "current_close_group (start op cm) = current_close_group cm"
  by (simp_all add: start_def)

lemma log_event_simps [simp]:
  "peers (log_event ev cm) = peers cm" "cm_our_id (log_event ev cm) = cm_our_id cm" "cm_next (log_event ev cm) = cm_next cm"
  "receiving (log_event ev cm) = receiving cm" "on_receive (log_event ev cm) = on_receive cm"
  "cm_running (log_event ev cm) = cm_running cm" "cm_log (log_event ev cm) = ev # cm_log cm"
  "cm_pending (log_event ev cm) = cm_pending cm" "current_close_group (log_event ev cm) = current_close_group cm"
  "on_connection_added (log_event ev cm) = on_connection_added cm" "being_connected (log_event ev cm) = being_connected cm"
  "acceptors (log_event ev cm) = acceptors cm" "cm_our_fob (log_event ev cm) = cm_our_fob cm" "cm_alive (log_event ev cm) = cm_alive cm"
  by (simp_all add: log_event_def receiving_def)

lemma finish_simps [simp]:
  "peers (finish i cm) = peers cm" "cm_our_id (finish i cm) = cm_our_id cm" "cm_next (finish i cm) = cm_next cm"
  "on_connection_added (finish i cm) = on_connection_added cm" "on_receive (finish i cm) = on_receive cm"
  "cm_running (finish i cm) = cm_running cm" "being_connected (finish i cm) = being_connected cm"
  "cm_log (finish i cm) = cm_log cm" "cm_alive (finish i cm) = cm_alive cm" "cm_our_fob (finish i cm) = cm_our_fob cm"
  "current_close_group (finish i cm) = current_close_group cm"
  by (simp_all add: finish_def)

lemma receiving_simps [simp]:
  "receiving (cm\<lparr>cm_next := n\<rparr>) = receiving cm" "receiving (cm\<lparr>peers := m\<rparr>) = receiving cm"
  "receiving (cm\<lparr>being_connected := b\<rparr>) = receiving cm" "receiving (cm\<lparr>acceptors := ac\<rparr>) = receiving cm"
  "receiving (cm\<lparr>on_receive := r\<rparr>) = receiving cm" "receiving (cm\<lparr>on_connection_added := r\<rparr>) = receiving cm"
  "receiving (cm\<lparr>current_close_group := gr\<rparr>) = receiving cm" "receiving (cm\<lparr>cm_alive := al\<rparr>) = receiving cm"
  by (simp_all add: receiving_def)

lemma receiving_finish:
  assumes "i < length (cm_pending cm)" "distinct (receiving cm)"
  shows "distinct (receiving (finish i cm))" "set (receiving (finish i cm)) \<subseteq> set (receiving cm)"
    "cm_pending cm ! i = Receiving g \<Longrightarrow> g \<in> set (receiving cm) \<and> g \<notin> set (receiving (finish i cm))"
  using assms pending_guards_erase_at [OF assms(1)]
  by (auto simp: receiving_def finish_def split: option.splits)

lemma cm_inv_finish:
  "cm_inv L cm \<Longrightarrow> i < length (cm_pending cm) \<Longrightarrow> cm_inv L (finish i cm)"
  by (rule cm_inv_frame [of L cm]) (auto dest: cm_inv_receiving receiving_finish)

text \<open>What the invariant does not look at\<close>

lemma cm_inv_ignores [simp]:
  "cm_inv L (log_event ev cm) = cm_inv L cm" "cm_inv L (cm\<lparr>current_close_group := gr\<rparr>) = cm_inv L cm"
  "cm_inv L (cm\<lparr>being_connected := b\<rparr>) = cm_inv L cm" "cm_inv L (cm\<lparr>acceptors := ac\<rparr>) = cm_inv L cm"
  "cm_inv L (cm\<lparr>on_receive := r\<rparr>) = cm_inv L cm" "cm_inv L (cm\<lparr>on_connection_added := r\<rparr>) = cm_inv L cm"
  "cm_inv L (cm\<lparr>cm_alive := al\<rparr>) = cm_inv L cm"
  by (simp_all add: cm_inv_def peers_ok_def guards_ok_def)

text \<open>Taking peers away, and changing what a peer's identity does not depend on\<close>

lemma cm_inv_erase:
  "cm_inv L cm \<Longrightarrow> cm_inv L (cm\<lparr>peers := smap_erase (peer_less L cm) a (peers cm)\<rparr>)"
  unfolding cm_inv_def peers_ok_def guards_ok_def smap_erase_def
  by (auto simp: smap_wf_def ordered_by_filter distinct_map_filter)

lemma cm_inv_no_peers: "cm_inv L cm \<Longrightarrow> cm_inv L (cm\<lparr>peers := []\<rparr>)"
  unfolding cm_inv_def peers_ok_def guards_ok_def by (simp add: smap_wf_def)

lemma update_peer_simps [simp]:
  "cm_our_id (update_peer g f cm) = cm_our_id cm" "cm_next (update_peer g f cm) = cm_next cm"
  "receiving (update_peer g f cm) = receiving cm" "on_receive (update_peer g f cm) = on_receive cm"
  "cm_running (update_peer g f cm) = cm_running cm" "cm_log (update_peer g f cm) = cm_log cm"
  "cm_pending (update_peer g f cm) = cm_pending cm" "map fst (peers (update_peer g f cm)) = map fst (peers cm)"
  by (simp_all add: update_peer_def receiving_def comp_def case_prod_beta)

lemma cm_inv_update_peer:
  assumes "cm_inv L cm" "\<And>p. peer_id (f p) = peer_id p" "\<And>p. dht_fob (peer_info (f p)) = dht_fob (peer_info p)"
    "\<And>p. destroy_indicator (f p) = destroy_indicator p"
  shows "cm_inv L (update_peer g f cm)"
proof -
  have wf: "smap_wf (peer_less L cm) (peers (update_peer g f cm)) = smap_wf (peer_less L cm) (peers cm)"
    by (simp add: smap_wf_def ordered_by_def update_peer_def sorted_wrt_map case_prod_beta)
  have guards: "map (\<lambda>x. destroy_indicator (snd x)) (peers (update_peer g f cm)) = map (\<lambda>x. destroy_indicator (snd x)) (peers cm)"
    using assms(4) by (auto simp: update_peer_def)
  have same: "\<exists>y \<in> set (peers cm). fst x = fst y \<and> peer_id (snd x) = peer_id (snd y)
      \<and> dht_fob (peer_info (snd x)) = dht_fob (peer_info (snd y)) \<and> destroy_indicator (snd x) = destroy_indicator (snd y)"
    if x: "x \<in> set (peers (update_peer g f cm))" for x
  proof -
    obtain a p where p: "(a, p) \<in> set (peers cm)" "x = (a, if destroy_indicator p = g then f p else p)"
      using x by (auto simp: update_peer_def)
    then show ?thesis using assms(2-4) by (intro bexI [of _ "(a, p)"]) simp_all
  qed
  have "peer_id (snd x) = fst x \<and> fob_name L (dht_fob (peer_info (snd x))) = fst x \<and> destroy_indicator (snd x) < cm_next cm"
    if "x \<in> set (peers (update_peer g f cm))" for x
    using same [OF that] assms(1) by (auto simp: cm_inv_def peers_ok_def guards_ok_def)
  then show ?thesis
    using assms(1) wf guards unfolding cm_inv_def peers_ok_def guards_ok_def by simp
qed

lemma cm_inv_write_buffer: "cm_inv L cm \<Longrightarrow> cm_inv L (update_peer g (write_buffer bs) cm)"
  by (rule cm_inv_update_peer) (simp_all add: write_buffer_def peer_id_def)

lemma cm_inv_disconnected:
  "cm_inv L cm \<Longrightarrow> cm_inv L (update_peer g (\<lambda>p. p\<lparr>peer_info := (peer_info p)\<lparr>connected := False\<rparr>\<rparr>) cm)"
  by (rule cm_inv_update_peer) (simp_all add: peer_id_def)

text \<open>A new peer: what \<open>InsertPeer\<close> does when the address is free, and when it is not\<close>

lemma insert_new_peer_cases:
  "insert_new_peer L info s cm =
     (if FindPeer L (ni_id info) cm \<noteq> None then cm\<lparr>cm_next := Suc (cm_next cm)\<rparr>
      else let peer = PeerNode_new info s (cm_next cm);
               cm' = start (Receiving (cm_next cm))
                 (cm\<lparr>cm_next := Suc (cm_next cm), peers := smap_insert (peer_less L cm) (ni_id info) peer (peers cm)\<rparr>)
           in (case on_connection_added cm of None \<Rightarrow> cm' | Some h \<Rightarrow> log_event (ConnectionAdded h (ni_id info)) cm'))"
  by (simp add: insert_new_peer_def InsertPeer_def FindPeer_def PeerNode_new_def peer_id_def StartReceiving_def Let_def
      split: option.splits)

lemma cm_inv_insert_peer:
  assumes ord: "closer_order L" and inv: "cm_inv L cm" and free: "FindPeer L a cm = None"
    and peer: "peer_id peer = a" "fob_name L (dht_fob (peer_info peer)) = a" "destroy_indicator peer = cm_next cm"
  shows "cm_inv L (start (Receiving (cm_next cm))
    (cm\<lparr>cm_next := Suc (cm_next cm), peers := smap_insert (peer_less L cm) a peer (peers cm)\<rparr>))"
proof -
  note order = closer_less [OF ord, of "cm_our_id cm"]
  have old: "smap_wf (peer_less L cm) (peers cm)" "\<And>x. x \<in> set (peers cm) \<Longrightarrow> destroy_indicator (snd x) < cm_next cm"
    "distinct (receiving cm)" "\<And>g. g \<in> set (receiving cm) \<Longrightarrow> g < cm_next cm"
    using inv by (auto simp: cm_inv_def peers_ok_def guards_ok_def)
  define ins where "ins = smap_insert (peer_less L cm) a peer (peers cm)"
  have wf: "smap_wf (peer_less L cm) ins"
    unfolding ins_def by (rule strict_linear_order.smap_wf_insert [OF order old(1)])
  have guards: "distinct (map (\<lambda>x. destroy_indicator (snd x)) ins)"
    unfolding ins_def using inv old(2)
    by (intro distinct_smap_insert) (auto simp: cm_inv_def guards_ok_def peer(3) dest: old(2))
  have new: "x = (a, peer) \<or> x \<in> set (peers cm)" if "x \<in> set ins" for x
    using that smap_insert_subset [of "peer_less L cm" a peer "peers cm"] unfolding ins_def by blast
  have "\<forall>x \<in> set ins. peer_id (snd x) = fst x \<and> fob_name L (dht_fob (peer_info (snd x))) = fst x"
    using peer inv by (auto simp: cm_inv_def peers_ok_def dest!: new)
  moreover have "\<forall>x \<in> set ins. destroy_indicator (snd x) < Suc (cm_next cm)"
    using new peer(3) old(2) less_SucI by fastforce
  moreover have "distinct (receiving cm @ [cm_next cm])" "\<forall>g \<in> set (receiving cm @ [cm_next cm]). g < Suc (cm_next cm)"
    using old(3) by (auto dest!: old(4))
  ultimately show ?thesis
    using wf guards unfolding cm_inv_def peers_ok_def guards_ok_def ins_def [symmetric] by simp
qed

lemma cm_inv_insert_new_peer:
  assumes "closer_order L" "cm_inv L cm" "fob_name L (dht_fob info) = ni_id info"
  shows "cm_inv L (insert_new_peer L info s cm)"
proof (cases "FindPeer L (ni_id info) cm")
  case None
  have "cm_inv L (start (Receiving (cm_next cm)) (cm\<lparr>cm_next := Suc (cm_next cm),
      peers := smap_insert (peer_less L cm) (ni_id info) (PeerNode_new info s (cm_next cm)) (peers cm)\<rparr>))"
    using assms by (intro cm_inv_insert_peer None) (simp_all add: PeerNode_new_def peer_id_def)
  then show ?thesis using None by (simp add: insert_new_peer_cases Let_def split: option.splits)
next
  case (Some p)
  then show ?thesis
    using assms(2) by (auto simp: insert_new_peer_cases intro!: cm_inv_frame [OF assms(2)] dest: cm_inv_receiving)
qed

lemma cm_inv_start: "cm_inv L cm \<Longrightarrow> pending_guards [op] = [] \<Longrightarrow> cm_inv L (start op cm)"
  by (rule cm_inv_frame [of L cm]) (auto dest: cm_inv_receiving)

lemma cm_inv_StartAccepting: "cm_inv L cm \<Longrightarrow> cm_inv L (StartAccepting port cm)"
  by (rule cm_inv_frame [of L cm]) (auto simp: StartAccepting_def Let_def dest: cm_inv_receiving split: option.splits)

lemma cm_inv_op:
  assumes "cm_op L cm cm'" "cm_inv L cm"
  shows "cm_inv L cm'"
  using assms
proof (cases rule: cm_op.cases)
  case (op_drop a)
  then show ?thesis
    using cm_inv_erase [OF assms(2), of a]
    by (simp add: cm_DropNode_def GroupChanged_def Let_def)
next
  case (op_send a msg h)
  then show ?thesis
    using assms(2) by (auto simp: PeerNode_Send_def split: option.splits intro!: cm_inv_start)
next
  case op_shutdown
  then show ?thesis
    using cm_inv_no_peers [of L "cm\<lparr>acceptors := [], being_connected := []\<rparr>"] assms(2) by (simp add: Shutdown_def)
next
  case op_destroy
  then show ?thesis
    using cm_inv_no_peers [of L "cm\<lparr>acceptors := [], being_connected := []\<rparr>"] assms(2)
    by (simp add: ConnectionManager_destroy_def)
next
  case (op_add assumed eps)
  then show ?thesis
    using cm_inv_receiving [OF assms(2)]
    by (auto simp: cm_AddNode_def Let_def split: option.splits intro!: cm_inv_frame [OF assms(2)])
qed (simp_all add: SetOnConnectionAdded_def SetOnReceive_def cm_inv_StartAccepting)

lemma cm_inv_received_begin:
  assumes "cm_inv L cm" "cm_running cm = None" "g \<notin> set (receiving cm)" "g < cm_next cm"
  shows "cm_inv L (received_begin g err bs cm)"
proof -
  define cm1 where "cm1 = update_peer g (write_buffer bs) cm"
  have inv: "cm_inv L cm1" unfolding cm1_def by (rule cm_inv_write_buffer [OF assms(1)])
  have r: "cm_running cm1 = None" "receiving cm1 = receiving cm" "cm_next cm1 = cm_next cm"
    using assms(2) by (simp_all add: cm1_def)
  then have "receiving (cm1\<lparr>on_receive := None, cm_running := Some (h, g)\<rparr>) = g # receiving cm" for h
    by (simp add: receiving_def)
  then have "cm_inv L (log_event ev (cm1\<lparr>on_receive := None, cm_running := Some (h, g)\<rparr>))" for ev h
    using inv assms(3,4) r unfolding cm_inv_def peers_ok_def guards_ok_def by auto
  then show ?thesis
    using inv by (auto simp: received_begin_def Let_def cm1_def [symmetric] split: option.splits)
qed

lemma cm_inv_received_end:
  assumes "cm_inv L cm" "cm_running cm = Some (h, g)"
  shows "cm_inv L (received_end h g cm)"
proof -
  have r: "receiving cm = g # receiving (cm\<lparr>cm_running := None\<rparr>)" using assms(2) by (simp add: receiving_def)
  show ?thesis
    using cm_inv_receiving [OF assms(1)] r
    by (auto simp: received_end_def Let_def StartReceiving_def intro!: cm_inv_frame [OF assms(1)])
qed

lemma cm_inv_complete:
  assumes ord: "closer_order L" and step: "cm_complete L P cm cm'" and inv: "cm_inv L cm" and idle: "cm_running cm = None"
  shows "cm_inv L cm'"
  using step
proof (cases rule: cm_complete.cases)
  case (done_accepting i port s err)
  then show ?thesis
    using cm_inv_finish [OF inv] by (auto simp: on_accepted_def exchange_identity_def Let_def intro!: cm_inv_start cm_inv_StartAccepting)
next
  case (half_accept_exchange i s ex c ex')
  then show ?thesis using cm_inv_finish [OF inv] by (auto intro!: cm_inv_start)
next
  case (done_accept_exchange i s ex c ex' err data)
  then show ?thesis
    using cm_inv_finish [OF inv]
    by (auto simp: on_accept_exchanged_def split: option.splits intro!: cm_inv_insert_new_peer [OF ord])
next
  case (done_connecting i e s assumed err)
  then show ?thesis
    using cm_inv_finish [OF inv] by (auto simp: on_connected_def exchange_identity_def Let_def intro!: cm_inv_start)
next
  case (half_connect_exchange i e s assumed ex c ex')
  then show ?thesis using cm_inv_finish [OF inv] by (auto intro!: cm_inv_start)
next
  case (done_connect_exchange i e s assumed ex c ex' err data)
  then show ?thesis
    using cm_inv_finish [OF inv]
    by (auto simp: on_connect_exchanged_def Let_def split: option.splits
        intro!: cm_inv_insert_new_peer [OF ord])
next
  case (done_receiving i g bs err)
  have "g \<in> set (receiving cm)" "g \<notin> set (receiving (finish i cm))"
    using receiving_finish(3) [OF done_receiving(2) cm_inv_receiving [OF inv] done_receiving(3)] by auto
  moreover have "g < cm_next cm" using \<open>g \<in> set (receiving cm)\<close> inv by (simp add: cm_inv_def guards_ok_def)
  ultimately show ?thesis
    unfolding done_receiving(1) using cm_inv_finish [OF inv done_receiving(2)] idle
    by (intro cm_inv_received_begin) simp_all
next
  case (done_sending i g h err)
  have "cm_inv L (finish i cm)" by (rule cm_inv_finish [OF inv done_sending(2)])
  from this cm_inv_disconnected [OF this, of g] show ?thesis
    by (simp add: done_sending(1) on_sent_def)
qed

lemma cm_run_inv:
  assumes "closer_order L" "cm_run L P cm"
  shows "cm_inv L cm"
  using assms(2)
proof (induction rule: cm_run.induct)
  case (run_new fob)
  then show ?case by (simp add: ConnectionManager_new_def cm_inv_defs smap_wf_def)
next
  case (run_step cm cm')
  from run_step(2) show ?case
    by (cases rule: cm_step.cases)
      (use run_step(3) assms(1) in \<open>auto intro: cm_inv_op cm_inv_complete cm_inv_received_end\<close>)
qed

subsection \<open>Lookups on the invariant\<close>

lemma FindPeer_iff:
  assumes "closer_order L" "cm_inv L cm"
  shows "FindPeer L a cm = Some p \<longleftrightarrow> (a, p) \<in> set (peers cm)"
proof -
  have "smap_wf (peer_less L cm) (peers cm)" using assms(2) by (simp add: cm_inv_def peers_ok_def)
  note order = closer_less [OF assms(1), of "cm_our_id cm"]
  show ?thesis
    using strict_linear_order.smap_wf_distinct [OF order \<open>smap_wf _ _\<close>]
    by (simp add: FindPeer_def strict_linear_order.smap_find_map_of [OF order])
qed

lemma IsManaged_iff:
  assumes "closer_order L" "cm_inv L cm"
  shows "IsManaged L a cm \<longleftrightarrow> a \<in> fst ` set (peers cm)"
  using FindPeer_iff [OF assms, of a] by (force simp: IsManaged_def FindPeer_def image_iff)

lemma FindPeer_erase:
  assumes "closer_order L"
  shows "FindPeer L b (cm\<lparr>peers := smap_erase (peer_less L cm) a (peers cm)\<rparr>) = (if b = a then None else FindPeer L b cm)"
  by (simp add: FindPeer_def strict_linear_order.smap_find_map_of [OF closer_less [OF assms]]
      strict_linear_order.map_of_smap_erase [OF closer_less [OF assms]])

lemma FindPeer_insert:
  assumes "closer_order L" "cm_inv L cm" "FindPeer L a cm = None"
  shows "smap_find (peer_less L cm) b (smap_insert (peer_less L cm) a p (peers cm))
    = (if b = a then Some p else FindPeer L b cm)"
  using assms(2,3)
  by (simp add: FindPeer_def cm_inv_def peers_ok_def strict_linear_order.smap_find_map_of [OF closer_less [OF assms(1)]]
      strict_linear_order.map_of_smap_insert [OF closer_less [OF assms(1)]])

lemma GetPublicKey_FindPeer:
  "GetPublicKey L a cm = map_option (\<lambda>p. fob_public_key L (dht_fob (peer_info p))) (FindPeer L a cm)"
  by (simp add: GetPublicKey_def FindPeer_def split: option.splits)

lemma close_group_loop_take: "close_group_loop i m = map (\<lambda>x. dht_fob (peer_info (snd x))) (take (GroupSize - i) m)"
proof (induction i m rule: close_group_loop.induct)
  case (2 i a p m)
  show ?case
  proof (cases "i < GroupSize")
    case True
    then have "GroupSize - i = Suc (GroupSize - Suc i)" by simp
    with True 2 show ?thesis by simp
  qed simp
qed simp

lemma close_group_ids:
  assumes "cm_inv L cm"
  shows "map (fob_name L) (OurCloseGroup cm) = take GroupSize (map fst (peers cm))"
proof -
  have "fob_name L (dht_fob (peer_info (snd x))) = fst x" if "x \<in> set (take GroupSize (peers cm))" for x
    using in_set_takeD [OF that] assms by (simp add: cm_inv_def peers_ok_def)
  then show ?thesis by (simp add: OurCloseGroup_def close_group_loop_take take_map)
qed

lemma in_range_iff:
  assumes "closer_order L" "cm_inv L cm"
  shows "AddressInCloseGroupRange L x cm \<longleftrightarrow> length (peers cm) < GroupSize
    \<or> card {a. IsManaged L a cm \<and> (a = x \<or> CloserToTarget L a x (cm_our_id cm))} < GroupSize"
proof -
  have "{a. IsManaged L a cm \<and> (a = x \<or> CloserToTarget L a x (cm_our_id cm))}
      = {a \<in> fst ` set (peers cm). a = x \<or> peer_less L cm a x}"
    by (auto simp: IsManaged_iff [OF assms] Address_Comparison_def)
  then show ?thesis
    using strict_linear_order.smap_upper_rank_card [OF closer_less [OF assms(1)], of "cm_our_id cm" "peers cm" x] assms(2)
    by (simp add: AddressInCloseGroupRange_def cm_inv_def peers_ok_def)
qed

lemma in_range_nth:
  assumes "closer_order L" "cm_inv L cm" "GroupSize \<le> length (peers cm)" "i < length (peers cm)"
  shows "AddressInCloseGroupRange L (fst (peers cm ! i)) cm \<longleftrightarrow> Suc i < GroupSize"
  using strict_linear_order.smap_upper_rank_nth [OF closer_less [OF assms(1)], of "cm_our_id cm" "peers cm" i] assms(2-4)
  by (simp add: AddressInCloseGroupRange_def cm_inv_def peers_ok_def)

subsection \<open>An example\<close>

definition word_lib :: "(nat, nat, nat) lib" where
  "word_lib = \<lparr>NDEBUG = True, IsInitialised = (\<lambda>n. True), CloserToTarget = (\<lambda>x y t. x < y),
     CommonLeadingBits = (\<lambda>t x. 0), fob_name = (\<lambda>f. f), fob_public_key = (\<lambda>f. f + 100), ValidateKey = (\<lambda>k. True)\<rparr>"

lemma word_lib_order: "closer_order word_lib"
  by (auto simp: closer_order_def word_lib_def)

text \<open>A connection that is asked for, made, and confirmed by an exchange of identities\<close>

lemma finish_start [simp]: "finish (length (cm_pending cm)) (start op cm) = cm"
  by (simp add: finish_def start_def erase_at_def)

lemma nth_start:
  "length (cm_pending cm) < length (cm_pending (start op cm))" "cm_pending (start op cm) ! length (cm_pending cm) = op"
  by (simp_all add: start_def)

definition idle_complete ::
  "('a, 'f, 'k) lib \<Rightarrow> ('a, 'f, 'k, 's, 'n, 't, 'x) prims \<Rightarrow>
   ('a, 'f, 'e::linorder, 'h) ConnectionManager \<Rightarrow> ('a, 'f, 'e, 'h) ConnectionManager \<Rightarrow> bool" where
  "idle_complete L P cm cm' \<longleftrightarrow> cm_running cm = None \<and> cm_complete L P cm cm'"

lemma steps_connect:
  fixes cm :: "('a, 'f, 'e::linorder, 'h) ConnectionManager"
  assumes idle: "cm_running cm = None" "being_connected cm = []" and P: "codec_ok (p_fob P)"
  shows "(idle_complete L P)\<^sup>*\<^sup>* (cm_AddNode None (EndpointPair_both e) cm)
    (insert_new_peer L \<lparr>ni_id = fob_name L fob, dht_fob = fob, connected = True\<rparr> (cm_next cm)
      (log_event (Transmitted (cm_next cm) (enc (p_fob P) (cm_our_fob cm))) (cm\<lparr>cm_next := Suc (cm_next cm)\<rparr>)))"
proof -
  define s where "s = cm_next cm"
  define cm1 where "cm1 = cm\<lparr>being_connected := [(e, s)], cm_next := Suc s\<rparr>"
  define ex where "ex = (AsyncExchange (enc (p_fob P) (cm_our_fob cm)) :: asio_error exchange_state)"
  define ex1 where "ex1 = ex\<lparr>first_error := Some None\<rparr>"
  define cm2 where "cm2 = log_event (Transmitted s (enc (p_fob P) (cm_our_fob cm))) cm1"
  have alive: "socket_alive s cm1" "socket_alive s cm2" and idle1: "cm_running (start op cm1) = None" "cm_running (start op cm2) = None" for op
    using idle by (simp_all add: cm1_def cm2_def socket_alive_def log_event_def)
  have fob: "cm_our_fob cm1 = cm_our_fob cm" by (simp add: cm1_def)
  have r1: "cm_AddNode None (EndpointPair_both e) cm = start (Connecting e s None) cm1"
    using idle by (simp add: cm_AddNode_def EndpointPair_both_def Let_def cm1_def s_def)
  have c1: "cm_complete L P (start (Connecting e s None) cm1) (on_connected P e s None None cm1)"
    by (rule done_connecting [OF nth_start, unfolded finish_start])
  have r2: "idle_complete L P (start (Connecting e s None) cm1) (start (ConnectExchange e s None ex) cm2)"
    using c1 alive idle1 by (simp add: idle_complete_def on_connected_def exchange_identity_def ex_def fob cm2_def Let_def)
  have "complete (Sent None) ex = (ex1, None)"
    by (simp add: ex_def ex1_def AsyncExchange_def exchange_sent_def)
  from half_connect_exchange [OF nth_start this, unfolded finish_start]
  have r3: "idle_complete L P (start (ConnectExchange e s None ex) cm2) (start (ConnectExchange e s None ex1) cm2)"
    using idle1 by (simp add: idle_complete_def)
  have "complete (Received None (enc (p_fob P) fob)) ex1 = (ex1\<lparr>rx_buffer := []\<rparr>, Some (None, enc (p_fob P) fob))"
    by (simp add: ex_def ex1_def AsyncExchange_def exchange_received_def vector_resize_def)
  from done_connect_exchange [OF nth_start this, unfolded finish_start]
  have r4: "idle_complete L P (start (ConnectExchange e s None ex1) cm2)
      (fst (on_connect_exchanged L P e s None None (enc (p_fob P) fob) cm2))"
    using idle1 by (simp add: idle_complete_def)
  have same: "cm2\<lparr>being_connected := []\<rparr>
      = log_event (Transmitted (cm_next cm) (enc (p_fob P) (cm_our_fob cm))) (cm\<lparr>cm_next := Suc (cm_next cm)\<rparr>)"
    using idle(2) by (cases cm) (simp add: cm2_def cm1_def s_def log_event_def)
  have "fst (on_connect_exchanged L P e s None None (enc (p_fob P) fob) cm2) =
      insert_new_peer L \<lparr>ni_id = fob_name L fob, dht_fob = fob, connected = True\<rparr> (cm_next cm) (cm2\<lparr>being_connected := []\<rparr>)"
    using alive codec_asD [OF P, of fob "[]"]
    by (simp add: on_connect_exchanged_def smap_erase_def equiv_keys_def Let_def) (simp add: cm2_def cm1_def s_def log_event_def)
  then show ?thesis using r2 r3 r4 unfolding r1 same by (metis (mono_tags) converse_rtranclp_into_rtranclp rtranclp.rtrancl_refl)
qed

lemma run_completes:
  assumes "(idle_complete L P)\<^sup>*\<^sup>* cm cm'" "cm_run L P cm"
  shows "cm_run L P cm'"
  using assms by (induction rule: rtranclp_induct) (auto simp: idle_complete_def intro: run_step step_complete)

lemma run_connects:
  fixes cm :: "('a, 'f, 'e::linorder, 'h) ConnectionManager"
  assumes "cm_run L P cm" "cm_running cm = None" "being_connected cm = []" "codec_ok (p_fob P)"
  shows "cm_run L P (insert_new_peer L \<lparr>ni_id = fob_name L fob, dht_fob = fob, connected = True\<rparr> (cm_next cm)
    (log_event (Transmitted (cm_next cm) (enc (p_fob P) (cm_our_fob cm))) (cm\<lparr>cm_next := Suc (cm_next cm)\<rparr>)))"
  by (rule run_completes [OF steps_connect [OF assms(2-4)]]) (rule run_step [OF assms(1) step_op [OF op_add]])

text \<open>The messages that were handed to a receive handler\<close>

fun arrivals :: "('a, 'h) cm_event list \<Rightarrow> ('h \<times> 'a \<times> byte list) list" where
  "arrivals [] = []"
| "arrivals (MessageArrived h a bs # evs) = (h, a, bs) # arrivals evs"
| "arrivals (_ # evs) = arrivals evs"

text \<open>A manager of the node 0 that has made connections to 1, 2 and so on\<close>

lemma ex_peers:
  "\<exists>cm :: (nat, nat, nat, nat) ConnectionManager. cm_run word_lib nat_prims cm \<and> map fst (peers cm) = [1..<Suc n]
    \<and> cm_running cm = None \<and> being_connected cm = [] \<and> cm_our_id cm = 0
    \<and> cm_pending cm = map (\<lambda>x. Receiving (destroy_indicator (snd x))) (peers cm)
    \<and> on_receive cm = None \<and> on_connection_added cm = None \<and> arrivals (cm_log cm) = []"
proof (induction n)
  case 0
  show ?case
    by (rule exI [of _ "ConnectionManager_new word_lib 0"])
      (simp add: run_new, simp add: ConnectionManager_new_def word_lib_def)
next
  case (Suc n)
  then obtain cm :: "(nat, nat, nat, nat) ConnectionManager" where cm: "cm_run word_lib nat_prims cm"
    "map fst (peers cm) = [1..<Suc n]" "cm_running cm = None" "being_connected cm = []" "cm_our_id cm = 0"
    "cm_pending cm = map (\<lambda>x. Receiving (destroy_indicator (snd x))) (peers cm)"
    "on_receive cm = None" "on_connection_added cm = None" "arrivals (cm_log cm) = []" by blast
  define info where "info = \<lparr>ni_id = Suc n, dht_fob = Suc n, connected = True\<rparr>"
  define cm1 where "cm1 = log_event (Transmitted (cm_next cm) (enc (p_fob nat_prims) (cm_our_fob cm))) (cm\<lparr>cm_next := Suc (cm_next cm)\<rparr>)"
  have lt: "peer_less word_lib cm = (<)" by (simp add: fun_eq_iff Address_Comparison_def word_lib_def)
  have keys: "fst ` set (peers cm) = {1..<Suc n}" using cm(2) by (metis atLeastLessThan_upt list.set_map)
  have free: "FindPeer word_lib (Suc n) cm1 = None"
    using FindPeer_iff [OF word_lib_order cm_run_inv [OF word_lib_order cm(1)], of "Suc n"] keys
    by (cases "FindPeer word_lib (Suc n) cm") (force simp: FindPeer_def cm1_def)+
  have ins: "smap_insert (<) (Suc n) p (peers cm) = peers cm @ [(Suc n, p)]" for p
    by (rule smap_insert_end) (use keys in auto)
  have "cm_run word_lib nat_prims (insert_new_peer word_lib info (cm_next cm) cm1)"
    using run_connects [OF cm(1,3,4) prims_okD(3) [OF nat_prims_ok], of "Suc n"]
    by (simp add: info_def cm1_def word_lib_def)
  then show ?case
    using free ins cm lt
    by (intro exI [of _ "insert_new_peer word_lib info (cm_next cm) cm1"])
      (simp add: insert_new_peer_cases Let_def info_def PeerNode_new_def, simp add: cm1_def start_def log_event_def)
qed

subsection \<open>Properties of the manager\<close>

text \<open>
  C25. The peers are always in order. In every state the manager can reach, however operations,
  completions and handlers interleave, the peers are strictly ordered by their closeness to us,
  each peer is filed under the name of the fob it proved, and there is never more than one
  receive operation outstanding for a peer, and none while its message is being handled.
\<close>

theorem connection_manager_invariant:
  assumes "closer_order L" "cm_run L P cm"
  shows "sorted_wrt (\<lambda>x y. CloserToTarget L (fst x) (fst y) (cm_our_id cm)) (peers cm)
    \<and> (\<forall>x \<in> set (peers cm). peer_id (snd x) = fst x \<and> fob_name L (dht_fob (peer_info (snd x))) = fst x)
    \<and> distinct (map (\<lambda>x. destroy_indicator (snd x)) (peers cm)) \<and> distinct (receiving cm)"
  using cm_run_inv [OF assms]
  by (simp add: cm_inv_def peers_ok_def guards_ok_def smap_wf_def ordered_by_def Address_Comparison_def)

theorem connection_manager_invariant_witness:
  "\<exists>cm :: (nat, nat, nat, nat) ConnectionManager. map fst (peers cm) = [1..<6] \<and> length (receiving cm) = 5 \<and> distinct (receiving cm)"
proof -
  obtain cm :: "(nat, nat, nat, nat) ConnectionManager" where cm: "cm_run word_lib nat_prims cm" "map fst (peers cm) = [1..<Suc 5]"
    "cm_running cm = None" "cm_pending cm = map (\<lambda>x. Receiving (destroy_indicator (snd x))) (peers cm)"
    using ex_peers [of 5] by blast
  have "pending_guards (map (\<lambda>x. Receiving (destroy_indicator (snd x))) m :: (nat, nat, nat, nat) pending list)
      = map (\<lambda>x. destroy_indicator (snd x)) m" for m :: "(nat, (nat, nat) PeerNode) smap"
    by (induction m) auto
  moreover have "length (peers cm) = 5" using cm(2) by (metis diff_Suc_1 length_map length_upt)
  ultimately have "length (receiving cm) = 5" using cm(3,4) by (simp add: receiving_def)
  then show ?thesis
    using connection_manager_invariant [OF word_lib_order cm(1)] cm(2) by (intro exI [of _ cm]) (simp del: upt.simps)
qed

text \<open>
  C26. The close group and its range. The close group is made of the \<open>GroupSize\<close> peers closest to
  us, in order, and every one of them is closer than every other peer. An address counts as in
  range exactly when there are fewer than \<open>GroupSize\<close> peers, or fewer than \<open>GroupSize\<close> of them are
  that address or closer. So once the group is full all its members are in range except the
  last one, whose own address is not.
\<close>

theorem close_group_range:
  assumes "closer_order L" "cm_run L P cm"
  shows "map (fob_name L) (OurCloseGroup cm) = take GroupSize (map fst (peers cm))
    \<and> (a \<in> set (map (fob_name L) (OurCloseGroup cm)) \<and> IsManaged L b cm \<and> b \<notin> set (map (fob_name L) (OurCloseGroup cm))
        \<longrightarrow> CloserToTarget L a b (cm_our_id cm))
    \<and> (AddressInCloseGroupRange L x cm \<longleftrightarrow> length (peers cm) < GroupSize
        \<or> card {c. IsManaged L c cm \<and> (c = x \<or> CloserToTarget L c x (cm_our_id cm))} < GroupSize)
    \<and> (GroupSize \<le> length (peers cm) \<and> i < GroupSize \<longrightarrow>
        AddressInCloseGroupRange L (map (fob_name L) (OurCloseGroup cm) ! i) cm = (i \<noteq> GroupSize - 1))"
proof -
  note inv = cm_run_inv [OF assms]
  note ids = close_group_ids [OF inv]
  have "CloserToTarget L a b (cm_our_id cm)"
    if ab: "a \<in> set (take GroupSize (map fst (peers cm)))" "IsManaged L b cm" "b \<notin> set (take GroupSize (map fst (peers cm)))"
  proof -
    have "b \<in> set (map fst (peers cm))" using ab(2) by (simp add: IsManaged_iff [OF assms(1) inv])
    then have "b \<in> set (drop GroupSize (map fst (peers cm)))"
      using ab(3) by (metis Un_iff append_take_drop_id set_append)
    moreover have "ordered_by (peer_less L cm) (\<lambda>k. k) (map fst (peers cm))"
      using inv by (simp add: cm_inv_def peers_ok_def smap_wf_def ordered_by_def sorted_wrt_map)
    ultimately have "peer_less L cm a b" using ab(1) ordered_by_take_drop by fast
    then show ?thesis by (simp add: Address_Comparison_def)
  qed
  moreover have "AddressInCloseGroupRange L (take GroupSize (map fst (peers cm)) ! i) cm = (i \<noteq> GroupSize - 1)"
    if "GroupSize \<le> length (peers cm)" "i < GroupSize"
    using in_range_nth [OF assms(1) inv that(1), of i] that by auto
  ultimately show ?thesis using in_range_iff [OF assms(1) inv, of x] unfolding ids by blast
qed

theorem close_group_range_witness:
  "\<exists>cm :: (nat, nat, nat, nat) ConnectionManager. map fst (peers cm) = [1..<24] \<and> 23 \<in> set (OurCloseGroup cm)
    \<and> \<not> AddressInCloseGroupRange word_lib 23 cm \<and> AddressInCloseGroupRange word_lib 22 cm"
proof -
  obtain cm :: "(nat, nat, nat, nat) ConnectionManager" where cm: "cm_run word_lib nat_prims cm" "map fst (peers cm) = [1..<Suc 23]"
    using ex_peers [of 23] by blast
  have len: "GroupSize \<le> length (peers cm)" using cm(2) by (metis GroupSize_def diff_Suc_1 length_map length_upt order_refl)
  have names: "map (fob_name word_lib) xs = xs" for xs by (simp add: word_lib_def map_idI)
  have group: "OurCloseGroup cm = [1..<24]"
    using close_group_range [OF word_lib_order cm(1)] unfolding names cm(2) by (simp add: GroupSize_def take_upt del: upt.simps)
  have range: "AddressInCloseGroupRange word_lib ([1..<24] ! i) cm = (i \<noteq> GroupSize - 1)" if "i < GroupSize" for i
    using close_group_range [OF word_lib_order cm(1), THEN conjunct2, THEN conjunct2, THEN conjunct2, of i] len that
    unfolding names group by blast
  have "\<not> AddressInCloseGroupRange word_lib ([1..<24] ! 22) cm" "AddressInCloseGroupRange word_lib ([1..<24] ! 21) cm"
    using range [of 22] range [of 21] by (simp_all add: GroupSize_def del: upt.simps)
  then show ?thesis using cm(2) group by (intro exI [of _ cm]) (simp add: nth_upt del: upt.simps)
qed

text \<open>
  Dropping a peer. The address is not managed any more and every other peer stays as it was.
  The close group the manager remembers is then the actual one, and the difference is reported
  (the new group and the one remembered before) exactly when it changed; asking again at once
  reports nothing.
\<close>

lemma drop_node_reports:
  assumes "closer_order L" "cm_run L P cm" "cm_DropNode L a cm = (cm', d)"
  shows "\<not> IsManaged L a cm' \<and> (b \<noteq> a \<longrightarrow> FindPeer L b cm' = FindPeer L b cm)
    \<and> current_close_group cm' = take GroupSize (filter (\<lambda>c. c \<noteq> a) (map fst (peers cm)))
    \<and> d = (if current_close_group cm' = current_close_group cm then None
           else Some (current_close_group cm', current_close_group cm))
    \<and> GroupChanged L cm' = (cm', None)"
proof -
  define cm1 where "cm1 = cm\<lparr>peers := smap_erase (peer_less L cm) a (peers cm)\<rparr>"
  note inv = cm_run_inv [OF assms(1,2)]
  have inv1: "cm_inv L cm1" unfolding cm1_def by (rule cm_inv_erase [OF inv])
  have cm': "cm' = cm1\<lparr>current_close_group := map (fob_name L) (OurCloseGroup cm1)\<rparr>"
    "d = (if map (fob_name L) (OurCloseGroup cm1) = current_close_group cm then None
       else Some (map (fob_name L) (OurCloseGroup cm1), current_close_group cm))"
    using assms(3) by (auto simp: cm_DropNode_def GroupChanged_def Let_def cm1_def [symmetric] split: if_splits)
      (auto simp: cm1_def)
  have find: "FindPeer L c cm' = (if c = a then None else FindPeer L c cm)" for c
    using FindPeer_erase [OF assms(1), of c cm a] by (simp add: cm' cm1_def FindPeer_def)
  have "map fst (peers cm1) = filter (\<lambda>c. c \<noteq> a) (map fst (peers cm))"
    by (auto simp: cm1_def smap_erase_def filter_map comp_def case_prod_beta
        strict_linear_order.equiv_keys_eq [OF closer_less [OF assms(1)]] intro!: arg_cong [of _ _ "map fst"] filter_cong)
  then have "current_close_group cm' = take GroupSize (filter (\<lambda>c. c \<noteq> a) (map fst (peers cm)))"
    using close_group_ids [OF inv1] by (simp add: cm')
  moreover have "GroupChanged L cm' = (cm', None)" by (simp add: GroupChanged_def Let_def cm' OurCloseGroup_def)
  moreover have "IsManaged L a cm' = (FindPeer L a cm' \<noteq> None)" by (simp add: IsManaged_def FindPeer_def)
  ultimately show ?thesis using find cm' by simp
qed

lemma drop_node_reports_witness:
  "\<exists>cm :: (nat, nat, nat, nat) ConnectionManager. map fst (peers cm) = [1..<4]
    \<and> snd (cm_DropNode word_lib 2 cm) = Some ([1, 3], [1, 2, 3])"
proof -
  obtain cm0 :: "(nat, nat, nat, nat) ConnectionManager" where cm0: "cm_run word_lib nat_prims cm0" "map fst (peers cm0) = [1..<Suc 3]"
    using ex_peers [of 3] by blast
  define cm where "cm = fst (cm_DropNode word_lib 9 cm0)"
  have run: "cm_run word_lib nat_prims cm"
    unfolding cm_def by (rule run_step [OF cm0(1) step_op [OF op_drop]])
  have keys: "map fst (peers cm) = [1..<4]"
    using cm0(2) by (auto simp: cm_def cm_DropNode_def GroupChanged_def Let_def smap_erase_def equiv_keys_def
        Address_Comparison_def word_lib_def numeral_eq_Suc upt_rec)
  have group: "current_close_group cm = [1, 2, 3]"
    using drop_node_reports [OF word_lib_order cm0(1), of 9 cm "snd (cm_DropNode word_lib 9 cm0)"] cm0(2)
    by (simp add: cm_def GroupSize_def upt_rec)
  obtain cm' d where d: "cm_DropNode word_lib 2 cm = (cm', d)" by force
  have "current_close_group cm' = [1, 3]" "d = (if current_close_group cm' = current_close_group cm then None
       else Some (current_close_group cm', current_close_group cm))"
    using drop_node_reports [OF word_lib_order run d] keys by (simp_all add: GroupSize_def upt_rec)
  then show ?thesis using keys d group by (intro exI [of _ cm]) simp
qed

lemma insert_new_peer_unmanaged:
  assumes "closer_order L" "cm_inv L cm" "FindPeer L (ni_id info) cm = None"
  shows "FindPeer L b (insert_new_peer L info s cm)
      = (if b = ni_id info then Some (PeerNode_new info s (cm_next cm)) else FindPeer L b cm)"
    "cm_next cm \<in> set (receiving (insert_new_peer L info s cm))"
    "being_connected (insert_new_peer L info s cm) = being_connected cm"
    "cm_log (insert_new_peer L info s cm)
      = (case on_connection_added cm of None \<Rightarrow> [] | Some h \<Rightarrow> [ConnectionAdded h (ni_id info)]) @ cm_log cm"
  using assms(3) FindPeer_insert [OF assms(1,2), of "ni_id info" b "PeerNode_new info s (cm_next cm)"]
  by (simp_all add: insert_new_peer_cases Let_def split: option.splits) (auto simp: FindPeer_def log_event_def)

text \<open>
  C27. Who becomes a peer. When the exchange of identities on an outgoing connection succeeds, and
  the socket is still wanted, the connection is no longer listed as being made. If another
  identity was expected, or the identity that was received is managed already, no peer changes.
  Otherwise the node is a peer under its name, with the key of the fob it sent, a receive
  operation is outstanding for it, whoever asked to be told of new connections is told, and
  every other peer stays as it was. When the exchange failed no peer changes.
\<close>

theorem new_peer_identity:
  assumes "closer_order L" "cm_run L P cm" "socket_alive s cm" "dec (p_fob P) data = Some (fob, rest)"
  shows "\<exists>cm'. on_connect_exchanged L P e s assumed None data cm = (cm', Inr ())
    \<and> smap_find (<) e (being_connected cm') = None
    \<and> (if (\<exists>i. assumed = Some i \<and> ni_id i \<noteq> fob_name L fob) \<or> IsManaged L (fob_name L fob) cm
       then peers cm' = peers cm \<and> cm_log cm' = cm_log cm
       else GetPublicKey L (fob_name L fob) cm' = Some (fob_public_key L fob)
         \<and> (\<exists>p. FindPeer L (fob_name L fob) cm' = Some p \<and> peer_socket p = s \<and> destroy_indicator p \<in> set (receiving cm'))
         \<and> (\<forall>b. b \<noteq> fob_name L fob \<longrightarrow> FindPeer L b cm' = FindPeer L b cm)
         \<and> cm_log cm' = (case on_connection_added cm of None \<Rightarrow> [] | Some h \<Rightarrow> [ConnectionAdded h (fob_name L fob)]) @ cm_log cm)
    \<and> peers (fst (on_connect_exchanged L P e s assumed (Some err) data cm)) = peers cm"
proof -
  define info where "info = \<lparr>ni_id = fob_name L fob, dht_fob = fob, connected = True\<rparr>"
  define cm1 where "cm1 = cm\<lparr>being_connected := smap_erase (<) e (being_connected cm)\<rparr>"
  have inv: "cm_inv L cm1" using cm_run_inv [OF assms(1,2)] by (simp add: cm1_def)
  have same: "FindPeer L b cm1 = FindPeer L b cm" for b by (simp add: FindPeer_def cm1_def)
  have managed: "IsManaged L a cm = (FindPeer L a cm \<noteq> None)" for a by (simp add: IsManaged_def FindPeer_def)
  have unlisted: "smap_find (<) e (being_connected cm1) = None"
    by (simp add: cm1_def std_less.smap_find_map_of std_less.map_of_smap_erase)
  have r: "on_connect_exchanged L P e s assumed None data cm =
      (if \<exists>i. assumed = Some i \<and> ni_id i \<noteq> fob_name L fob then cm1 else insert_new_peer L info s cm1, Inr ())"
    using assms(3,4) by (auto simp: on_connect_exchanged_def Let_def cm1_def info_def NodeInfo_neq_def split: option.splits)
  note new = insert_new_peer_unmanaged [OF assms(1) inv, where s = s and info = info, unfolded same]
  have cm1: "cm_next cm1 = cm_next cm" "cm_log cm1 = cm_log cm" "on_connection_added cm1 = on_connection_added cm" "ni_id info = fob_name L fob"
    by (simp_all add: cm1_def info_def)
  have failed: "peers (fst (on_connect_exchanged L P e s assumed (Some err) data cm)) = peers cm"
    by (simp add: on_connect_exchanged_def Let_def)
  consider "\<exists>i. assumed = Some i \<and> ni_id i \<noteq> fob_name L fob"
    | "\<not> (\<exists>i. assumed = Some i \<and> ni_id i \<noteq> fob_name L fob)" "IsManaged L (fob_name L fob) cm"
    | "\<not> (\<exists>i. assumed = Some i \<and> ni_id i \<noteq> fob_name L fob)" "FindPeer L (fob_name L fob) cm = None"
    using managed by blast
  then show ?thesis
  proof cases
    case 1
    then show ?thesis unfolding r using unlisted failed by (simp add: cm1_def)
  next
    case 2
    then have "insert_new_peer L info s cm1 = cm1\<lparr>cm_next := Suc (cm_next cm1)\<rparr>"
      using managed by (simp add: insert_new_peer_cases same info_def)
    then show ?thesis unfolding r if_not_P [OF 2(1)] using 2 unlisted failed by (simp add: cm1_def)
  next
    case 3
    have "GetPublicKey L (fob_name L fob) (insert_new_peer L info s cm1) = Some (fob_public_key L fob)"
      using new(1) [of "fob_name L fob"] 3(2) by (simp add: cm1 GetPublicKey_FindPeer PeerNode_new_def) (simp add: info_def)
    then show ?thesis
      unfolding r if_not_P [OF 3(1)] using 3 managed failed unlisted new
      by (auto simp: cm1 PeerNode_new_def cong: option.case_cong)
  qed
qed

theorem new_peer_identity_witness:
  "\<exists>cm' :: (nat, nat, nat, nat) ConnectionManager.
     on_connect_exchanged word_lib nat_prims 5 0 (Some \<lparr>ni_id = 3, dht_fob = 3, connected = True\<rparr>) None (enc (p_fob nat_prims) 3)
       (cm_AddNode (Some \<lparr>ni_id = 3, dht_fob = 3, connected = True\<rparr>) (EndpointPair_both 5) (ConnectionManager_new word_lib 0))
     = (cm', Inr ()) \<and> GetPublicKey word_lib 3 cm' = Some 103"
proof -
  define cm :: "(nat, nat, nat, nat) ConnectionManager" where
    "cm = cm_AddNode (Some \<lparr>ni_id = 3, dht_fob = 3, connected = True\<rparr>) (EndpointPair_both 5) (ConnectionManager_new word_lib 0)"
  have run: "cm_run word_lib nat_prims cm"
    unfolding cm_def by (rule run_step [OF run_new step_op [OF op_add]])
  have alive: "socket_alive 0 cm" "\<not> IsManaged word_lib 3 cm"
    by (simp_all add: cm_def cm_AddNode_def ConnectionManager_new_def EndpointPair_both_def socket_alive_def IsManaged_def start_def)
  have data: "dec (p_fob nat_prims) (enc (p_fob nat_prims) 3) = Some (3, [])"
    using codec_asD [OF prims_okD(3) [OF nat_prims_ok], of 3 "[]"] by simp
  from new_peer_identity [OF word_lib_order run alive(1) data, of 5 "Some \<lparr>ni_id = 3, dht_fob = 3, connected = True\<rparr>"] alive(2)
  show ?thesis unfolding cm_def by (auto simp: word_lib_def)
qed

subsection \<open>A handler that drops its own peer\<close>

text \<open>Steps in which nobody sets a receive handler\<close>

definition cm_quiet_step ::
  "('a, 'f, 'k) lib \<Rightarrow> ('a, 'f, 'k, 's, 'n, 't, 'x) prims \<Rightarrow>
   ('a, 'f, 'e::linorder, 'h) ConnectionManager \<Rightarrow> ('a, 'f, 'e, 'h) ConnectionManager \<Rightarrow> bool" where
  "cm_quiet_step L P cm cm' \<longleftrightarrow> cm_step L P cm cm' \<and> (\<forall>h. cm' \<noteq> SetOnReceive h cm)"

definition deaf :: "('a, 'f, 'e, 'h) ConnectionManager \<Rightarrow> bool" where
  "deaf cm \<longleftrightarrow> on_receive cm = None \<and> cm_running cm = None"

lemma deaf_simps [simp]:
  "deaf (start op cm) = deaf cm" "deaf (finish i cm) = deaf cm" "deaf (log_event ev cm) = deaf cm"
  "deaf (update_peer g f cm) = deaf cm" "deaf (cm\<lparr>being_connected := b\<rparr>) = deaf cm" "deaf (cm\<lparr>acceptors := ac\<rparr>) = deaf cm"
  "deaf (cm\<lparr>peers := m\<rparr>) = deaf cm" "deaf (cm\<lparr>cm_next := n\<rparr>) = deaf cm" "deaf (cm\<lparr>on_connection_added := r\<rparr>) = deaf cm"
  "deaf (cm\<lparr>current_close_group := gr\<rparr>) = deaf cm" "deaf (cm\<lparr>cm_alive := al\<rparr>) = deaf cm"
  by (simp_all add: deaf_def)

lemma deaf_insert_new_peer [simp]:
  "deaf (insert_new_peer L info s cm) = deaf cm" "arrivals (cm_log (insert_new_peer L info s cm)) = arrivals (cm_log cm)"
  by (auto simp: insert_new_peer_cases Let_def split: option.splits)

lemma deaf_StartAccepting [simp]:
  "deaf (StartAccepting port cm) = deaf cm" "cm_log (StartAccepting port cm) = cm_log cm"
  by (auto simp: StartAccepting_def Let_def split: option.splits)

lemma deaf_op:
  assumes "cm_op L cm cm'" "deaf cm" "\<forall>h. cm' \<noteq> SetOnReceive h cm"
  shows "deaf cm' \<and> arrivals (cm_log cm') = arrivals (cm_log cm)"
  using assms
  by (cases rule: cm_op.cases)
    (auto simp: SetOnConnectionAdded_def cm_AddNode_def cm_DropNode_def GroupChanged_def
      PeerNode_Send_def Shutdown_def ConnectionManager_destroy_def Let_def split: option.splits)

lemma deaf_received: "deaf cm \<Longrightarrow> received_begin g err bs cm = update_peer g (write_buffer bs) cm"
  by (auto simp: received_begin_def Let_def deaf_def split: option.splits)

lemma deaf_complete:
  assumes "cm_complete L P cm cm'" "deaf cm"
  shows "deaf cm' \<and> arrivals (cm_log cm') = arrivals (cm_log cm)"
  using assms
  by (cases rule: cm_complete.cases)
    (auto simp: deaf_received on_accepted_def on_accept_exchanged_def on_connected_def on_connect_exchanged_def on_sent_def
      exchange_identity_def Let_def split: option.splits)

lemma deaf_steps:
  assumes "(cm_quiet_step L P)\<^sup>*\<^sup>* cm cm'" "deaf cm"
  shows "deaf cm' \<and> arrivals (cm_log cm') = arrivals (cm_log cm)"
  using assms
proof (induction rule: rtranclp_induct)
  case (step cm1 cm2)
  then have d: "deaf cm1" "arrivals (cm_log cm1) = arrivals (cm_log cm)" by auto
  from step(2) have "cm_step L P cm1 cm2" "\<forall>h. cm2 \<noteq> SetOnReceive h cm1" by (simp_all add: cm_quiet_step_def)
  then show ?case
    using d deaf_op [of L cm1 cm2] deaf_complete [of L P cm1 cm2]
    by (cases rule: cm_step.cases) (auto simp: deaf_def)
qed simp

lemma peer_by_guard:
  assumes inv: "cm_inv L cm" and mem: "(a, p) \<in> set (peers cm)" and same: "peers cm' = peers cm"
  shows "x \<in> set (peers (update_peer (destroy_indicator p) (write_buffer bs) cm')) \<Longrightarrow>
      destroy_indicator (snd x) = destroy_indicator p \<Longrightarrow> x = (a, write_buffer bs p)"
    "find (\<lambda>(c, q). destroy_indicator q = destroy_indicator p) (peers (update_peer (destroy_indicator p) (write_buffer bs) cm'))
      = Some (a, write_buffer bs p)"
proof -
  define g where "g = destroy_indicator p"
  let ?cm0 = "update_peer g (write_buffer bs) cm'"
  have unique: "x = (a, p)" if "x \<in> set (peers cm)" "destroy_indicator (snd x) = g" for x
    using inv mem that by (auto simp: cm_inv_def guards_ok_def distinct_map inj_on_def g_def)
  have mem0: "(a, write_buffer bs p) \<in> set (peers ?cm0)" using mem by (force simp: update_peer_def g_def same)
  have unique0: "x = (a, write_buffer bs p)" if x: "x \<in> set (peers ?cm0)" "destroy_indicator (snd x) = g" for x
  proof -
    obtain c q where q: "(c, q) \<in> set (peers cm)" "x = (c, if destroy_indicator q = g then write_buffer bs q else q)"
      using x(1) by (auto simp: update_peer_def same)
    then have "destroy_indicator q = g" using x(2) by (auto simp: write_buffer_def split: if_splits)
    then show ?thesis using unique [OF q(1)] q(2) by simp
  qed
  obtain y where y: "find (\<lambda>(c, q). destroy_indicator q = g) (peers ?cm0) = Some y"
    using mem0 find_None_iff [of "\<lambda>(c, q). destroy_indicator q = g" "peers ?cm0"]
    by (cases "find (\<lambda>(c, q). destroy_indicator q = g) (peers ?cm0)") (fastforce simp: g_def write_buffer_def)+
  then have "y \<in> set (peers ?cm0)" "destroy_indicator (snd y) = g" by (auto simp: find_Some_iff in_set_conv_nth)
  with y unique0 show "find (\<lambda>(c, q). destroy_indicator q = destroy_indicator p) (peers (update_peer (destroy_indicator p) (write_buffer bs) cm'))
      = Some (a, write_buffer bs p)" unfolding g_def by blast
  show "x \<in> set (peers (update_peer (destroy_indicator p) (write_buffer bs) cm')) \<Longrightarrow>
      destroy_indicator (snd x) = destroy_indicator p \<Longrightarrow> x = (a, write_buffer bs p)"
    using unique0 unfolding g_def by blast
qed

text \<open>
  C28. A receive handler that drops the peer whose message it gets is called for the last time.
  Suppose a message of the peer \<open>a\<close> arrives and the handler is called with it, and the handler
  drops \<open>a\<close> before it returns. Then the manager has lost the handler, for all peers: until
  somebody sets a handler again no message is handed on, whatever operations and completions
  follow.
\<close>

theorem receive_handler_lost:
  assumes "closer_order L" "cm_run L P cm" "cm_running cm = None" "on_receive cm = Some h" "FindPeer L a cm = Some p"
    "cm1 = received_begin (destroy_indicator p) None bs (finish i cm)"
    "cm2 = received_end h (destroy_indicator p) (fst (cm_DropNode L a cm1))"
    "(cm_quiet_step L P)\<^sup>*\<^sup>* cm2 cm3"
  shows "arrivals (cm_log cm1) = (h, a, bs @ drop (length bs) (receive_buffer p)) # arrivals (cm_log cm)
    \<and> on_receive cm3 = None \<and> arrivals (cm_log cm3) = arrivals (cm_log cm1)"
proof -
  define g where "g = destroy_indicator p"
  define cm0 where "cm0 = update_peer g (write_buffer bs) (finish i cm)"
  note inv = cm_run_inv [OF assms(1,2)]
  have mem: "(a, p) \<in> set (peers cm)" using FindPeer_iff [OF assms(1) inv] assms(5) by simp
  have a: "peer_id p = a" using inv mem by (auto simp: cm_inv_def peers_ok_def)
  have unique0: "x = (a, write_buffer bs p)" if "x \<in> set (peers cm0)" "destroy_indicator (snd x) = g" for x
    using peer_by_guard(1) [OF inv mem, of "finish i cm" x bs] that by (simp add: cm0_def g_def)
  have find: "find (\<lambda>(c, q). destroy_indicator q = g) (peers cm0) = Some (a, write_buffer bs p)"
    using peer_by_guard(2) [OF inv mem, of "finish i cm" bs] by (simp add: cm0_def g_def)
  have cm1: "cm1 = log_event (MessageArrived h a (bs @ drop (length bs) (receive_buffer p)))
      (cm0\<lparr>on_receive := None, cm_running := Some (h, g)\<rparr>)"
    using find assms(4) a
    by (simp add: assms(6) received_begin_def Let_def g_def [symmetric] cm0_def [symmetric])
      (simp add: cm0_def write_buffer_def peer_id_def)
  define cm1d where "cm1d = fst (cm_DropNode L a cm1)"
  have "peers cm1d = smap_erase (peer_less L cm) a (peers cm0)" "on_receive cm1d = None"
    "arrivals (cm_log cm1d) = arrivals (cm_log cm1)"
    by (simp_all add: cm1d_def cm_DropNode_def GroupChanged_def Let_def cm1) (simp_all add: cm0_def)
  note d = this
  have "\<not> guard_alive g cm1d"
  proof
    assume "guard_alive g cm1d"
    then obtain x where "x \<in> set (peers cm1d)" "destroy_indicator (snd x) = g"
      by (auto simp: guard_alive_def list_ex_iff)
    moreover have "equiv_keys (peer_less L cm) a (fst x)" if "x = (a, write_buffer bs p)" for x
      using that by (simp add: strict_linear_order.equiv_keys_eq [OF closer_less [OF assms(1)]])
    ultimately show False using unique0 [of x] by (auto simp: d(1) smap_erase_def)
  qed
  then have "cm2 = cm1d\<lparr>cm_running := None\<rparr>"
    by (simp add: assms(7) received_end_def Let_def g_def cm1d_def guard_alive_def)
  then have "deaf cm2" "arrivals (cm_log cm2) = arrivals (cm_log cm1)" using d(2,3) by (simp_all add: deaf_def)
  moreover have "arrivals (cm_log cm1) = (h, a, bs @ drop (length bs) (receive_buffer p)) # arrivals (cm_log cm)"
    by (simp add: cm1) (simp add: cm0_def)
  ultimately show ?thesis using deaf_steps [OF assms(8)] by (simp add: deaf_def)
qed

theorem receive_handler_lost_witness:
  "\<exists>(cm :: (nat, nat, nat, nat) ConnectionManager) (cm1 :: (nat, nat, nat, nat) ConnectionManager)
     (cm2 :: (nat, nat, nat, nat) ConnectionManager) bs. on_receive cm = Some 9 \<and> map fst (peers cm) = [1, 2]
     \<and> arrivals (cm_log cm1) = [(9, 1, 7 # bs)] \<and> on_receive cm2 = None \<and> arrivals (cm_log cm2) = arrivals (cm_log cm1)"
proof -
  obtain cm :: "(nat, nat, nat, nat) ConnectionManager" where cm: "cm_run word_lib nat_prims cm" "map fst (peers cm) = [1..<Suc 2]"
    "cm_running cm = None" "arrivals (cm_log cm) = []"
    using ex_peers [of 2] by blast
  define cm' where "cm' = SetOnReceive 9 cm"
  have run: "cm_run word_lib nat_prims cm'"
    unfolding cm'_def by (rule run_step [OF cm(1) step_op [OF op_on_receive]])
  have idle: "cm_running cm' = None" "on_receive cm' = Some 9" "arrivals (cm_log cm') = []" "map fst (peers cm') = [1, 2]"
    using cm by (simp_all add: cm'_def SetOnReceive_def upt_rec)
  have "1 \<in> fst ` set (peers cm')" using idle(4) by (metis list.set_intros(1) list.set_map)
  then obtain p where p: "FindPeer word_lib 1 cm' = Some p"
    using FindPeer_iff [OF word_lib_order cm_run_inv [OF word_lib_order run], of 1] by auto
  define cm1 where "cm1 = received_begin (destroy_indicator p) None [7] (finish 0 cm')"
  define cm2 where "cm2 = received_end 9 (destroy_indicator p) (fst (cm_DropNode word_lib 1 cm1))"
  show ?thesis
    using receive_handler_lost [OF word_lib_order run idle(1,2) p cm1_def cm2_def rtranclp.rtrancl_refl] idle
    by (intro exI [of _ cm'] exI [of _ cm1] exI [of _ cm2] exI [of _ "drop 1 (receive_buffer p)"]) simp
qed

end
