(* ===== verification/Moves.thy ===== *)
theory Moves
  imports Messages Connection_Manager Account_Transfer
begin

section \<open>Moving objects\<close>

text \<open>
  Most value classes of the library write their move constructor and their move assignment out,
  member by member, where a forgotten member compiles silently. This theory models all of them: a
  constructor gives the new object, an assignment the target, made from what the members'
  own moves give. A member whose class is a library's (an \<^verbatim>\<open>Identity\<close>, a key, a
  container) arrives with its value. The state a moved-from object is left in is not modelled.

  \<open>moves_keep_every_member\<close> and \<open>move_assigns_keep_every_member\<close> show that the new object
  and the target equal the source for all these classes. The one exception,
  \<^verbatim>\<open>GetClientKeyResponse\<close>, is in the theory of the messages
  (\<open>moved_key_response_loses_address\<close>).
\<close>

subsection \<open>Plain data\<close>

definition NodeInfo_move :: "('a, 'f) NodeInfo \<Rightarrow> ('a, 'f) NodeInfo" where
  "NodeInfo_move other =
     \<lparr>ni_id = ni_id other, dht_fob = dht_fob other, connected = connected other\<rparr>"

definition NodeInfo_move_assign ::
  "('a, 'f) NodeInfo \<Rightarrow> ('a, 'f) NodeInfo \<Rightarrow> ('a, 'f) NodeInfo" where
  "NodeInfo_move_assign this other =
     this\<lparr>ni_id := ni_id other, dht_fob := dht_fob other,
        connected := connected other\<rparr>"

definition EndpointPair_move :: "'e EndpointPair \<Rightarrow> 'e EndpointPair" where
  "EndpointPair_move other =
     \<lparr>ep_local = ep_local other, ep_external = ep_external other\<rparr>"

definition EndpointPair_move_assign ::
  "'e EndpointPair \<Rightarrow> 'e EndpointPair \<Rightarrow> 'e EndpointPair" where
  "EndpointPair_move_assign this other =
     this\<lparr>ep_local := ep_local other, ep_external := ep_external other\<rparr>"

definition Contact_move :: "('a, 'e, 'k) Contact \<Rightarrow> ('a, 'e, 'k) Contact" where
  "Contact_move other =
     \<lparr>contact_id = contact_id other,
      endpoint_pair = EndpointPair_move (endpoint_pair other),
      contact_public_key = contact_public_key other\<rparr>"

definition Contact_move_assign ::
  "('a, 'e, 'k) Contact \<Rightarrow> ('a, 'e, 'k) Contact \<Rightarrow> ('a, 'e, 'k) Contact" where
  "Contact_move_assign this other =
     this\<lparr>contact_id := contact_id other,
        endpoint_pair := EndpointPair_move_assign (endpoint_pair this) (endpoint_pair other),
        contact_public_key := contact_public_key other\<rparr>"

definition SourceAddress_move :: "'a SourceAddress \<Rightarrow> 'a SourceAddress" where
  "SourceAddress_move other =
     \<lparr>node_address = node_address other, group_address = group_address other,
      reply_to_address = reply_to_address other\<rparr>"

definition SourceAddress_move_assign ::
  "'a SourceAddress \<Rightarrow> 'a SourceAddress \<Rightarrow> 'a SourceAddress" where
  "SourceAddress_move_assign this other =
     this\<lparr>node_address := node_address other, group_address := group_address other,
        reply_to_address := reply_to_address other\<rparr>"

subsection \<open>Message headers and messages\<close>

definition MessageHeader_move :: "('a, 's) MessageHeader \<Rightarrow> ('a, 's) MessageHeader" where
  "MessageHeader_move other =
     \<lparr>h_destination = h_destination other, h_source = SourceAddress_move (h_source other),
      h_message_id = h_message_id other, h_authority = h_authority other,
      h_signature = h_signature other\<rparr>"

definition MessageHeader_move_assign ::
  "('a, 's) MessageHeader \<Rightarrow> ('a, 's) MessageHeader \<Rightarrow> ('a, 's) MessageHeader" where
  "MessageHeader_move_assign this other =
     this\<lparr>h_destination := h_destination other,
        h_source := SourceAddress_move_assign (h_source this) (h_source other),
        h_message_id := h_message_id other, h_authority := h_authority other,
        h_signature := h_signature other\<rparr>"

definition Connect_move :: "('a, 'f, 'e) Connect \<Rightarrow> ('a, 'f, 'e) Connect" where
  "Connect_move other =
     \<lparr>c_requester_endpoints = EndpointPair_move (c_requester_endpoints other),
      c_requester_id = c_requester_id other, c_receiver_id = c_receiver_id other,
      c_requester_fob = c_requester_fob other\<rparr>"

definition Connect_move_assign ::
  "('a, 'f, 'e) Connect \<Rightarrow> ('a, 'f, 'e) Connect \<Rightarrow> ('a, 'f, 'e) Connect" where
  "Connect_move_assign this other =
     this\<lparr>c_requester_endpoints := EndpointPair_move_assign (c_requester_endpoints this) (c_requester_endpoints other),
        c_requester_id := c_requester_id other, c_receiver_id := c_receiver_id other,
        c_requester_fob := c_requester_fob other\<rparr>"

definition ConnectResponse_move :: "('a, 'f, 'e) ConnectResponse \<Rightarrow> ('a, 'f, 'e) ConnectResponse" where
  "ConnectResponse_move other =
     \<lparr>cr_requester_endpoints = EndpointPair_move (cr_requester_endpoints other),
      cr_receiver_endpoints = EndpointPair_move (cr_receiver_endpoints other),
      cr_requester_id = cr_requester_id other, cr_receiver_id = cr_receiver_id other,
      cr_receiver_fob = cr_receiver_fob other\<rparr>"

definition ConnectResponse_move_assign ::
  "('a, 'f, 'e) ConnectResponse \<Rightarrow> ('a, 'f, 'e) ConnectResponse \<Rightarrow> ('a, 'f, 'e) ConnectResponse" where
  "ConnectResponse_move_assign this other =
     this\<lparr>cr_requester_endpoints := EndpointPair_move_assign (cr_requester_endpoints this) (cr_requester_endpoints other),
        cr_receiver_endpoints := EndpointPair_move_assign (cr_receiver_endpoints this) (cr_receiver_endpoints other),
        cr_requester_id := cr_requester_id other, cr_receiver_id := cr_receiver_id other,
        cr_receiver_fob := cr_receiver_fob other\<rparr>"

definition FindGroup_move :: "'a FindGroup \<Rightarrow> 'a FindGroup" where
  "FindGroup_move other =
     \<lparr>fg_requester_id = fg_requester_id other, fg_target_id = fg_target_id other\<rparr>"

definition FindGroup_move_assign ::
  "'a FindGroup \<Rightarrow> 'a FindGroup \<Rightarrow> 'a FindGroup" where
  "FindGroup_move_assign this other =
     this\<lparr>fg_requester_id := fg_requester_id other,
        fg_target_id := fg_target_id other\<rparr>"

definition FindGroupResponse_move :: "('a, 'f) FindGroupResponse \<Rightarrow> ('a, 'f) FindGroupResponse" where
  "FindGroupResponse_move other =
     \<lparr>fgr_target_id = fgr_target_id other, fgr_group = fgr_group other\<rparr>"

definition FindGroupResponse_move_assign ::
  "('a, 'f) FindGroupResponse \<Rightarrow> ('a, 'f) FindGroupResponse \<Rightarrow> ('a, 'f) FindGroupResponse" where
  "FindGroupResponse_move_assign this other =
     this\<lparr>fgr_target_id := fgr_target_id other, fgr_group := fgr_group other\<rparr>"

definition GetClientKey_move :: "'a GetClientKey \<Rightarrow> 'a GetClientKey" where
  "GetClientKey_move other =
     \<lparr>gck_requester = gck_requester other, gck_target_id = gck_target_id other\<rparr>"

definition GetClientKey_move_assign ::
  "'a GetClientKey \<Rightarrow> 'a GetClientKey \<Rightarrow> 'a GetClientKey" where
  "GetClientKey_move_assign this other =
     this\<lparr>gck_requester := gck_requester other,
        gck_target_id := gck_target_id other\<rparr>"

definition GetData_move :: "('n, 'a) GetData \<Rightarrow> ('n, 'a) GetData" where
  "GetData_move other =
     \<lparr>gd_name_and_type_id = gd_name_and_type_id other,
      gd_requester = SourceAddress_move (gd_requester other)\<rparr>"

definition GetData_move_assign ::
  "('n, 'a) GetData \<Rightarrow> ('n, 'a) GetData \<Rightarrow> ('n, 'a) GetData" where
  "GetData_move_assign this other =
     this\<lparr>gd_name_and_type_id := gd_name_and_type_id other,
        gd_requester := SourceAddress_move_assign (gd_requester this) (gd_requester other)\<rparr>"

definition GetDataResponse_move :: "('n, 'x) GetDataResponse \<Rightarrow> ('n, 'x) GetDataResponse" where
  "GetDataResponse_move other =
     \<lparr>gdr_name_and_type_id = gdr_name_and_type_id other, gdr_data = gdr_data other,
      gdr_error = gdr_error other\<rparr>"

definition GetDataResponse_move_assign ::
  "('n, 'x) GetDataResponse \<Rightarrow> ('n, 'x) GetDataResponse \<Rightarrow> ('n, 'x) GetDataResponse" where
  "GetDataResponse_move_assign this other =
     this\<lparr>gdr_name_and_type_id := gdr_name_and_type_id other, gdr_data := gdr_data other,
        gdr_error := gdr_error other\<rparr>"

definition GetGroupKey_move :: "'a GetGroupKey \<Rightarrow> 'a GetGroupKey" where
  "GetGroupKey_move other =
     \<lparr>ggk_requester = SourceAddress_move (ggk_requester other),
      ggk_target_id = ggk_target_id other\<rparr>"

definition GetGroupKey_move_assign ::
  "'a GetGroupKey \<Rightarrow> 'a GetGroupKey \<Rightarrow> 'a GetGroupKey" where
  "GetGroupKey_move_assign this other =
     this\<lparr>ggk_requester := SourceAddress_move_assign (ggk_requester this) (ggk_requester other),
        ggk_target_id := ggk_target_id other\<rparr>"

definition GetGroupKeyResponse_move :: "('a, 'k) GetGroupKeyResponse \<Rightarrow> ('a, 'k) GetGroupKeyResponse" where
  "GetGroupKeyResponse_move other =
     \<lparr>ggkr_public_keys = ggkr_public_keys other,
      ggkr_target_id = ggkr_target_id other\<rparr>"

definition GetGroupKeyResponse_move_assign ::
  "('a, 'k) GetGroupKeyResponse \<Rightarrow> ('a, 'k) GetGroupKeyResponse \<Rightarrow> ('a, 'k) GetGroupKeyResponse" where
  "GetGroupKeyResponse_move_assign this other =
     this\<lparr>ggkr_public_keys := ggkr_public_keys other,
        ggkr_target_id := ggkr_target_id other\<rparr>"

definition Post_move :: "'n Post \<Rightarrow> 'n Post" where
  "Post_move other =
     \<lparr>post_name_and_type_id = post_name_and_type_id other,
      post_data = post_data other\<rparr>"

definition Post_move_assign ::
  "'n Post \<Rightarrow> 'n Post \<Rightarrow> 'n Post" where
  "Post_move_assign this other =
     this\<lparr>post_name_and_type_id := post_name_and_type_id other,
        post_data := post_data other\<rparr>"

definition PutData_move :: "'t PutData \<Rightarrow> 't PutData" where
  "PutData_move other =
     \<lparr>pd_type_id = pd_type_id other, pd_data = pd_data other\<rparr>"

definition PutData_move_assign ::
  "'t PutData \<Rightarrow> 't PutData \<Rightarrow> 't PutData" where
  "PutData_move_assign this other =
     this\<lparr>pd_type_id := pd_type_id other, pd_data := pd_data other\<rparr>"

definition PutDataResponse_move :: "('t, 'x) PutDataResponse \<Rightarrow> ('t, 'x) PutDataResponse" where
  "PutDataResponse_move other =
     \<lparr>pdr_type_id = pdr_type_id other, pdr_data = pdr_data other,
      pdr_error = pdr_error other\<rparr>"

definition PutDataResponse_move_assign ::
  "('t, 'x) PutDataResponse \<Rightarrow> ('t, 'x) PutDataResponse \<Rightarrow> ('t, 'x) PutDataResponse" where
  "PutDataResponse_move_assign this other =
     this\<lparr>pdr_type_id := pdr_type_id other, pdr_data := pdr_data other,
        pdr_error := pdr_error other\<rparr>"

subsection \<open>Account transfers and peers\<close>

definition NameAndTypeId_move :: "('a, 't) NameAndTypeId \<Rightarrow> ('a, 't) NameAndTypeId" where
  "NameAndTypeId_move other =
     \<lparr>nt_name = nt_name other, nt_type_id = nt_type_id other\<rparr>"

definition NameAndTypeId_move_assign ::
  "('a, 't) NameAndTypeId \<Rightarrow> ('a, 't) NameAndTypeId \<Rightarrow> ('a, 't) NameAndTypeId" where
  "NameAndTypeId_move_assign this other =
     this\<lparr>nt_name := nt_name other, nt_type_id := nt_type_id other\<rparr>"

definition AccountTransferInfo_move :: "'a AccountTransferInfo \<Rightarrow> 'a AccountTransferInfo" where
  "AccountTransferInfo_move other =
     \<lparr>ati_name = ati_name other\<rparr>"

definition AccountTransferInfo_move_assign ::
  "'a AccountTransferInfo \<Rightarrow> 'a AccountTransferInfo \<Rightarrow> 'a AccountTransferInfo" where
  "AccountTransferInfo_move_assign this other =
     this\<lparr>ati_name := ati_name other\<rparr>"

definition PeerNode_move :: "('a, 'f) PeerNode \<Rightarrow> ('a, 'f) PeerNode" where
  "PeerNode_move other =
     \<lparr>peer_info = NodeInfo_move (peer_info other), receive_buffer = receive_buffer other,
      peer_socket = peer_socket other, destroy_indicator = destroy_indicator other\<rparr>"

definition PeerNode_move_assign ::
  "('a, 'f) PeerNode \<Rightarrow> ('a, 'f) PeerNode \<Rightarrow> ('a, 'f) PeerNode" where
  "PeerNode_move_assign this other =
     this\<lparr>peer_info := NodeInfo_move_assign (peer_info this) (peer_info other),
        receive_buffer := receive_buffer other, peer_socket := peer_socket other,
        destroy_indicator := destroy_indicator other\<rparr>"

subsection \<open>Nothing is lost\<close>

lemmas move_defs =
  NodeInfo_move_def EndpointPair_move_def Contact_move_def SourceAddress_move_def
  MessageHeader_move_def Connect_move_def ConnectResponse_move_def FindGroup_move_def
  FindGroupResponse_move_def GetClientKey_move_def GetData_move_def GetDataResponse_move_def
  GetGroupKey_move_def GetGroupKeyResponse_move_def Post_move_def PutData_move_def
  PutDataResponse_move_def NameAndTypeId_move_def AccountTransferInfo_move_def PeerNode_move_def

lemmas move_assign_defs =
  NodeInfo_move_assign_def EndpointPair_move_assign_def Contact_move_assign_def
  SourceAddress_move_assign_def MessageHeader_move_assign_def Connect_move_assign_def
  ConnectResponse_move_assign_def FindGroup_move_assign_def FindGroupResponse_move_assign_def
  GetClientKey_move_assign_def GetData_move_assign_def GetDataResponse_move_assign_def
  GetGroupKey_move_assign_def GetGroupKeyResponse_move_assign_def Post_move_assign_def
  PutData_move_assign_def PutDataResponse_move_assign_def NameAndTypeId_move_assign_def
  AccountTransferInfo_move_assign_def PeerNode_move_assign_def

lemma moves_keep_every_member [simp]:
  "NodeInfo_move x1 = x1"
  "EndpointPair_move x2 = x2"
  "Contact_move x3 = x3"
  "SourceAddress_move x4 = x4"
  "MessageHeader_move x5 = x5"
  "Connect_move x6 = x6"
  "ConnectResponse_move x7 = x7"
  "FindGroup_move x8 = x8"
  "FindGroupResponse_move x9 = x9"
  "GetClientKey_move x10 = x10"
  "GetData_move x11 = x11"
  "GetDataResponse_move x12 = x12"
  "GetGroupKey_move x13 = x13"
  "GetGroupKeyResponse_move x14 = x14"
  "Post_move x15 = x15"
  "PutData_move x16 = x16"
  "PutDataResponse_move x17 = x17"
  "NameAndTypeId_move x18 = x18"
  "AccountTransferInfo_move x19 = x19"
  "PeerNode_move x20 = x20"
  by (simp_all add: move_defs)

lemma move_assigns_keep_every_member [simp]:
  "NodeInfo_move_assign y1 x1 = x1"
  "EndpointPair_move_assign y2 x2 = x2"
  "Contact_move_assign y3 x3 = x3"
  "SourceAddress_move_assign y4 x4 = x4"
  "MessageHeader_move_assign y5 x5 = x5"
  "Connect_move_assign y6 x6 = x6"
  "ConnectResponse_move_assign y7 x7 = x7"
  "FindGroup_move_assign y8 x8 = x8"
  "FindGroupResponse_move_assign y9 x9 = x9"
  "GetClientKey_move_assign y10 x10 = x10"
  "GetData_move_assign y11 x11 = x11"
  "GetDataResponse_move_assign y12 x12 = x12"
  "GetGroupKey_move_assign y13 x13 = x13"
  "GetGroupKeyResponse_move_assign y14 x14 = x14"
  "Post_move_assign y15 x15 = x15"
  "PutData_move_assign y16 x16 = x16"
  "PutDataResponse_move_assign y17 x17 = x17"
  "NameAndTypeId_move_assign y18 x18 = x18"
  "AccountTransferInfo_move_assign y19 x19 = x19"
  "PeerNode_move_assign y20 x20 = x20"
  by (simp_all add: move_assign_defs)

end
