(* ===== verification/Connections.thy ===== *)
theory Connections
  imports Connection_Manager "HOL-Library.Multiset"
begin

section \<open>Connections\<close>

text \<open>
  Models \<^verbatim>\<open>connections.h\<close>: connections by endpoint, the identities behind them, and a queue of
  the messages received. Every operation posts its work to one thread; the posted work and the
  completion handlers of the socket operations are the steps of the model. As in the connection
  manager, sockets and acceptors are numbers, an operation that is outstanding holds what its
  completion handler captured, and calls of the user's handlers are recorded, in order.
  \<open>no_address\<close> and \<open>no_endpoint\<close> are default-constructed values.

  Constructing a socket or an acceptor, asking for the remote endpoint and parsing the identity of the
  other side may throw: an exception leaves the posted work, so the state is what the work had made of
  it and the handler it captured is neither called nor kept. What the constructors and
  \<^verbatim>\<open>remote_endpoint\<close> give is an argument of the operation. The handlers of the users are taken not to throw.
\<close>

subsection \<open>The state\<close>

type_synonym 'a received = "error_code \<times> 'a \<times> byte list"

datatype ('a, 'e, 'h) conn_call =
    SendResult 'h error_code
  | ConnectResult 'h error_code 'a
  | AcceptResult 'h error_code 'e 'a
  | ReceiveResult 'h "'a received"

datatype ('a, 'e, 'h) conn_pending =
    ConnSending 'a 'e nat 'h
  | ConnConnecting 'e nat 'h
  | ConnConnectExchange 'e nat 'h "asio_error exchange_state"
  | ConnAccepting "16 word" nat nat 'h
  | ConnAcceptExchange 'e nat 'h "asio_error exchange_state"
  | ConnReceiving 'a 'e nat

record ('a, 'e, 'h) Connections =
  conn_our_id :: 'a
  conn_acceptors :: "(16 word, nat option) smap"
  connections :: "('e, nat) smap"
  id_to_endpoint_map :: "('a, 'e) smap"
  receive_queue :: "('h, 'a received) AsyncQueue"
  conn_next :: nat
  conn_pending_ops :: "('a, 'e, 'h) conn_pending list"
  conn_calls :: "('a, 'e, 'h) conn_call list"
  conn_sent :: "(nat \<times> byte list) list"

definition Connections_new :: "'a \<Rightarrow> ('a, 'e, 'h) Connections" where
  "Connections_new our_node_id =
     \<lparr>conn_our_id = our_node_id, conn_acceptors = [], connections = [], id_to_endpoint_map = [],
      receive_queue = AsyncQueue_new, conn_next = 0, conn_pending_ops = [], conn_calls = [], conn_sent = []\<rparr>"

definition max_message_size :: nat where
  "max_message_size = 1048576"

definition conn_start :: "('a, 'e, 'h) conn_pending \<Rightarrow> ('a, 'e, 'h) Connections \<Rightarrow> ('a, 'e, 'h) Connections" where
  "conn_start op c = c\<lparr>conn_pending_ops := conn_pending_ops c @ [op]\<rparr>"

definition conn_finish :: "nat \<Rightarrow> ('a, 'e, 'h) Connections \<Rightarrow> ('a, 'e, 'h) Connections" where
  "conn_finish i c = c\<lparr>conn_pending_ops := erase_at i (conn_pending_ops c)\<rparr>"

definition conn_invoke :: "('a, 'e, 'h) conn_call \<Rightarrow> ('a, 'e, 'h) Connections \<Rightarrow> ('a, 'e, 'h) Connections" where
  "conn_invoke call c = c\<lparr>conn_calls := conn_calls c @ [call]\<rparr>"

definition conn_fresh :: "('a, 'e, 'h) Connections \<Rightarrow> nat \<times> ('a, 'e, 'h) Connections" where
  "conn_fresh c = (conn_next c, c\<lparr>conn_next := Suc (conn_next c)\<rparr>)"

text \<open>
  A socket lives as long as the map of connections owns it, an acceptor as long as its map does. An
  entry of that map may hold a null pointer, \<open>None\<close>.
\<close>

definition conn_socket_alive :: "nat \<Rightarrow> ('a, 'e, 'h) Connections \<Rightarrow> bool" where
  "conn_socket_alive s c = list_ex (\<lambda>(e, s'). s' = s) (connections c)"

definition acceptor_alive :: "nat \<Rightarrow> ('a, 'e, 'h) Connections \<Rightarrow> bool" where
  "acceptor_alive ac c = list_ex (\<lambda>(port, ac'). ac' = Some ac) (conn_acceptors c)"

subsection \<open>Sending\<close>

definition conn_Send ::
  "bool \<Rightarrow> 'a::linorder \<Rightarrow> byte list \<Rightarrow> 'h \<Rightarrow> ('a, 'e::linorder, 'h) Connections \<Rightarrow> ('a, 'e, 'h) Connections result" where
  "conn_Send nd remote_id bytes h c =
     (case smap_find (<) remote_id (id_to_endpoint_map c) of
        None \<Rightarrow> Inr (conn_invoke (SendResult h (Some bad_descriptor)) c)
      | Some remote_endpoint \<Rightarrow>
          (case smap_find (<) remote_endpoint (connections c) of
             None \<Rightarrow> Inl (if nd then undefined_behaviour else assertion_failed)
           | Some s \<Rightarrow>
               Inr (conn_start (ConnSending remote_id remote_endpoint s h) (c\<lparr>conn_sent := conn_sent c @ [(s, bytes)]\<rparr>))))"

definition conn_forget :: "'a::linorder \<Rightarrow> 'e::linorder \<Rightarrow> ('a, 'e, 'h) Connections \<Rightarrow> ('a, 'e, 'h) Connections" where
  "conn_forget a e c = c\<lparr>id_to_endpoint_map := smap_erase (<) a (id_to_endpoint_map c),
     connections := smap_erase (<) e (connections c)\<rparr>"

definition conn_on_sent ::
  "'a::linorder \<Rightarrow> 'e::linorder \<Rightarrow> nat \<Rightarrow> 'h \<Rightarrow> error_code \<Rightarrow> ('a, 'e, 'h) Connections \<Rightarrow> ('a, 'e, 'h) Connections" where
  "conn_on_sent remote_id remote_endpoint s h err c =
     (if \<not> conn_socket_alive s c then conn_invoke (SendResult h (Some operation_aborted)) c
      else conn_invoke (SendResult h err) (if err \<noteq> None then conn_forget remote_id remote_endpoint c else c))"

subsection \<open>Receiving\<close>

text \<open>A step of the queue, with the call it makes\<close>

definition conn_queue_step ::
  "('h, 'a received) AsyncQueue \<times> ('h \<times> 'a received) option \<Rightarrow> ('a, 'e, 'h) Connections \<Rightarrow> ('a, 'e, 'h) Connections" where
  "conn_queue_step r c =
     (let c' = c\<lparr>receive_queue := fst r\<rparr> in
      case snd r of None \<Rightarrow> c' | Some (h, v) \<Rightarrow> conn_invoke (ReceiveResult h v) c')"

definition conn_Receive :: "'h \<Rightarrow> ('a, 'e, 'h) Connections \<Rightarrow> ('a, 'e, 'h) Connections" where
  "conn_Receive h c = conn_queue_step (AsyncPop h (receive_queue c)) c"

definition conn_StartReceiving :: "'a \<Rightarrow> 'e \<Rightarrow> nat \<Rightarrow> ('a, 'e, 'h) Connections \<Rightarrow> ('a, 'e, 'h) Connections" where
  "conn_StartReceiving a e s c = conn_start (ConnReceiving a e s) c"

text \<open>
  The message that is pushed. Each receive operation has a buffer of its own, which is cut to the
  size received unless the connection is gone.
\<close>

definition received_value :: "bool \<Rightarrow> error_code \<Rightarrow> 'a \<Rightarrow> byte list \<Rightarrow> 'a received" where
  "received_value alive err a bs =
     (if alive then (err, a, bs) else (Some operation_aborted, a, bs @ replicate (max_message_size - length bs) 0))"

definition conn_on_received ::
  "'a::linorder \<Rightarrow> 'e::linorder \<Rightarrow> nat \<Rightarrow> error_code \<Rightarrow> byte list \<Rightarrow> ('a, 'e, 'h) Connections \<Rightarrow> ('a, 'e, 'h) Connections" where
  "conn_on_received a e s err bs c =
     (if \<not> conn_socket_alive s c
      then conn_queue_step (Push (received_value False err a bs) (receive_queue c)) c
      else let c1 = (if err \<noteq> None then conn_forget a e c else c);
               c2 = conn_queue_step (Push (received_value True err a bs) (receive_queue c1)) c1
           in if err \<noteq> None then c2 else conn_StartReceiving a e s c2)"

subsection \<open>Connecting and accepting\<close>

definition conn_Connect ::
  "'a \<Rightarrow> unit result \<Rightarrow> 'e::linorder \<Rightarrow> 'h \<Rightarrow> ('a, 'e, 'h) Connections \<Rightarrow> ('a, 'e, 'h) Connections \<times> unit result" where
  "conn_Connect no_address new_socket endpoint h c =
     (case new_socket of
        Inl err \<Rightarrow> (c, Inl err)
      | Inr _ \<Rightarrow>
          (let (s, c1) = conn_fresh c in
           case smap_find (<) endpoint (connections c1) of
             Some _ \<Rightarrow> (conn_invoke (ConnectResult h (Some already_started) no_address) c1, Inr ())
           | None \<Rightarrow>
               (conn_start (ConnConnecting endpoint s h)
                  (c1\<lparr>connections := smap_insert (<) endpoint s (connections c1)\<rparr>), Inr ())))"

text \<open>
  A new connection is entered under its endpoint, and its identity exchange is started: our identity is
  sent while theirs is awaited.
\<close>

definition conn_exchange ::
  "('a, 'f, 'k, 's, 'n, 't, 'x) prims \<Rightarrow> 'e::linorder \<Rightarrow> nat \<Rightarrow> (asio_error exchange_state \<Rightarrow> ('a, 'e, 'h) conn_pending) \<Rightarrow>
   ('a, 'e, 'h) Connections \<Rightarrow> ('a, 'e, 'h) Connections" where
  "conn_exchange P remote_endpoint s op c =
     (let bytes = enc (p_address P) (conn_our_id c) in
      conn_start (op (AsyncExchange bytes))
        (c\<lparr>connections := smap_assign (<) remote_endpoint s (connections c), conn_sent := conn_sent c @ [(s, bytes)]\<rparr>))"

definition conn_on_connected ::
  "('a, 'f, 'k, 's, 'n, 't, 'x) prims \<Rightarrow> 'a \<Rightarrow> nat \<Rightarrow> 'h \<Rightarrow> error_code \<Rightarrow> 'e::linorder result \<Rightarrow>
   ('a, 'e, 'h) Connections \<Rightarrow> ('a, 'e, 'h) Connections \<times> unit result" where
  "conn_on_connected P no_address s h err remote c =
     (if \<not> conn_socket_alive s c then (conn_invoke (ConnectResult h (Some operation_aborted) no_address) c, Inr ())
      else if err \<noteq> None then (conn_invoke (ConnectResult h err no_address) c, Inr ())
      else case remote of
          Inl e \<Rightarrow> (c, Inl e)
        | Inr remote_endpoint \<Rightarrow> (conn_exchange P remote_endpoint s (ConnConnectExchange remote_endpoint s h) c, Inr ()))"

text \<open>What both kinds of connections do once the identity of the other side has been read\<close>

definition conn_identified ::
  "'a::linorder \<Rightarrow> 'e \<Rightarrow> nat \<Rightarrow> ('a, 'e, 'h) Connections \<Rightarrow> ('a, 'e, 'h) Connections" where
  "conn_identified his_id remote_endpoint s c =
     conn_StartReceiving his_id remote_endpoint s
       (c\<lparr>id_to_endpoint_map := smap_assign (<) his_id remote_endpoint (id_to_endpoint_map c)\<rparr>)"

definition conn_on_connect_exchanged ::
  "('a::linorder, 'f, 'k, 's, 'n, 't, 'x) prims \<Rightarrow> 'a \<Rightarrow> 'e::linorder \<Rightarrow> nat \<Rightarrow> 'h \<Rightarrow> error_code \<Rightarrow> byte list \<Rightarrow>
   ('a, 'e, 'h) Connections \<Rightarrow> ('a, 'e, 'h) Connections \<times> unit result" where
  "conn_on_connect_exchanged P no_address remote_endpoint s h err data c =
     (if \<not> conn_socket_alive s c then (conn_invoke (ConnectResult h (Some operation_aborted) no_address) c, Inr ())
      else if err \<noteq> None
      then (conn_invoke (ConnectResult h err no_address)
              (c\<lparr>connections := smap_erase (<) remote_endpoint (connections c)\<rparr>), Inr ())
      else (case dec (p_address P) data of
          None \<Rightarrow> (c, Inl library_error)
        | Some (his_id, _) \<Rightarrow>
            (conn_invoke (ConnectResult h err his_id) (conn_identified his_id remote_endpoint s c), Inr ())))"

text \<open>
  The acceptor of a port: a null pointer is entered first, and is replaced by a new acceptor, which may
  throw and then leaves the null pointer behind. A null pointer found there is replaced as well.
\<close>

definition conn_acceptor ::
  "unit result \<Rightarrow> 16 word \<Rightarrow> ('a, 'e, 'h) Connections \<Rightarrow> ('a, 'e, 'h) Connections \<times> nat result" where
  "conn_acceptor new_acceptor port c =
     (let c1 = c\<lparr>conn_acceptors := smap_insert (<) port None (conn_acceptors c)\<rparr> in
      case smap_find (<) port (conn_acceptors c1) of
        Some (Some ac) \<Rightarrow> (c1, Inr ac)
      | _ \<Rightarrow>
          (case new_acceptor of
             Inl err \<Rightarrow> (c1, Inl err)
           | Inr _ \<Rightarrow>
               (let (ac, c2) = conn_fresh c1
                in (c2\<lparr>conn_acceptors := smap_assign (<) port (Some ac) (conn_acceptors c2)\<rparr>, Inr ac))))"

definition conn_Accept ::
  "unit result \<Rightarrow> unit result \<Rightarrow> 16 word \<Rightarrow> 'h \<Rightarrow> ('a, 'e, 'h) Connections \<Rightarrow> ('a, 'e, 'h) Connections \<times> unit result" where
  "conn_Accept new_acceptor new_socket port h c =
     (case conn_acceptor new_acceptor port c of
        (c1, Inl err) \<Rightarrow> (c1, Inl err)
      | (c1, Inr ac) \<Rightarrow>
          (case new_socket of
             Inl err \<Rightarrow> (c1, Inl err)
           | Inr _ \<Rightarrow> (let (s, c2) = conn_fresh c1 in (conn_start (ConnAccepting port ac s h) c2, Inr ()))))"

definition conn_on_accepted ::
  "('a, 'f, 'k, 's, 'n, 't, 'x) prims \<Rightarrow> 'a \<Rightarrow> 'e \<Rightarrow> 16 word \<Rightarrow> nat \<Rightarrow> nat \<Rightarrow> 'h \<Rightarrow> error_code \<Rightarrow> 'e::linorder result \<Rightarrow>
   ('a, 'e, 'h) Connections \<Rightarrow> ('a, 'e, 'h) Connections \<times> unit result" where
  "conn_on_accepted P no_address no_endpoint port ac s h err remote c =
     (if \<not> acceptor_alive ac c then (conn_invoke (AcceptResult h (Some operation_aborted) no_endpoint no_address) c, Inr ())
      else if err \<noteq> None then (conn_invoke (AcceptResult h (Some operation_aborted) no_endpoint no_address) c, Inr ())
      else let c1 = c\<lparr>conn_acceptors := smap_erase (<) port (conn_acceptors c)\<rparr> in
        case remote of
          Inl e \<Rightarrow> (c1, Inl e)
        | Inr remote_endpoint \<Rightarrow> (conn_exchange P remote_endpoint s (ConnAcceptExchange remote_endpoint s h) c1, Inr ()))"

definition conn_on_accept_exchanged ::
  "('a::linorder, 'f, 'k, 's, 'n, 't, 'x) prims \<Rightarrow> 'a \<Rightarrow> 'e::linorder \<Rightarrow> nat \<Rightarrow> 'h \<Rightarrow> error_code \<Rightarrow> byte list \<Rightarrow>
   ('a, 'e, 'h) Connections \<Rightarrow> ('a, 'e, 'h) Connections \<times> unit result" where
  "conn_on_accept_exchanged P no_address remote_endpoint s h err data c =
     (if \<not> conn_socket_alive s c then (conn_invoke (AcceptResult h (Some operation_aborted) remote_endpoint no_address) c, Inr ())
      else if err \<noteq> None
      then (conn_invoke (AcceptResult h err remote_endpoint no_address)
              (c\<lparr>connections := smap_erase (<) remote_endpoint (connections c)\<rparr>), Inr ())
      else (case dec (p_address P) data of
          None \<Rightarrow> (c, Inl library_error)
        | Some (his_id, _) \<Rightarrow>
            (conn_invoke (AcceptResult h err remote_endpoint his_id) (conn_identified his_id remote_endpoint s c), Inr ())))"

definition conn_Shutdown :: "('a, 'e, 'h) Connections \<Rightarrow> ('a, 'e, 'h) Connections" where
  "conn_Shutdown c = c\<lparr>conn_acceptors := [], connections := [], id_to_endpoint_map := []\<rparr>"

text \<open>The destructor\<close>

definition Connections_destroy :: "('a, 'e, 'h) Connections \<Rightarrow> ('a, 'e, 'h) Connections" where
  "Connections_destroy c = conn_Shutdown c"

subsection \<open>Runs\<close>

text \<open>
  The operations a user calls, with the handler that is given to them, the step of the queue they make,
  and the exception that leaves them, if one does, next to the handler that is lost with it. After an
  exception a run goes on; it ends where \<open>Send\<close> fails its assertion or is undefined.
\<close>

fun thrown :: "'h \<Rightarrow> unit result \<Rightarrow> ('h \<times> error) list" where
  "thrown h (Inl err) = [(h, err)]"
| "thrown h (Inr _) = []"

inductive conn_op ::
  "'a \<Rightarrow> ('a::linorder, 'e::linorder, 'h) Connections \<Rightarrow> 'h list \<Rightarrow> ('h, 'a received) queue_op list \<Rightarrow>
   ('h \<times> error) list \<Rightarrow> ('a, 'e, 'h) Connections \<Rightarrow> bool"
  for no_address where
  op_send: "conn_Send nd a bs h c = Inr c' \<Longrightarrow> conn_op no_address c [h] [] [] c'"
| op_connect: "conn_Connect no_address new_socket e h c = (c', r) \<Longrightarrow> conn_op no_address c [h] [] (thrown h r) c'"
| op_accept: "conn_Accept new_acceptor new_socket port h c = (c', r) \<Longrightarrow> conn_op no_address c [h] [] (thrown h r) c'"
| op_receive: "conn_op no_address c [] [Popped h] [] (conn_Receive h c)"
| op_shutdown: "conn_op no_address c [] [] [] (conn_Shutdown c)"

text \<open>The completion of an outstanding operation\<close>

inductive conn_complete ::
  "('a, 'f, 'k, 's, 'n, 't, 'x) prims \<Rightarrow> 'a \<Rightarrow> 'e \<Rightarrow> ('a::linorder, 'e::linorder, 'h) Connections \<Rightarrow>
   ('h, 'a received) queue_op list \<Rightarrow> ('h \<times> error) list \<Rightarrow> ('a, 'e, 'h) Connections \<Rightarrow> bool"
  for P no_address no_endpoint where
  done_send: "i < length (conn_pending_ops c) \<Longrightarrow> conn_pending_ops c ! i = ConnSending a e s h \<Longrightarrow>
    conn_complete P no_address no_endpoint c [] [] (conn_on_sent a e s h err (conn_finish i c))"
| done_connect: "i < length (conn_pending_ops c) \<Longrightarrow> conn_pending_ops c ! i = ConnConnecting e s h \<Longrightarrow>
    conn_on_connected P no_address s h err remote (conn_finish i c) = (c', r) \<Longrightarrow>
    conn_complete P no_address no_endpoint c [] (thrown h r) c'"
| half_connect: "i < length (conn_pending_ops c) \<Longrightarrow> conn_pending_ops c ! i = ConnConnectExchange e s h ex \<Longrightarrow>
    complete done ex = (ex', None) \<Longrightarrow>
    conn_complete P no_address no_endpoint c [] [] (conn_start (ConnConnectExchange e s h ex') (conn_finish i c))"
| done_connect_exch: "i < length (conn_pending_ops c) \<Longrightarrow> conn_pending_ops c ! i = ConnConnectExchange e s h ex \<Longrightarrow>
    complete done ex = (ex', Some (err, data)) \<Longrightarrow>
    conn_on_connect_exchanged P no_address e s h err data (conn_finish i c) = (c', r) \<Longrightarrow>
    conn_complete P no_address no_endpoint c [] (thrown h r) c'"
| done_accept: "i < length (conn_pending_ops c) \<Longrightarrow> conn_pending_ops c ! i = ConnAccepting port ac s h \<Longrightarrow>
    conn_on_accepted P no_address no_endpoint port ac s h err remote (conn_finish i c) = (c', r) \<Longrightarrow>
    conn_complete P no_address no_endpoint c [] (thrown h r) c'"
| half_accept: "i < length (conn_pending_ops c) \<Longrightarrow> conn_pending_ops c ! i = ConnAcceptExchange e s h ex \<Longrightarrow>
    complete done ex = (ex', None) \<Longrightarrow>
    conn_complete P no_address no_endpoint c [] [] (conn_start (ConnAcceptExchange e s h ex') (conn_finish i c))"
| done_accept_exch: "i < length (conn_pending_ops c) \<Longrightarrow> conn_pending_ops c ! i = ConnAcceptExchange e s h ex \<Longrightarrow>
    complete done ex = (ex', Some (err, data)) \<Longrightarrow>
    conn_on_accept_exchanged P no_address e s h err data (conn_finish i c) = (c', r) \<Longrightarrow>
    conn_complete P no_address no_endpoint c [] (thrown h r) c'"
| done_receive: "i < length (conn_pending_ops c) \<Longrightarrow> conn_pending_ops c ! i = ConnReceiving a e s \<Longrightarrow>
    length bs \<le> max_message_size \<Longrightarrow>
    conn_complete P no_address no_endpoint c [Pushed (received_value (conn_socket_alive s c) err a bs)] []
      (conn_on_received a e s err bs (conn_finish i c))"

text \<open>
  A run, with all the handlers given to \<open>Send\<close>, \<open>Connect\<close> and \<open>Accept\<close>, all steps of the queue, and all
  exceptions with the handlers they ended
\<close>

inductive conn_run ::
  "('a, 'f, 'k, 's, 'n, 't, 'x) prims \<Rightarrow> 'a \<Rightarrow> 'e \<Rightarrow> ('a::linorder, 'e::linorder, 'h) Connections \<Rightarrow> 'h list \<Rightarrow>
   ('h, 'a received) queue_op list \<Rightarrow> ('h \<times> error) list \<Rightarrow> bool"
  for P no_address no_endpoint where
  conn_run_new: "conn_run P no_address no_endpoint (Connections_new our_id) [] [] []"
| conn_run_op: "conn_run P no_address no_endpoint c hs qs xs \<Longrightarrow> conn_op no_address c hs' qs' xs' c' \<Longrightarrow>
    conn_run P no_address no_endpoint c' (hs @ hs') (qs @ qs') (xs @ xs')"
| conn_run_complete: "conn_run P no_address no_endpoint c hs qs xs \<Longrightarrow> conn_complete P no_address no_endpoint c qs' xs' c' \<Longrightarrow>
    conn_run P no_address no_endpoint c' hs (qs @ qs') (xs @ xs')"

subsection \<open>Accounting for handlers\<close>

fun call_handlers :: "('a, 'e, 'h) conn_call \<Rightarrow> 'h list" where
  "call_handlers (SendResult h err) = [h]"
| "call_handlers (ConnectResult h err a) = [h]"
| "call_handlers (AcceptResult h err e a) = [h]"
| "call_handlers (ReceiveResult h v) = []"

fun pending_handlers :: "('a, 'e, 'h) conn_pending \<Rightarrow> 'h list" where
  "pending_handlers (ConnSending a e s h) = [h]"
| "pending_handlers (ConnConnecting e s h) = [h]"
| "pending_handlers (ConnConnectExchange e s h ex) = [h]"
| "pending_handlers (ConnAccepting port ac s h) = [h]"
| "pending_handlers (ConnAcceptExchange e s h ex) = [h]"
| "pending_handlers (ConnReceiving a e s) = []"

fun receive_call :: "('a, 'e, 'h) conn_call \<Rightarrow> ('h \<times> 'a received) list" where
  "receive_call (ReceiveResult h v) = [(h, v)]"
| "receive_call _ = []"

definition called :: "('a, 'e, 'h) Connections \<Rightarrow> 'h list" where
  "called c = concat (map call_handlers (conn_calls c))"

definition waiting_handlers :: "('a, 'e, 'h) Connections \<Rightarrow> 'h list" where
  "waiting_handlers c = concat (map pending_handlers (conn_pending_ops c))"

definition received_calls :: "('a, 'e, 'h) Connections \<Rightarrow> ('h \<times> 'a received) list" where
  "received_calls c = concat (map receive_call (conn_calls c))"

definition account :: "('a, 'e, 'h) Connections \<Rightarrow> 'h multiset" where
  "account c = mset (called c) + mset (waiting_handlers c)"

definition queue_state :: "('a, 'e, 'h) Connections \<Rightarrow> ('h, 'a received) AsyncQueue \<times> ('h \<times> 'a received) list" where
  "queue_state c = (receive_queue c, received_calls c)"

lemmas conn_account_defs = account_def called_def waiting_handlers_def queue_state_def received_calls_def

lemma conn_account_simps [simp]:
  "account (conn_invoke call c) = account c + mset (call_handlers call)"
  "account (conn_start op c) = account c + mset (pending_handlers op)"
  "account (c\<lparr>connections := m\<rparr>) = account c" "account (c\<lparr>id_to_endpoint_map := ids\<rparr>) = account c"
  "account (c\<lparr>conn_acceptors := ac\<rparr>) = account c" "account (c\<lparr>conn_next := n\<rparr>) = account c"
  "account (c\<lparr>conn_sent := sn\<rparr>) = account c" "account (c\<lparr>receive_queue := q\<rparr>) = account c"
  "account (conn_forget a e c) = account c"
  by (simp_all add: conn_account_defs conn_invoke_def conn_start_def conn_forget_def)

lemma queue_state_simps [simp]:
  "receive_call call = [] \<Longrightarrow> queue_state (conn_invoke call c) = queue_state c"
  "queue_state (conn_start op c) = queue_state c" "queue_state (conn_finish i c) = queue_state c"
  "queue_state (c\<lparr>connections := m\<rparr>) = queue_state c" "queue_state (c\<lparr>id_to_endpoint_map := ids\<rparr>) = queue_state c"
  "queue_state (c\<lparr>conn_acceptors := ac\<rparr>) = queue_state c" "queue_state (c\<lparr>conn_next := n\<rparr>) = queue_state c"
  "queue_state (c\<lparr>conn_sent := sn\<rparr>) = queue_state c" "queue_state (conn_forget a e c) = queue_state c"
  by (simp_all add: conn_account_defs conn_invoke_def conn_start_def conn_finish_def conn_forget_def)

lemma account_finish:
  assumes "i < length (conn_pending_ops c)" "conn_pending_ops c ! i = op"
  shows "account c = account (conn_finish i c) + mset (pending_handlers op)"
proof -
  define xs ys where "xs = take i (conn_pending_ops c)" and "ys = drop (Suc i) (conn_pending_ops c)"
  have "conn_pending_ops c = xs @ op # ys"
    using id_take_nth_drop [OF assms(1)] assms(2) by (simp add: xs_def ys_def)
  moreover have "conn_pending_ops (conn_finish i c) = xs @ ys"
    by (simp add: conn_finish_def erase_at_def xs_def ys_def)
  moreover have "called (conn_finish i c) = called c" by (simp add: called_def conn_finish_def)
  ultimately show ?thesis by (simp add: account_def waiting_handlers_def)
qed

lemma queue_run_append:
  "queue_run push pop (xs @ ys) q = (let (q', ds) = queue_run push pop xs q; (q'', ds') = queue_run push pop ys q' in (q'', ds @ ds'))"
  by (induction xs arbitrary: q) (auto simp: Let_def case_prod_beta split: option.splits)

text \<open>What a step does to the account and to the queue\<close>

definition queue_steps ::
  "('h, 'a received) queue_op list \<Rightarrow> ('a, 'e, 'h) Connections \<Rightarrow> ('a, 'e, 'h) Connections \<Rightarrow> bool" where
  "queue_steps qs c c' \<longleftrightarrow> queue_state c' =
     (let (q, ds) = queue_run Push AsyncPop qs (receive_queue c) in (q, received_calls c @ ds))"

lemma queue_steps_same: "queue_state c' = queue_state c \<Longrightarrow> queue_steps [] c c'"
  by (simp add: queue_steps_def queue_state_def)

lemma conn_queue_step_effect:
  "queue_state (conn_queue_step r c) = (fst r, received_calls c @ (case snd r of None \<Rightarrow> [] | Some x \<Rightarrow> [x]))"
  "account (conn_queue_step r c) = account c"
  by (auto simp: conn_queue_step_def Let_def conn_account_defs conn_invoke_def split: option.splits)

lemma conn_op_effect:
  assumes "conn_op no_address c hs qs xs c'"
  shows "account c' + mset (map fst xs) = account c + mset hs \<and> queue_steps qs c c'"
  using assms
proof (cases rule: conn_op.cases)
  case (op_receive h)
  then show ?thesis
    by (auto simp: conn_Receive_def conn_queue_step_effect queue_steps_def Let_def case_prod_beta split: option.splits)
qed (auto simp: conn_Send_def conn_Connect_def conn_Accept_def conn_acceptor_def conn_Shutdown_def conn_fresh_def Let_def
    intro!: queue_steps_same split: option.splits sum.splits)

lemma conn_on_received_effect:
  "account (conn_on_received a e s err bs c) = account c"
  "queue_steps [Pushed (received_value (conn_socket_alive s c) err a bs)] c (conn_on_received a e s err bs c)"
  by (auto simp: conn_on_received_def conn_queue_step_effect conn_StartReceiving_def queue_steps_def Let_def case_prod_beta
      split: option.splits) (auto simp: conn_forget_def received_calls_def)

lemma conn_finish_simps [simp]:
  "conn_socket_alive s (conn_finish i c) = conn_socket_alive s c" "acceptor_alive ac (conn_finish i c) = acceptor_alive ac c"
  "receive_queue (conn_finish i c) = receive_queue c" "received_calls (conn_finish i c) = received_calls c"
  "connections (conn_finish i c) = connections c" "id_to_endpoint_map (conn_finish i c) = id_to_endpoint_map c"
  "conn_acceptors (conn_finish i c) = conn_acceptors c" "conn_calls (conn_finish i c) = conn_calls c"
  "conn_our_id (conn_finish i c) = conn_our_id c" "conn_next (conn_finish i c) = conn_next c"
  by (simp_all add: conn_finish_def conn_socket_alive_def acceptor_alive_def received_calls_def)

lemma conn_exchange_effects [simp]:
  fixes c :: "('a::linorder, 'e::linorder, 'h) Connections"
  shows "account (conn_exchange P e s op c) = account c + mset (pending_handlers (op (AsyncExchange (enc (p_address P) (conn_our_id c)))))"
  "queue_state (conn_exchange P e s op c) = queue_state c"
  by (simp_all add: conn_exchange_def Let_def)

lemma conn_on_sent_effects:
  "account (conn_on_sent a e s h err c) = account c + {#h#}" "queue_state (conn_on_sent a e s h err c) = queue_state c"
  by (simp_all add: conn_on_sent_def)

lemma conn_handler_effects:
  "conn_on_connected P na s h err rm c = (c', r) \<Longrightarrow> account c' + mset (map fst (thrown h r)) = account c + {#h#} \<and> queue_state c' = queue_state c"
  "conn_on_accepted P na ne port ac s h err rm c = (c', r) \<Longrightarrow> account c' + mset (map fst (thrown h r)) = account c + {#h#} \<and> queue_state c' = queue_state c"
  "conn_on_connect_exchanged P na e s h err data c = (c', r) \<Longrightarrow> account c' + mset (map fst (thrown h r)) = account c + {#h#} \<and> queue_state c' = queue_state c"
  "conn_on_accept_exchanged P na e s h err data c = (c', r) \<Longrightarrow> account c' + mset (map fst (thrown h r)) = account c + {#h#} \<and> queue_state c' = queue_state c"
  by (auto simp: conn_on_connected_def conn_on_accepted_def conn_on_connect_exchanged_def conn_on_accept_exchanged_def
      conn_identified_def conn_StartReceiving_def Let_def split: if_splits option.splits sum.splits)

lemma conn_complete_effect:
  assumes "conn_complete P no_address no_endpoint c qs xs c'"
  shows "account c' + mset (map fst xs) = account c \<and> queue_steps qs c c'"
  using assms
proof (cases rule: conn_complete.cases)
  case done_receive
  then show ?thesis
    using account_finish [OF done_receive(4,5)] conn_on_received_effect(2) [where c = "conn_finish _ c"]
    by (simp add: queue_steps_def conn_on_received_effect(1))
qed (auto simp: account_finish conn_on_sent_effects intro!: queue_steps_same dest!: conn_handler_effects)

lemma conn_run_effect:
  assumes "conn_run P no_address no_endpoint c hs qs xs"
  shows "mset hs = account c + mset (map fst xs) \<and> queue_state c = queue_run Push AsyncPop qs AsyncQueue_new"
  using assms
proof (induction rule: conn_run.induct)
  case (conn_run_new our_id)
  then show ?case by (simp add: conn_account_defs Connections_new_def)
next
  case (conn_run_op c hs qs xs hs' qs' xs' c')
  then have q: "queue_run Push AsyncPop qs AsyncQueue_new = (receive_queue c, received_calls c)" by (simp add: queue_state_def)
  have "mset (hs @ hs') = account c' + mset (map fst (xs @ xs'))"
    using conn_op_effect [OF conn_run_op(2)] conn_run_op(3) by (simp add: ac_simps)
  then show ?case
    using q conn_op_effect [OF conn_run_op(2)] by (simp add: queue_steps_def queue_run_append)
next
  case (conn_run_complete c hs qs xs qs' xs' c')
  then have q: "queue_run Push AsyncPop qs AsyncQueue_new = (receive_queue c, received_calls c)" by (simp add: queue_state_def)
  have "mset hs = account c' + mset (map fst (xs @ xs'))"
    using conn_complete_effect [OF conn_run_complete(2)] conn_run_complete(3) by (simp add: ac_simps)
  then show ?case
    using q conn_complete_effect [OF conn_run_complete(2)] by (simp add: queue_steps_def queue_run_append)
qed

text \<open>
  C29. Handlers and messages are accounted for. Along every run, every handler that was given to
  \<open>Send\<close>, \<open>Connect\<close> or \<open>Accept\<close> either waits for an operation that is outstanding, or has been
  called, or was lost with an exception that left the operation (a constructor, \<^verbatim>\<open>remote_endpoint\<close> or the
  parsing of the identity threw); the three together have it exactly as often as it was given. The receive
  handlers have been called with the messages in the order they arrived, one message each; messages
  nobody asked for are kept in order, and so are handlers without a message.
\<close>

theorem connections_account_for_handlers:
  assumes "conn_run P no_address no_endpoint c hs qs xs"
  shows "mset hs = mset (called c) + mset (waiting_handlers c) + mset (map fst xs)
    \<and> received_calls c = zip (handlers_given qs) (values_pushed qs)
    \<and> aq_values (receive_queue c) = drop (length (handlers_given qs)) (values_pushed qs)
    \<and> aq_handlers (receive_queue c) = drop (length (values_pushed qs)) (handlers_given qs)"
proof -
  have ok: "queue_ok AsyncQueue_new" "aq_handlers AsyncQueue_new = []" "aq_values AsyncQueue_new = []"
    by (simp_all add: queue_ok_def AsyncQueue_new_def)
  obtain q where "queue_run Push AsyncPop qs AsyncQueue_new = (q, zip (handlers_given qs) (values_pushed qs))"
    "aq_handlers q = drop (length (values_pushed qs)) (handlers_given qs)"
    "aq_values q = drop (length (handlers_given qs)) (values_pushed qs)"
    using aq.run_matches [OF ok(1), of "handlers_given qs" qs "values_pushed qs"] unfolding ok(2,3) by auto
  then show ?thesis using conn_run_effect [OF assms] by (simp add: account_def queue_state_def)
qed

subsection \<open>After a shutdown\<close>

fun aborted_call :: "('a, 'e, 'h) conn_call \<Rightarrow> bool" where
  "aborted_call (SendResult h err) = (err = Some operation_aborted)"
| "aborted_call (ConnectResult h err a) = (err = Some operation_aborted)"
| "aborted_call (AcceptResult h err e a) = (err = Some operation_aborted)"
| "aborted_call (ReceiveResult h v) = (fst v = Some operation_aborted)"

text \<open>How many completions an outstanding operation has ahead of it at most: an exchange has two\<close>

fun op_weight :: "('a, 'e, 'h) conn_pending \<Rightarrow> nat" where
  "op_weight (ConnConnectExchange e s h ex) = (if first_error ex = None then 2 else 1)"
| "op_weight (ConnAcceptExchange e s h ex) = (if first_error ex = None then 2 else 1)"
| "op_weight _ = 1"

definition conn_weight :: "('a, 'e, 'h) Connections \<Rightarrow> nat" where
  "conn_weight c = sum_list (map op_weight (conn_pending_ops c))"

definition shut_down :: "('a, 'e, 'h) Connections \<Rightarrow> bool" where
  "shut_down c \<longleftrightarrow> connections c = [] \<and> conn_acceptors c = [] \<and> id_to_endpoint_map c = []"

lemma weight_finish:
  assumes "i < length (conn_pending_ops c)" "conn_pending_ops c ! i = op"
  shows "conn_weight c = conn_weight (conn_finish i c) + op_weight op"
proof -
  define xs ys where "xs = take i (conn_pending_ops c)" and "ys = drop (Suc i) (conn_pending_ops c)"
  have "conn_pending_ops c = xs @ op # ys"
    using id_take_nth_drop [OF assms(1)] assms(2) by (simp add: xs_def ys_def)
  moreover have "conn_pending_ops (conn_finish i c) = xs @ ys"
    by (simp add: conn_finish_def erase_at_def xs_def ys_def)
  ultimately show ?thesis by (simp add: conn_weight_def)
qed

lemma conn_weight_simps [simp]:
  "conn_weight (conn_start op c) = conn_weight c + op_weight op" "conn_weight (conn_invoke call c) = conn_weight c"
  "conn_weight (c\<lparr>receive_queue := q\<rparr>) = conn_weight c" "conn_weight (conn_Shutdown c) = conn_weight c"
  by (simp_all add: conn_weight_def conn_start_def conn_invoke_def conn_Shutdown_def)

lemma shut_down_simps [simp]:
  "shut_down (conn_start op c) = shut_down c" "shut_down (conn_finish i c) = shut_down c"
  "shut_down (conn_invoke call c) = shut_down c" "shut_down (c\<lparr>receive_queue := q\<rparr>) = shut_down c"
  "shut_down (conn_Shutdown c)"
  by (simp_all add: shut_down_def conn_start_def conn_invoke_def conn_Shutdown_def)

lemma shut_down_dead: "shut_down c \<Longrightarrow> \<not> conn_socket_alive s c" "shut_down c \<Longrightarrow> \<not> acceptor_alive ac c"
  by (simp_all add: shut_down_def conn_socket_alive_def acceptor_alive_def)

lemma complete_half: "complete done ex = (ex', None) \<Longrightarrow> first_error ex = None \<and> first_error ex' \<noteq> None"
  by (cases "done") (auto simp: exchange_sent_def exchange_received_def split: option.splits)

lemma conn_queue_step_simps [simp]:
  "conn_weight (conn_queue_step r c) = conn_weight c" "shut_down (conn_queue_step r c) = shut_down c"
  "conn_calls (conn_queue_step r c) = conn_calls c @ (case snd r of None \<Rightarrow> [] | Some (h, v) \<Rightarrow> [ReceiveResult h v])"
  by (auto simp: conn_queue_step_def Let_def conn_invoke_def conn_weight_def shut_down_def split: option.splits)

lemma conn_calls_simps [simp]:
  "conn_calls (conn_invoke call c) = conn_calls c @ [call]" "conn_calls (conn_start op c) = conn_calls c"
  by (simp_all add: conn_invoke_def conn_start_def)

lemma Push_value: "snd (Push v q) = Some (h, w) \<Longrightarrow> w = v"
  unfolding Async_Queue.Push_def by (cases "aq_handlers q") auto

text \<open>One completion after a shutdown: it brings the end closer, and reports that it was aborted.\<close>

lemma drain_step:
  assumes "conn_complete P no_address no_endpoint c qs xs c'" "shut_down c"
  shows "xs = [] \<and> shut_down c' \<and> conn_weight c' < conn_weight c
    \<and> (\<exists>new. conn_calls c' = conn_calls c @ new \<and> list_all aborted_call new)"
  using assms(1)
proof (cases rule: conn_complete.cases)
  case half_connect
  then show ?thesis
    using assms(2) weight_finish [OF half_connect(4,5)] complete_half [OF half_connect(6)] by simp
next
  case half_accept
  then show ?thesis
    using assms(2) weight_finish [OF half_accept(4,5)] complete_half [OF half_accept(6)] by simp
next
  case done_receive
  then show ?thesis
    using assms(2) weight_finish [OF done_receive(4,5)]
    by (auto simp: conn_on_received_def shut_down_dead received_value_def split: option.splits dest!: Push_value)
qed (use assms(2) weight_finish [of _ c] in \<open>auto simp: conn_on_sent_def conn_on_connected_def conn_on_accepted_def
    conn_on_connect_exchanged_def conn_on_accept_exchanged_def shut_down_dead\<close>)

lemma drain_steps:
  assumes "((\<lambda>c c'. \<exists>qs xs. conn_complete P no_address no_endpoint c qs xs c') ^^ n) c c'" "shut_down c"
  shows "shut_down c' \<and> conn_weight c' + n \<le> conn_weight c
    \<and> (\<exists>new. conn_calls c' = conn_calls c @ new \<and> list_all aborted_call new)"
  using assms
proof (induction n arbitrary: c')
  case (Suc n)
  then obtain c1 qs xs where c1: "((\<lambda>c c'. \<exists>qs xs. conn_complete P no_address no_endpoint c qs xs c') ^^ n) c c1"
    "conn_complete P no_address no_endpoint c1 qs xs c'" by auto
  from Suc.IH [OF c1(1) Suc.prems(2)] drain_step [OF c1(2)] show ?case
    by (elim conjE exE) (simp, metis append.assoc list_all_append)
qed simp

lemma op_weight_le: "op_weight op \<le> 2"
  by (cases op) auto

lemma conn_weight_le: "conn_weight c \<le> 2 * length (conn_pending_ops c)"
proof -
  have "sum_list (map op_weight xs) \<le> 2 * length xs" for xs :: "('a, 'b, 'c) conn_pending list"
  proof (induction xs)
    case (Cons x xs)
    then show ?case using op_weight_le [of x] by simp
  qed simp
  then show ?thesis by (simp add: conn_weight_def)
qed

lemma conn_run_completes:
  assumes "((\<lambda>c c'. \<exists>qs xs. conn_complete P no_address no_endpoint c qs xs c') ^^ n) c c'" "conn_run P no_address no_endpoint c hs qs xs"
    "shut_down c"
  shows "\<exists>qs'. conn_run P no_address no_endpoint c' hs qs' xs"
  using assms
proof (induction n arbitrary: c')
  case (Suc n)
  then obtain c1 qs1 xs1 where c1: "((\<lambda>c c'. \<exists>qs xs. conn_complete P no_address no_endpoint c qs xs c') ^^ n) c c1"
    "conn_complete P no_address no_endpoint c1 qs1 xs1 c'" by auto
  obtain qs2 where "conn_run P no_address no_endpoint c1 hs qs2 xs" using Suc.IH [OF c1(1) Suc.prems(2,3)] by blast
  from conn_run_complete [OF this c1(2)] drain_step [OF c1(2)] drain_steps [OF c1(1) Suc.prems(3)] show ?case by auto
qed auto

text \<open>
  C30. A shutdown ends everything. After \<open>Shutdown\<close>, when no new operation is started, the
  completions that can still happen number at most two for each operation that was outstanding;
  every handler they call is told that the operation was aborted, none of them throws, and \<open>Send\<close>
  reports a bad descriptor. When nothing is outstanding any more, every handler ever given to
  \<open>Send\<close>, \<open>Connect\<close> or \<open>Accept\<close> has been called, exactly as often as it was given, except those
  that were lost with an exception before the shutdown.
\<close>

theorem shutdown_drains:
  assumes "conn_run P no_address no_endpoint c hs qs xs"
    "((\<lambda>c c'. \<exists>qs xs. conn_complete P no_address no_endpoint c qs xs c') ^^ n) (conn_Shutdown c) c'"
  shows "n \<le> 2 * length (conn_pending_ops c)
    \<and> (\<exists>new. conn_calls c' = conn_calls c @ new \<and> list_all aborted_call new)
    \<and> (\<forall>qs' xs' c''. conn_complete P no_address no_endpoint c' qs' xs' c'' \<longrightarrow> xs' = [])
    \<and> conn_Send nd a bs h c' = Inr (conn_invoke (SendResult h (Some bad_descriptor)) c')
    \<and> (conn_pending_ops c' = [] \<longrightarrow> mset hs = mset (called c') + mset (map fst xs))"
proof -
  note d = drain_steps [OF assms(2) shut_down_simps(5)]
  have "conn_run P no_address no_endpoint (conn_Shutdown c) hs qs xs"
    using conn_run_op [OF assms(1) op_shutdown] by simp
  then obtain qs' where "conn_run P no_address no_endpoint c' hs qs' xs"
    using conn_run_completes [OF assms(2) _ shut_down_simps(5)] by blast
  then have "mset hs = mset (called c') + mset (waiting_handlers c') + mset (map fst xs)"
    using conn_run_effect [of P no_address no_endpoint c' hs qs' xs] by (simp add: account_def)
  moreover have "conn_calls (conn_Shutdown c) = conn_calls c" by (simp add: conn_Shutdown_def)
  moreover have "\<forall>qs' xs' c''. conn_complete P no_address no_endpoint c' qs' xs' c'' \<longrightarrow> xs' = []"
    using drain_step d by blast
  ultimately show ?thesis
    using d conn_weight_le [of c] by (auto simp: waiting_handlers_def shut_down_def conn_Send_def)
qed

subsection \<open>An endpoint that is used again\<close>






subsection \<open>The properties on examples\<close>

text \<open>One connection is asked for, and a second one whose socket cannot be made.\<close>

definition ex_connections :: "(nat, nat, nat) Connections" where
  "ex_connections = fst (conn_Connect 0 (Inr ()) 5 9 (Connections_new 1))"

lemma ex_connecting: "conn_run nat_prims 0 0 ex_connections [9, 8] [] [(8, library_error)]"
proof -
  have "conn_Connect 0 (Inr ()) 5 9 (Connections_new 1) = (ex_connections, Inr ())"
    by (simp add: ex_connections_def conn_Connect_def conn_fresh_def Connections_new_def)
  from conn_run_op [OF conn_run_new op_connect [OF this]]
  have run: "conn_run nat_prims 0 0 ex_connections [9] [] []" by simp
  have "conn_Connect 0 (Inl library_error) 6 8 ex_connections = (ex_connections, Inl library_error)"
    by (simp add: conn_Connect_def)
  from conn_run_op [OF run op_connect [OF this]] show ?thesis by simp
qed

theorem connections_account_for_handlers_witness:
  "mset [9, 8] = mset (called ex_connections) + mset (waiting_handlers ex_connections) + {#8#} \<and> waiting_handlers ex_connections = [9]"
  using connections_account_for_handlers [OF ex_connecting]
  by (simp add: ex_connections_def conn_Connect_def conn_fresh_def Connections_new_def waiting_handlers_def conn_start_def)

theorem shutdown_drains_witness:
  "\<exists>c' :: (nat, nat, nat) Connections. conn_calls c' = [ConnectResult 9 (Some operation_aborted) 0] \<and> conn_pending_ops c' = []
     \<and> mset [9, 8] = mset (called c') + {#8#}"
proof -
  define c' where "c' = conn_invoke (ConnectResult 9 (Some operation_aborted) 0) (conn_finish 0 (conn_Shutdown ex_connections))"
  have c: "conn_pending_ops (conn_Shutdown ex_connections) = [ConnConnecting 5 0 9]" "conn_calls (conn_Shutdown ex_connections) = []"
    by (simp_all add: ex_connections_def conn_Connect_def conn_fresh_def Connections_new_def conn_start_def conn_Shutdown_def)
  have "conn_on_connected nat_prims 0 0 9 None (Inr 5) (conn_finish 0 (conn_Shutdown ex_connections)) = (c', Inr ())"
    by (simp add: c'_def conn_on_connected_def shut_down_dead)
  then have "conn_complete nat_prims 0 0 (conn_Shutdown ex_connections) [] (thrown 9 (Inr ())) c'"
    by (intro done_connect [where i = 0]) (simp_all add: c)
  then have step: "((\<lambda>c c'. \<exists>qs xs. conn_complete nat_prims 0 0 c qs xs c') ^^ 1) (conn_Shutdown ex_connections) c'" by auto
  have c': "conn_calls c' = [ConnectResult 9 (Some operation_aborted) 0]" "conn_pending_ops c' = []"
    using c by (simp_all add: c'_def) (simp add: conn_invoke_def conn_finish_def erase_at_def)
  then show ?thesis
    using shutdown_drains [OF ex_connecting step] by (intro exI [of _ c']) simp
qed


end
