(* ===== verification/Message_Filter.thy ===== *)
theory Message_Filter
  imports Messages
begin

section \<open>Ignoring messages that were seen before\<close>

text \<open>
  A routing node and a client both hold an \<^verbatim>\<open>LruCache<std::pair<Address, MessageId>, void>\<close> and start
  \<^verbatim>\<open>MessageReceived\<close> in the same way: read the header, give up when it cannot be read, return when
  the filter knows its value, else add the value. \<^verbatim>\<open>LruCache\<close> is not part of the sources: its
  operations are the fields of \<open>lru_filter\<close>, and they depend on the clock. The locale states what
  the two classes have in common and gives what follows.
\<close>

record ('a, 'q) lru_filter =
  filter_new :: "int \<Rightarrow> 'q"
  filter_Check :: "int \<Rightarrow> 'q \<Rightarrow> 'a FilterType \<Rightarrow> 'q \<times> bool"
  filter_Add :: "int \<Rightarrow> 'q \<Rightarrow> 'a FilterType \<Rightarrow> 'q"

text \<open>\<^verbatim>\<open>std::chrono::minutes(20)\<close> in nanoseconds, the time both classes construct it with\<close>

definition filter_time :: int where
  "filter_time = 20 * 60 * 1000000000"

text \<open>The filter after a message with header \<open>h\<close> was received\<close>

definition filter_after :: "('a, 'q, 'z) lru_filter_scheme \<Rightarrow> int \<Rightarrow> 'q \<Rightarrow> ('a, 's) MessageHeader \<Rightarrow> 'q" where
  "filter_after F now q h =
     (let (q', seen) = filter_Check F now q (FilterValue h) in
      if seen then q' else filter_Add F now q' (FilterValue h))"

text \<open>
  What is relied on: an entry is kept for the time the filter was constructed with, while the clock does
  not pass that time. \<open>keep q k t\<close> says that the filter \<open>q\<close> holds \<open>k\<close> until \<open>t\<close>; at \<open>t\<close> and after it the
  filter may drop \<open>k\<close>, in whatever operation.
\<close>

definition filter_keeps ::
  "('a, 'q, 'z) lru_filter_scheme \<Rightarrow> ('q \<Rightarrow> 'a FilterType \<Rightarrow> int \<Rightarrow> bool) \<Rightarrow> bool" where
  "filter_keeps F keep \<longleftrightarrow>
     (\<forall>now q k. keep (filter_Add F now q k) k (now + filter_time))
     \<and> (\<forall>now q k k' t. keep q k t \<and> now < t \<longrightarrow>
          keep (filter_Add F now q k') k t \<and> keep (fst (filter_Check F now q k')) k t)
     \<and> (\<forall>now q k t. keep q k t \<and> now < t \<longrightarrow> snd (filter_Check F now q k))"

lemma filter_keepsD:
  assumes "filter_keeps F keep"
  shows "keep (filter_Add F now q k) k (now + filter_time)" "keep q k t \<Longrightarrow> now < t \<Longrightarrow> keep (filter_Add F now q k') k t"
    "keep q k t \<Longrightarrow> now < t \<Longrightarrow> keep (fst (filter_Check F now q k')) k t"
    "keep q k t \<Longrightarrow> now < t \<Longrightarrow> snd (filter_Check F now q k)"
  using assms unfolding filter_keeps_def by blast+

lemma filter_keeps_after:
  assumes "filter_keeps F keep" "keep q k t" "now < t"
  shows "keep (filter_after F now q h) k t"
  using filter_keepsD(2,3) [OF assms(1)] assms(2,3) by (simp add: filter_after_def case_prod_beta)

text \<open>Steps that each read the clock at some time, none of them after \<open>later\<close>\<close>

definition steps_until :: "(int \<Rightarrow> 'w \<Rightarrow> 'w \<Rightarrow> bool) \<Rightarrow> int \<Rightarrow> 'w \<Rightarrow> 'w \<Rightarrow> bool" where
  "steps_until step later = (\<lambda>w w'. \<exists>now. now \<le> later \<and> step now w w')\<^sup>*\<^sup>*"

lemma steps_until_refl: "steps_until step later w w"
  by (simp add: steps_until_def)

lemma steps_until_step: "steps_until step later w w' \<Longrightarrow> step now w' w'' \<Longrightarrow> now \<le> later \<Longrightarrow> steps_until step later w w''"
  unfolding steps_until_def by (rule rtranclp.rtrancl_into_rtrancl) auto

text \<open>
  The contract: receiving a message leaves \<open>filter_after\<close>, one that was seen changes the filter alone,
  and every other step leaves the filter or receives a message.
\<close>

locale filtering_receiver =
  fixes F :: "('a, 'q, 'z) lru_filter_scheme"
    and P :: "('a, 'f, 'k, 's, 'n, 't, 'x) prims"
    and filter_of :: "'w \<Rightarrow> 'q"
    and set_filter :: "'q \<Rightarrow> 'w \<Rightarrow> 'w"
    and receive :: "int \<Rightarrow> SerialisedMessage \<Rightarrow> 'w \<Rightarrow> 'w \<times> unit result"
    and step :: "int \<Rightarrow> 'w \<Rightarrow> 'w \<Rightarrow> bool"
  assumes receive_filter: "parse_header P msg = Some (h, tag, stream) \<Longrightarrow>
      filter_of (fst (receive now msg w)) = filter_after F now (filter_of w) h"
    and receive_seen: "parse_header P msg = Some (h, tag, stream) \<Longrightarrow>
      filter_Check F now (filter_of w) (FilterValue h) = (q, True) \<Longrightarrow> receive now msg w = (set_filter q w, Inr ())"
    and step_filter: "step now w w' \<Longrightarrow> filter_of w' = filter_of w
      \<or> (\<exists>h :: ('a, 's) MessageHeader. filter_of w' = filter_after F now (filter_of w) h)"
begin

lemma steps_keep:
  assumes "steps_until step later w w'" "filter_keeps F keep" "keep (filter_of w) k t" "later < t"
  shows "keep (filter_of w') k t"
  using assms unfolding steps_until_def
proof (induction rule: rtranclp_induct)
  case (step w1 w2)
  then obtain now where now: "now \<le> later" "step now w1 w2" by blast
  then have "now < t" using step.prems by simp
  then show ?case using step_filter [OF now(2)] step.IH step.prems by (auto intro: filter_keeps_after)
qed

lemma handled_once:
  assumes "filter_keeps F keep" "parse_header P msg = Some (h, tag, stream)"
    "\<not> snd (filter_Check F now (filter_of w) (FilterValue h))" "steps_until step later (fst (receive now msg w)) w'"
    "parse_header P msg' = Some (h', tag', stream')" "FilterValue h' = FilterValue h" "later < now + filter_time"
  shows "\<exists>q. receive later msg' w' = (set_filter q w', Inr ())"
proof -
  have "keep (filter_of (fst (receive now msg w))) (FilterValue h) (now + filter_time)"
    using receive_filter [OF assms(2), of now w] filter_keepsD(1) [OF assms(1)] assms(3)
    by (auto simp: filter_after_def split: prod.splits)
  from steps_keep [OF assms(4,1) this assms(7)]
  have "snd (filter_Check F later (filter_of w') (FilterValue h'))"
    using filter_keepsD(4) [OF assms(1)] assms(6,7) by metis
  then have "filter_Check F later (filter_of w') (FilterValue h')
      = (fst (filter_Check F later (filter_of w') (FilterValue h')), True)"
    by (metis prod.collapse)
  from receive_seen [OF assms(5) this] show ?thesis by blast
qed

end

subsection \<open>A filter that is a list\<close>

text \<open>
  Each key it holds, with the time until which it is held; a key that is added drives out those whose
  time is over, and an entry whose time is over is not found.
\<close>

type_synonym list_filter = "(nat FilterType \<times> int) list"

definition list_lru :: "(nat, list_filter) lru_filter" where
  "list_lru = \<lparr>filter_new = (\<lambda>d. []), filter_Check = (\<lambda>now q k. (q, list_ex (\<lambda>(k', t). k' = k \<and> now < t) q)),
     filter_Add = (\<lambda>now q k. (k, now + filter_time) # filter (\<lambda>(k', t). now < t) q)\<rparr>"

definition list_keep :: "list_filter \<Rightarrow> nat FilterType \<Rightarrow> int \<Rightarrow> bool" where
  "list_keep q k t = list_ex (\<lambda>(k', t'). k' = k \<and> t \<le> t') q"

lemma list_keeps:
  assumes "filter_Check F = filter_Check list_lru" "filter_Add F = filter_Add list_lru"
  shows "filter_keeps F list_keep"
  unfolding filter_keeps_def assms
proof (intro conjI allI impI; (elim conjE)?)
  fix now :: int and q :: list_filter and k k' :: "nat FilterType" and t :: int
  show "list_keep (filter_Add list_lru now q k) k (now + filter_time)" by (simp add: list_lru_def list_keep_def)
  assume "list_keep q k t" "now < t"
  then obtain t' where t': "(k, t') \<in> set q" "t \<le> t'" "now < t'" by (auto simp: list_keep_def list_ex_iff)
  then show "list_keep (filter_Add list_lru now q k') k t" by (cases k) (auto simp: list_lru_def list_keep_def list_ex_iff)
  show "list_keep (fst (filter_Check list_lru now q k')) k t" using t' by (cases k) (auto simp: list_lru_def list_keep_def list_ex_iff)
  show "snd (filter_Check list_lru now q k)" using t' by (cases k) (auto simp: list_lru_def list_ex_iff)
qed

end
