(* ===== verification/Routing_Node.thy ===== *)
theory Routing_Node
  imports Connection_Manager Sentinel Message_Filter
begin

section \<open>The routing node\<close>

text \<open>
  Models \<^verbatim>\<open>routing_node.h\<close>. The class template adds to a connection manager the handling of
  messages and the requests of the node itself. An operation gives the state it leaves and how
  it ended: a header that is refused, or a body that cannot be read, is an exception that
  leaves what was already changed. The bodies that \<^verbatim>\<open>asio::post\<close> defers are the operations here,
  and each runs to its end. The \<^verbatim>\<open>LruCache\<close>s, the signature and \<^verbatim>\<open>Child\<close> are not part of the sources:
  the first two are fields of \<open>node_lib\<close>, the calls of the member functions of \<^verbatim>\<open>Child\<close> are recorded,
  latest first. The caches depend on the clock, which is their first argument. The completion
  tokens of \<open>node_Get\<close>, \<open>node_Put\<close> and \<open>node_Post\<close> are left out: the code never calls them.
\<close>

subsection \<open>An order on endpoints\<close>

text \<open>asio orders a version 4 address before a version 6 one, and two of one version by value.\<close>

instantiation ip_address :: (linorder, linorder) linorder
begin

fun less_eq_ip_address :: "('a, 'b) ip_address \<Rightarrow> ('a, 'b) ip_address \<Rightarrow> bool" where
  "less_eq_ip_address (V4 x) (V4 y) = (x \<le> y)"
| "less_eq_ip_address (V4 x) (V6 y) = True"
| "less_eq_ip_address (V6 x) (V4 y) = False"
| "less_eq_ip_address (V6 x) (V6 y) = (x \<le> y)"

definition less_ip_address :: "('a, 'b) ip_address \<Rightarrow> ('a, 'b) ip_address \<Rightarrow> bool" where
  "less_ip_address x y \<longleftrightarrow> x \<le> y \<and> \<not> y \<le> x"

instance
proof
  fix x y z :: "('a, 'b) ip_address"
  show "x < y \<longleftrightarrow> x \<le> y \<and> \<not> y \<le> x" by (rule less_ip_address_def)
  show "x \<le> x" by (cases x) simp_all
  show "x \<le> y \<Longrightarrow> y \<le> z \<Longrightarrow> x \<le> z" by (cases x; cases y; cases z) auto
  show "x \<le> y \<Longrightarrow> y \<le> x \<Longrightarrow> x = y" by (cases x; cases y) auto
  show "x \<le> y \<or> y \<le> x" by (cases x; cases y) auto
qed

end

subsection \<open>The state\<close>

text \<open>\<open>'p\<close> is \<^verbatim>\<open>asymm::PrivateKey\<close>, \<open>'q\<close> the filter and \<open>'c\<close> the cache.\<close>

record ('a, 'f, 'p) Pmid =
  pmid_public :: 'f
  pmid_name :: 'a
  pmid_private_key :: 'p

record ('a, 's, 'n, 'e, 'p, 'q, 'c) node_lib = "('a, 'q) lru_filter" +
  cache_new :: "int \<Rightarrow> 'c"
  cache_Add :: "int \<Rightarrow> 'c \<Rightarrow> 'a \<Rightarrow> SerialisedMessage \<Rightarrow> 'c"
  cache_Get :: "int \<Rightarrow> 'c \<Rightarrow> 'a \<Rightarrow> 'c \<times> SerialisedMessage option"
  Sign :: "byte list \<Rightarrow> 'p \<Rightarrow> 's"
  name_of :: "'n \<Rightarrow> 'a"
  no_endpoint :: 'e

datatype node_handler = HandleConnectionAdded | IgnoreResult | WarnOnError

datatype ('a, 'n, 'x) child_call =
    HandleGet "'a SourceAddress" Authority 'n
  | HandleGetDataResponse "('n, 'x) GetDataResponse"

record ('a, 'f, 's, 'n, 'x, 'e, 'p, 'q, 'c) RoutingNode =
  our_fob :: "('a, 'f, 'p) Pmid"
  node_message_id :: MessageId
  bootstrap_node :: "'a option"
  connection_manager :: "('a, 'f, 'e, node_handler) ConnectionManager"
  node_filter :: 'q
  node_sentinel :: "('a, 's) Sentinel"
  node_cache :: 'c
  connected_nodes :: "'a list"
  child_calls :: "('a, 'n, 'x) child_call list"

definition minutes60 :: int where
  "minutes60 = 60 * 60 * 1000000000"

definition RoutingNode_new ::
  "('a, 's, 'n, 'e, 'p, 'q, 'c) node_lib \<Rightarrow> ('a, 'f, 'k) lib \<Rightarrow> ('a, 'f, 'k, 's, 'n, 't, 'x) prims \<Rightarrow>
   int \<Rightarrow> ('a, 'f, 'p) Pmid \<Rightarrow> MessageId \<Rightarrow> ('a, 'f, 's, 'n, 'x, 'e, 'p, 'q, 'c) RoutingNode" where
  "RoutingNode_new NL L P now fob random =
     \<lparr>our_fob = fob, node_message_id = random, bootstrap_node = None,
      connection_manager = SetOnConnectionAdded HandleConnectionAdded (ConnectionManager_new L (pmid_public fob)),
      node_filter = filter_new NL filter_time, node_sentinel = Sentinel_new,
      node_cache = cache_Add NL now (cache_new NL minutes60) (pmid_name fob) (enc (p_fob P) (pmid_public fob)),
      connected_nodes = [], child_calls = []\<rparr>"

definition OurId :: "('a, 'f, 's, 'n, 'x, 'e, 'p, 'q, 'c) RoutingNode \<Rightarrow> 'a" where
  "OurId rn = pmid_name (our_fob rn)"

definition NextEndpointPair :: "('a, 's, 'n, 'e, 'p, 'q, 'c) node_lib \<Rightarrow> 'e EndpointPair" where
  "NextEndpointPair NL = \<lparr>ep_local = no_endpoint NL, ep_external = no_endpoint NL\<rparr>"

definition OurSourceAddress :: "('a, 'f, 's, 'n, 'x, 'e, 'p, 'q, 'c) RoutingNode \<Rightarrow> 'a SourceAddress" where
  "OurSourceAddress rn =
     (case bootstrap_node rn of
        Some b \<Rightarrow> SourceAddress_new b None (Some (OurId rn))
      | None \<Rightarrow> SourceAddress_new (OurId rn) None None)"

definition OurSourceAddress_group :: "'a \<Rightarrow> ('a, 'f, 's, 'n, 'x, 'e, 'p, 'q, 'c) RoutingNode \<Rightarrow> 'a SourceAddress" where
  "OurSourceAddress_group address rn = SourceAddress_new (OurId rn) (Some address) None"

definition next_message_id ::
  "('a, 'f, 's, 'n, 'x, 'e, 'p, 'q, 'c) RoutingNode \<Rightarrow> ('a, 'f, 's, 'n, 'x, 'e, 'p, 'q, 'c) RoutingNode" where
  "next_message_id rn = rn\<lparr>node_message_id := node_message_id rn + 1\<rparr>"

definition on_manager ::
  "(('a, 'f, 'e, node_handler) ConnectionManager \<Rightarrow> ('a, 'f, 'e, node_handler) ConnectionManager) \<Rightarrow>
   ('a, 'f, 's, 'n, 'x, 'e, 'p, 'q, 'c) RoutingNode \<Rightarrow> ('a, 'f, 's, 'n, 'x, 'e, 'p, 'q, 'c) RoutingNode" where
  "on_manager f rn = rn\<lparr>connection_manager := f (connection_manager rn)\<rparr>"

text \<open>The loop that sends one message to every target\<close>

fun send_to ::
  "('a, 'f, 'k) lib \<Rightarrow> 'a list \<Rightarrow> SerialisedMessage \<Rightarrow> node_handler \<Rightarrow>
   ('a, 'f, 's, 'n, 'x, 'e, 'p, 'q, 'c) RoutingNode \<Rightarrow>
   ('a, 'f, 's, 'n, 'x, 'e, 'p, 'q, 'c) RoutingNode \<times> unit result" where
  "send_to L [] msg h rn = (rn, Inr ())"
| "send_to L (target # targets) msg h rn =
     (case PeerNode_Send L target msg h (connection_manager rn) of
        Inl e \<Rightarrow> (rn, Inl e)
      | Inr cm \<Rightarrow> send_to L targets msg h (rn\<lparr>connection_manager := cm\<rparr>))"

subsection \<open>Operations of the node itself\<close>

definition AddContact ::
  "'e::linorder \<Rightarrow> ('a, 'f, 's, 'n, 'x, 'e, 'p, 'q, 'c) RoutingNode \<Rightarrow> ('a, 'f, 's, 'n, 'x, 'e, 'p, 'q, 'c) RoutingNode" where
  "AddContact endpoint = on_manager (cm_AddNode None (EndpointPair_both endpoint))"

definition node_StartAccepting ::
  "16 word \<Rightarrow> ('a, 'f, 's, 'n, 'x, 'e, 'p, 'q, 'c) RoutingNode \<Rightarrow> ('a, 'f, 's, 'n, 'x, 'e, 'p, 'q, 'c) RoutingNode" where
  "node_StartAccepting port = on_manager (StartAccepting port)"

definition node_Shutdown ::
  "('a, 'f, 's, 'n, 'x, 'e, 'p, 'q, 'c) RoutingNode \<Rightarrow> ('a, 'f, 's, 'n, 'x, 'e, 'p, 'q, 'c) RoutingNode" where
  "node_Shutdown = on_manager Shutdown"

definition node_Get ::
  "('a, 's, 'n, 'e, 'p, 'q, 'c) node_lib \<Rightarrow> ('a, 'f, 'k) lib \<Rightarrow> ('a, 'f, 'k, 's, 'n, 't, 'x) prims \<Rightarrow> 'n \<Rightarrow>
   ('a, 'f, 's, 'n, 'x, 'e, 'p, 'q, 'c) RoutingNode \<Rightarrow>
   ('a, 'f, 's, 'n, 'x, 'e, 'p, 'q, 'c) RoutingNode \<times> unit result" where
  "node_Get NL L P name_and_type_id rn =
     (let rn = next_message_id rn; name = name_of NL name_and_type_id in
      case MessageHeader_unsigned L (name, None) (OurSourceAddress rn) (node_message_id rn) node of
        Inl e \<Rightarrow> (rn, Inl e)
      | Inr our_header \<Rightarrow>
          send_to L (GetTarget name (connection_manager rn))
            (wire P (GetData_serialize P) our_header (MessageToTag class_GetData)
               (GetData_new name_and_type_id (OurSourceAddress rn)))
            IgnoreResult rn)"

text \<open>\<open>type_id\<close> and \<open>data\<close> are \<^verbatim>\<open>DataType::Tag::kValue\<close> and \<^verbatim>\<open>data.serialise()\<close>.\<close>

definition node_Put ::
  "('a, 'f, 'k) lib \<Rightarrow> ('a, 'f, 'k, 's, 'n, 't, 'x) prims \<Rightarrow> 'a \<Rightarrow> 't \<Rightarrow> byte list \<Rightarrow>
   ('a, 'f, 's, 'n, 'x, 'e, 'p, 'q, 'c) RoutingNode \<Rightarrow>
   ('a, 'f, 's, 'n, 'x, 'e, 'p, 'q, 'c) RoutingNode \<times> unit result" where
  "node_Put L P to type_id data rn =
     (let rn = next_message_id rn in
      case MessageHeader_unsigned L (to, None) (OurSourceAddress rn) (node_message_id rn) client of
        Inl e \<Rightarrow> (rn, Inl e)
      | Inr our_header \<Rightarrow>
          send_to L (GetTarget to (connection_manager rn))
            (wire P (PutData_serialize P) our_header (MessageToTag class_PutData)
               (PutData_new type_id data))
            IgnoreResult rn)"

definition node_Post ::
  "('a, 'f, 'k) lib \<Rightarrow> ('a, 'f, 'k, 's, 'n, 't, 'x) prims \<Rightarrow> 'a \<Rightarrow> 't \<Rightarrow> byte list \<Rightarrow>
   ('a, 'f, 's, 'n, 'x, 'e, 'p, 'q, 'c) RoutingNode \<Rightarrow>
   ('a, 'f, 's, 'n, 'x, 'e, 'p, 'q, 'c) RoutingNode \<times> unit result" where
  "node_Post L P to type_id functor rn =
     (let rn = next_message_id rn in
      case MessageHeader_unsigned L (to, None) (OurSourceAddress rn) (node_message_id rn) node of
        Inl e \<Rightarrow> (rn, Inl e)
      | Inr our_header \<Rightarrow>
          send_to L (GetTarget to (connection_manager rn))
            (wire P (PutData_serialize P) our_header (MessageToTag class_Post)
               (PutData_new type_id functor))
            IgnoreResult rn)"

definition ConnectToCloseGroup ::
  "('a, 'f, 'k) lib \<Rightarrow> ('a, 'f, 'k, 's, 'n, 't, 'x) prims \<Rightarrow>
   ('a, 'f, 's, 'n, 'x, 'e, 'p, 'q, 'c) RoutingNode \<Rightarrow>
   ('a, 'f, 's, 'n, 'x, 'e, 'p, 'q, 'c) RoutingNode \<times> unit result" where
  "ConnectToCloseGroup L P rn =
     (let rn = next_message_id rn; message = FindGroup_new (OurId rn) (OurId rn) in
      case MessageHeader_unsigned L (OurId rn, None) (OurSourceAddress rn) (node_message_id rn) node of
        Inl e \<Rightarrow> (rn, Inl e)
      | Inr header \<Rightarrow>
          (case bootstrap_node rn of
             Some b \<Rightarrow>
               send_to L [b] (wire P (FindGroup_serialize P) header (MessageToTag class_FindGroup) message) WarnOnError rn
           | None \<Rightarrow>
               send_to L (GetTarget (OurId rn) (connection_manager rn))
                 (wire P (FindGroup_serialize P) header (MessageToTag class_Connect) message) WarnOnError rn))"

subsection \<open>Handlers of messages\<close>

definition OurAuthority ::
  "('a, 'f, 'k) lib \<Rightarrow> 'a \<Rightarrow> ('a, 's) MessageHeader \<Rightarrow> ('a, 'f, 's, 'n, 'x, 'e, 'p, 'q, 'c) RoutingNode \<Rightarrow> Authority result" where
  "OurAuthority L element header rn =
     (let in_range = (\<lambda>a. AddressInCloseGroupRange L a (connection_manager rn));
          destination = fst (h_destination header)
      in if FromGroup header = None \<and> in_range (FromNode header) \<and> destination \<noteq> element
         then Inr client_manager
         else if in_range element \<and> destination = element
         then Inr nae_manager
         else if FromGroup header \<noteq> None \<and> in_range destination \<and> destination \<noteq> OurId rn
         then Inr node_manager
         else if (case FromGroup header of None \<Rightarrow> False | Some g \<Rightarrow> in_range g) \<and> destination = OurId rn
         then Inr managed_node
         else Inl invalid_argument)"

definition HandleConnect ::
  "('a, 's, 'n, ('v4::linorder, 'v6::linorder) endpoint, 'p, 'q, 'c) node_lib \<Rightarrow> ('v4, 'v6) asio_ip \<Rightarrow>
   ('a, 'f, 'k) lib \<Rightarrow> ('a, 'f, 'k, 's, 'n, 't, 'x) prims \<Rightarrow>
   ('a, 'f, ('v4, 'v6) endpoint) Connect \<Rightarrow> ('a, 's) MessageHeader \<Rightarrow>
   ('a, 'f, 's, 'n, 'x, ('v4, 'v6) endpoint, 'p, 'q, 'c) RoutingNode \<Rightarrow>
   ('a, 'f, 's, 'n, 'x, ('v4, 'v6) endpoint, 'p, 'q, 'c) RoutingNode \<times> unit result" where
  "HandleConnect NL A L P connect original_header rn =
     (if \<not> IsManaged L (c_requester_id connect) (connection_manager rn) then (rn, Inr ())
      else
        let targets = GetTarget (c_requester_id connect) (connection_manager rn);
            respond = ConnectResponse_new (c_requester_endpoints connect) (NextEndpointPair NL)
                        (c_requester_id connect) (OurId rn) (pmid_public (our_fob rn))
        in (case bindR (cpp_assert (NDEBUG L) (c_receiver_id connect = OurId rn))
               (\<lambda>_. MessageHeader_signed L (ReturnDestinationAddress original_header) (OurSourceAddress rn)
                  (h_message_id original_header) node
                  (Sign NL (enc (ConnectResponse_serialize A P) respond) (pmid_private_key (our_fob rn)))) of
              Inl e \<Rightarrow> (rn, Inl e)
            | Inr header \<Rightarrow>
                (case send_to L targets
                   (wire P (ConnectResponse_serialize A P) header (MessageToTag class_ConnectResponse) respond)
                   IgnoreResult rn of
                   (rn', Inl e) \<Rightarrow> (rn', Inl e)
                 | (rn', Inr _) \<Rightarrow>
                     (on_manager (cm_AddNode (Some (NodeInfo_new (c_requester_id connect) (c_requester_fob connect) True))
                        (c_requester_endpoints connect)) rn', Inr ()))))"

definition HandleConnectResponse ::
  "('a, 'f, 'k) lib \<Rightarrow> ('a, 'f, 'e::linorder) ConnectResponse \<Rightarrow>
   ('a, 'f, 's, 'n, 'x, 'e, 'p, 'q, 'c) RoutingNode \<Rightarrow> ('a, 'f, 's, 'n, 'x, 'e, 'p, 'q, 'c) RoutingNode" where
  "HandleConnectResponse L connect_response rn =
     (if \<not> IsManaged L (cr_requester_id connect_response) (connection_manager rn) then rn
      else on_manager (cm_AddNode (Some (NodeInfo_new (cr_requester_id connect_response)
             (cr_receiver_fob connect_response) True))
             (cr_receiver_endpoints connect_response)) rn)"

definition HandleFindGroup ::
  "('a, 's, 'n, 'e, 'p, 'q, 'c) node_lib \<Rightarrow> ('a, 'f, 'k) lib \<Rightarrow> ('a, 'f, 'k, 's, 'n, 't, 'x) prims \<Rightarrow>
   'a FindGroup \<Rightarrow> ('a, 's) MessageHeader \<Rightarrow> ('a, 'f, 's, 'n, 'x, 'e, 'p, 'q, 'c) RoutingNode \<Rightarrow>
   ('a, 'f, 's, 'n, 'x, 'e, 'p, 'q, 'c) RoutingNode \<times> unit result" where
  "HandleFindGroup NL L P find_group original_header rn =
     (let grp = OurCloseGroup (connection_manager rn) @ [pmid_public (our_fob rn)];
          response = FindGroupResponse_new (fg_target_id find_group) grp
      in case MessageHeader_signed L (ReturnDestinationAddress original_header)
           (OurSourceAddress_group (fg_target_id find_group) rn) (h_message_id original_header) nae_manager
           (Sign NL (FindGroupResponse_save P response) (pmid_private_key (our_fob rn))) of
           Inl e \<Rightarrow> (rn, Inl e)
         | Inr header \<Rightarrow>
             send_to L (GetTarget (FromNode original_header) (connection_manager rn))
               (wire P \<lparr>enc = FindGroupResponse_save P, dec = FindGroupResponse_load P\<rparr> header
                  (MessageToTag class_FindGroupResponse) response)
               IgnoreResult rn)"

text \<open>The loop of the handler, one contact after the other\<close>

fun HandleFindGroupResponse ::
  "('a, 's, 'n, ('v4, 'v6) endpoint, 'p, 'q, 'c) node_lib \<Rightarrow> ('v4, 'v6) asio_ip \<Rightarrow>
   ('a, 'f, 'k) lib \<Rightarrow> ('a, 'f, 'k, 's, 'n, 't, 'x) prims \<Rightarrow> 'f list \<Rightarrow>
   ('a, 'f, 's, 'n, 'x, ('v4, 'v6) endpoint, 'p, 'q, 'c) RoutingNode \<Rightarrow>
   ('a, 'f, 's, 'n, 'x, ('v4, 'v6) endpoint, 'p, 'q, 'c) RoutingNode \<times> unit result" where
  "HandleFindGroupResponse NL A L P [] rn = (rn, Inr ())"
| "HandleFindGroupResponse NL A L P (node_pmid # pmids) rn =
     (let node_id = fob_name L node_pmid in
      if \<not> IsManaged L node_id (connection_manager rn) then HandleFindGroupResponse NL A L P pmids rn
      else
        let rn = next_message_id rn;
            message = Connect_new (NextEndpointPair NL) (OurId rn) node_id (pmid_public (our_fob rn))
        in (case MessageHeader_unsigned L (node_id, None) (OurSourceAddress rn) (node_message_id rn) nae_manager of
              Inl e \<Rightarrow> (rn, Inl e)
            | Inr header \<Rightarrow>
                (case send_to L (GetTarget node_id (connection_manager rn))
                   (wire P (Connect_serialize A P) header (MessageToTag class_Connect) message) IgnoreResult rn of
                   (rn', Inl e) \<Rightarrow> (rn', Inl e)
                 | (rn', Inr _) \<Rightarrow> HandleFindGroupResponse NL A L P pmids rn')))"

text \<open>The result of \<^verbatim>\<open>HandleGet\<close> is looked at and nothing is done with it.\<close>

definition HandleGetData ::
  "('a, 's, 'n, 'e, 'p, 'q, 'c) node_lib \<Rightarrow> ('a, 'f, 'k) lib \<Rightarrow> ('n, 'a) GetData \<Rightarrow> ('a, 's) MessageHeader \<Rightarrow>
   ('a, 'f, 's, 'n, 'x, 'e, 'p, 'q, 'c) RoutingNode \<Rightarrow>
   ('a, 'f, 's, 'n, 'x, 'e, 'p, 'q, 'c) RoutingNode \<times> unit result" where
  "HandleGetData NL L get_data header rn =
     (case OurAuthority L (name_of NL (gd_name_and_type_id get_data)) header rn of
        Inl e \<Rightarrow> (rn, Inl e)
      | Inr authority \<Rightarrow>
          (rn\<lparr>child_calls := HandleGet (h_source header) authority (gd_name_and_type_id get_data) # child_calls rn\<rparr>,
           Inr ()))"

definition node_HandleGetDataResponse ::
  "('n, 'x) GetDataResponse \<Rightarrow> ('a, 'f, 's, 'n, 'x, 'e, 'p, 'q, 'c) RoutingNode \<Rightarrow>
   ('a, 'f, 's, 'n, 'x, 'e, 'p, 'q, 'c) RoutingNode" where
  "node_HandleGetDataResponse get_data_response rn =
     rn\<lparr>child_calls := HandleGetDataResponse get_data_response # child_calls rn\<rparr>"

definition HandlePutData :: "'t PutData \<Rightarrow> ('a, 's) MessageHeader \<Rightarrow> 'r \<Rightarrow> 'r" where
  "HandlePutData put_data original_header rn = rn"

definition HandlePutDataResponse :: "('t, 'x) PutDataResponse \<Rightarrow> ('a, 's) MessageHeader \<Rightarrow> 'r \<Rightarrow> 'r" where
  "HandlePutDataResponse put_data_response original_header rn = rn"

definition HandlePost :: "'n Post \<Rightarrow> ('a, 's) MessageHeader \<Rightarrow> 'r \<Rightarrow> 'r" where
  "HandlePost post original_header rn = rn"

subsection \<open>Receiving a message\<close>

text \<open>
  The body is read from where the header ended. What the caches do with it comes first, and
  leaves the stream behind the body it has read; it ends with the rest of the stream.
\<close>

definition parsed :: "('m \<times> byte list) option \<Rightarrow> 'r \<Rightarrow> ('m \<Rightarrow> 'r \<times> unit result) \<Rightarrow> 'r \<times> unit result" where
  "parsed m rn f = (case m of None \<Rightarrow> (rn, Inl library_error) | Some (x, _) \<Rightarrow> f x)"

definition use_cache ::
  "('a, 's, 'n, 'e, 'p, 'q, 'c) node_lib \<Rightarrow> ('a, 'f, 'k, 's, 'n, 't, 'x) prims \<Rightarrow> int \<Rightarrow> MessageTypeTag option \<Rightarrow>
   byte list \<Rightarrow> ('a, 'f, 's, 'n, 'x, 'e, 'p, 'q, 'c) RoutingNode \<Rightarrow>
   ('a, 'f, 's, 'n, 'x, 'e, 'p, 'q, 'c) RoutingNode \<times> byte list result" where
  "use_cache NL P now tag stream rn =
     (if tag = Some tag_GetDataResponse then
        (case dec (GetDataResponse_serialize P) stream of
           None \<Rightarrow> (rn, Inl library_error)
         | Some (data, rest) \<Rightarrow>
             ((case gdr_data data of
                 None \<Rightarrow> rn
               | Some d \<Rightarrow> rn\<lparr>node_cache := cache_Add NL now (node_cache rn) (name_of NL (gdr_name_and_type_id data)) d\<rparr>),
              Inr rest))
      else if tag = Some tag_GetData then
        (case dec (GetData_serialize P) stream of
           None \<Rightarrow> (rn, Inl library_error)
         | Some (data, rest) \<Rightarrow>
             (rn\<lparr>node_cache := fst (cache_Get NL now (node_cache rn) (name_of NL (gd_name_and_type_id data)))\<rparr>, Inr rest))
      else (rn, Inr stream))"

definition dispatch ::
  "('a, 's, 'n, ('v4::linorder, 'v6::linorder) endpoint, 'p, 'q, 'c) node_lib \<Rightarrow> ('v4, 'v6) asio_ip \<Rightarrow>
   ('a, 'f, 'k) lib \<Rightarrow> ('a, 'f, 'k, 's, 'n, 't, 'x) prims \<Rightarrow>
   MessageTypeTag option \<Rightarrow> ('a, 's) MessageHeader \<Rightarrow> byte list \<Rightarrow>
   ('a, 'f, 's, 'n, 'x, ('v4, 'v6) endpoint, 'p, 'q, 'c) RoutingNode \<Rightarrow>
   ('a, 'f, 's, 'n, 'x, ('v4, 'v6) endpoint, 'p, 'q, 'c) RoutingNode \<times> unit result" where
  "dispatch NL A L P tag header stream rn =
     (case tag of
        Some tag_Connect \<Rightarrow>
          parsed (dec (Connect_serialize A P) stream) rn (\<lambda>m. HandleConnect NL A L P m header rn)
      | Some tag_ConnectResponse \<Rightarrow>
          parsed (dec (ConnectResponse_serialize A P) stream) rn (\<lambda>m. (HandleConnectResponse L m rn, Inr ()))
      | Some tag_FindGroup \<Rightarrow>
          parsed (dec (FindGroup_serialize P) stream) rn (\<lambda>m. HandleFindGroup NL L P m header rn)
      | Some tag_FindGroupResponse \<Rightarrow>
          parsed (FindGroupResponse_load P stream) rn (\<lambda>m. HandleFindGroupResponse NL A L P (fgr_group m) rn)
      | Some tag_GetData \<Rightarrow>
          parsed (dec (GetData_serialize P) stream) rn (\<lambda>m. HandleGetData NL L m header rn)
      | Some tag_PutData \<Rightarrow>
          parsed (dec (PutData_serialize P) stream) rn (\<lambda>m. (HandlePutData m header rn, Inr ()))
      | Some tag_Post \<Rightarrow>
          parsed (dec (Post_serialize P) stream) rn (\<lambda>m. (HandlePost m header rn, Inr ()))
      | _ \<Rightarrow> (rn, Inr ()))"

definition MessageReceived ::
  "('a, 's, 'n, ('v4::linorder, 'v6::linorder) endpoint, 'p, 'q, 'c) node_lib \<Rightarrow> ('v4, 'v6) asio_ip \<Rightarrow>
   ('a, 'f, 'k) lib \<Rightarrow> ('a, 'f, 'k, 's, 'n, 't, 'x) prims \<Rightarrow> int \<Rightarrow> SerialisedMessage \<Rightarrow>
   ('a, 'f, 's, 'n, 'x, ('v4, 'v6) endpoint, 'p, 'q, 'c) RoutingNode \<Rightarrow>
   ('a, 'f, 's, 'n, 'x, ('v4, 'v6) endpoint, 'p, 'q, 'c) RoutingNode \<times> unit result" where
  "MessageReceived NL A L P now serialised_message rn =
     (case parse_header P serialised_message of
        None \<Rightarrow> (rn, Inr ())
      | Some (header, tag, stream) \<Rightarrow>
          (let (q, seen) = filter_Check NL now (node_filter rn) (FilterValue header) in
           if seen then (rn\<lparr>node_filter := q\<rparr>, Inr ())
           else
             (case use_cache NL P now tag stream
                     (rn\<lparr>node_filter := filter_Add NL now q (FilterValue header)\<rparr>) of
                (rn1, Inl e) \<Rightarrow> (rn1, Inl e)
              | (rn1, Inr rest) \<Rightarrow>
                  (case send_to L (GetTarget (fst (h_destination header)) (connection_manager rn1))
                     serialised_message WarnOnError rn1 of
                     (rn2, Inl e) \<Rightarrow> (rn2, Inl e)
                   | (rn2, Inr _) \<Rightarrow>
                       if RelayedMessage header
                          \<and> list_ex (\<lambda>n. Some n = ReplyToAddress header) (connected_nodes rn2)
                       then (rn2, Inr ())
                       else if \<not> AddressInCloseGroupRange L (fst (h_destination header)) (connection_manager rn2)
                       then (rn2, Inr ())
                       else dispatch NL A L P tag header rest rn2))))"

subsection \<open>Runs\<close>

text \<open>
  The operations of a node, the completion of what its connection manager has started, and the
  return of a receive handler, each at the time \<open>now\<close>. \<open>MessageReceived\<close> may be called at any time with
  any bytes.
\<close>

inductive node_step ::
  "('a, 's, 'n, ('v4::linorder, 'v6::linorder) endpoint, 'p, 'q, 'c) node_lib \<Rightarrow> ('v4, 'v6) asio_ip \<Rightarrow>
   ('a, 'f, 'k) lib \<Rightarrow> ('a, 'f, 'k, 's, 'n, 't, 'x) prims \<Rightarrow> int \<Rightarrow>
   ('a, 'f, 's, 'n, 'x, ('v4, 'v6) endpoint, 'p, 'q, 'c) RoutingNode \<Rightarrow>
   ('a, 'f, 's, 'n, 'x, ('v4, 'v6) endpoint, 'p, 'q, 'c) RoutingNode \<Rightarrow> bool"
  for NL A L P now where
  step_get: "node_step NL A L P now rn (fst (node_Get NL L P n rn))"
| step_put: "node_step NL A L P now rn (fst (node_Put L P to ty data rn))"
| step_post: "node_step NL A L P now rn (fst (node_Post L P to ty functor rn))"
| step_join: "node_step NL A L P now rn (fst (ConnectToCloseGroup L P rn))"
| step_contact: "node_step NL A L P now rn (AddContact e rn)"
| step_accept: "node_step NL A L P now rn (node_StartAccepting port rn)"
| step_shutdown: "node_step NL A L P now rn (node_Shutdown rn)"
| step_message: "node_step NL A L P now rn (fst (MessageReceived NL A L P now msg rn))"
| step_response: "node_step NL A L P now rn (node_HandleGetDataResponse response rn)"
| step_completion: "cm_running (connection_manager rn) = None \<Longrightarrow>
    cm_complete L P (connection_manager rn) cm \<Longrightarrow> node_step NL A L P now rn (rn\<lparr>connection_manager := cm\<rparr>)"
| step_return: "cm_running (connection_manager rn) = Some (h, g) \<Longrightarrow>
    node_step NL A L P now rn (rn\<lparr>connection_manager := received_end h g (connection_manager rn)\<rparr>)"

inductive node_run ::
  "('a, 's, 'n, ('v4::linorder, 'v6::linorder) endpoint, 'p, 'q, 'c) node_lib \<Rightarrow> ('v4, 'v6) asio_ip \<Rightarrow>
   ('a, 'f, 'k) lib \<Rightarrow> ('a, 'f, 'k, 's, 'n, 't, 'x) prims \<Rightarrow>
   ('a, 'f, 's, 'n, 'x, ('v4, 'v6) endpoint, 'p, 'q, 'c) RoutingNode \<Rightarrow> bool"
  for NL A L P where
  node_run_new: "node_run NL A L P (RoutingNode_new NL L P now fob random)"
| node_run_step: "node_run NL A L P rn \<Longrightarrow> node_step NL A L P now rn rn' \<Longrightarrow> node_run NL A L P rn'"

subsection \<open>What the operations leave alone\<close>

text \<open>With no targets the loop over them does nothing.\<close>

lemma no_targets [simp]: "send_to L (GetTarget a cm) msg h rn = (rn, Inr ())"
  by (simp add: GetTarget_def)

lemma next_message_id_simps [simp]:
  "connection_manager (next_message_id rn) = connection_manager rn"
  "node_filter (next_message_id rn) = node_filter rn"
  "bootstrap_node (next_message_id rn) = bootstrap_node rn"
  "child_calls (next_message_id rn) = child_calls rn"
  "connected_nodes (next_message_id rn) = connected_nodes rn" "our_fob (next_message_id rn) = our_fob rn"
  by (simp_all add: next_message_id_def)

lemma on_manager_simps [simp]:
  "connection_manager (on_manager f rn) = f (connection_manager rn)"
  "node_filter (on_manager f rn) = node_filter rn"
  "bootstrap_node (on_manager f rn) = bootstrap_node rn"
  "child_calls (on_manager f rn) = child_calls rn"
  "connected_nodes (on_manager f rn) = connected_nodes rn" "our_fob (on_manager f rn) = our_fob rn"
  by (simp_all add: on_manager_def)

text \<open>What a step that is no message and no completion may change\<close>

definition kept_by :: 
  "('a, 'f, 's, 'n, 'x, 'e, 'p, 'q, 'c) RoutingNode \<Rightarrow> ('a, 'f, 's, 'n, 'x, 'e, 'p, 'q, 'c) RoutingNode \<Rightarrow> bool" where
  "kept_by rn rn' \<longleftrightarrow> connection_manager rn' = connection_manager rn \<and> node_filter rn' = node_filter rn
     \<and> bootstrap_node rn' = bootstrap_node rn \<and> child_calls rn' = child_calls rn
     \<and> connected_nodes rn' = connected_nodes rn \<and> our_fob rn' = our_fob rn"

lemma kept_by_next [simp]: "kept_by rn (next_message_id rn)"
  by (simp add: kept_by_def)

lemma kept_by_refl [simp]: "kept_by rn rn"
  by (simp add: kept_by_def)

lemma kept_by_trans: "kept_by rn rn' \<Longrightarrow> kept_by rn' rn'' \<Longrightarrow> kept_by rn rn''"
  by (simp add: kept_by_def)

lemma requests_keep:
  "kept_by rn (fst (node_Get NL L P n rn))" "kept_by rn (fst (node_Put L P to ty data rn))"
  "kept_by rn (fst (node_Post L P to ty data rn))"
  by (simp_all add: node_Get_def node_Put_def node_Post_def Let_def split: sum.splits)

lemmas kept_simps = requests_keep [unfolded kept_by_def]

lemma join_keeps: "bootstrap_node rn = None \<Longrightarrow> kept_by rn (fst (ConnectToCloseGroup L P rn))"
  by (simp add: ConnectToCloseGroup_def Let_def split: sum.splits)

lemma find_group_keeps: "kept_by rn (fst (HandleFindGroup NL L P m header rn))"
  by (simp add: HandleFindGroup_def Let_def split: sum.splits)

lemma find_group_response_keeps: "kept_by rn (fst (HandleFindGroupResponse NL A L P pmids rn))"
proof (induction pmids arbitrary: rn)
  case (Cons f pmids)
  show ?case
    using Cons.IH [of rn] kept_by_trans [OF kept_by_next Cons.IH [of "next_message_id rn"]]
    by (simp add: Let_def split: sum.splits)
qed simp

text \<open>
  What the handling of a message does to everything but the caches, the message id and the calls of
  \<^verbatim>\<open>Child\<close>: a connection is opened at most, and only for an address that has a peer.
\<close>

definition message_effect ::
  "('a, 'f, 'k) lib \<Rightarrow> ('a, 'f, 's, 'n, 'x, 'e::linorder, 'p, 'q, 'c) RoutingNode \<Rightarrow>
   ('a, 'f, 's, 'n, 'x, 'e, 'p, 'q, 'c) RoutingNode \<Rightarrow> bool" where
  "message_effect L rn rn' \<longleftrightarrow> our_fob rn' = our_fob rn \<and> node_filter rn' = node_filter rn \<and> bootstrap_node rn' = bootstrap_node rn
     \<and> (connection_manager rn' = connection_manager rn
        \<or> (\<exists>info eps. IsManaged L (ni_id info) (connection_manager rn)
            \<and> connection_manager rn' = cm_AddNode (Some info) eps (connection_manager rn)))"

lemma kept_by_effect: "kept_by rn rn' \<Longrightarrow> message_effect L rn rn'"
  by (simp add: kept_by_def message_effect_def)

lemma message_effect_refl [simp]: "message_effect L rn rn"
  by (simp add: message_effect_def)

lemma managed_effect:
  "IsManaged L a (connection_manager rn) \<Longrightarrow>
     message_effect L rn (on_manager (cm_AddNode (Some \<lparr>ni_id = a, dht_fob = f, connected = b\<rparr>) eps) rn)"
  unfolding message_effect_def on_manager_simps
  by (intro conjI disjI2 exI [of _ "\<lparr>ni_id = a, dht_fob = f, connected = b\<rparr>"] exI [of _ eps]) simp_all

lemma connect_effect: "message_effect L rn (fst (HandleConnect NL A L P m header rn))"
  by (simp add: HandleConnect_def Let_def managed_effect split: sum.splits)

lemma connect_response_effect: "message_effect L rn (HandleConnectResponse L m rn)"
  by (simp add: HandleConnectResponse_def managed_effect)

lemma get_data_effect: "message_effect L rn (fst (HandleGetData NL L m header rn))"
  by (simp add: HandleGetData_def message_effect_def split: sum.splits)

lemma parsed_effect:
  "(\<And>m. message_effect L rn (fst (f m))) \<Longrightarrow> message_effect L rn (fst (parsed x rn f))"
  by (simp add: parsed_def split: option.splits)

lemma dispatch_effect: "message_effect L rn (fst (dispatch NL A L P tag header stream rn))"
  by (cases tag)
    (auto simp: dispatch_def HandlePutData_def HandlePost_def connect_effect connect_response_effect get_data_effect
      kept_by_effect [OF find_group_keeps] kept_by_effect [OF find_group_response_keeps]
      intro!: parsed_effect split: MessageTypeTag.splits)

lemma use_cache_keeps: "kept_by rn (fst (use_cache NL P now tag stream rn))"
  by (auto simp: use_cache_def kept_by_def split: option.splits)

text \<open>A message that is not ignored: what the caches leave, and perhaps its handler\<close>

lemma MessageReceived_fresh:
  assumes "parse_header P msg = Some (h, tag, stream)"
    "filter_Check NL now (node_filter rn) (FilterValue h) = (q, False)"
    "use_cache NL P now tag stream (rn\<lparr>node_filter := filter_Add NL now q (FilterValue h)\<rparr>) = (rn1, r)"
  shows "MessageReceived NL A L P now msg rn =
    (case r of Inl e \<Rightarrow> (rn1, Inl e)
     | Inr rest \<Rightarrow>
         if RelayedMessage h \<and> list_ex (\<lambda>n. Some n = ReplyToAddress h) (connected_nodes rn) then (rn1, Inr ())
         else if \<not> AddressInCloseGroupRange L (fst (h_destination h)) (connection_manager rn) then (rn1, Inr ())
         else dispatch NL A L P tag h rest rn1)"
proof -
  have "kept_by (rn\<lparr>node_filter := filter_Add NL now q (FilterValue h)\<rparr>) rn1"
    using use_cache_keeps [of "rn\<lparr>node_filter := filter_Add NL now q (FilterValue h)\<rparr>" NL P now tag stream] assms(3) by simp
  then show ?thesis
    using assms by (auto simp: MessageReceived_def kept_by_def split: sum.splits)
qed

text \<open>The filter afterwards, and the effect on the rest\<close>

lemma MessageReceived_effect:
  assumes "parse_header P msg = Some (h, tag, stream)"
  shows "message_effect L (rn\<lparr>node_filter := filter_after NL now (node_filter rn) h\<rparr>)
    (fst (MessageReceived NL A L P now msg rn))"
proof -
  obtain q seen where check: "filter_Check NL now (node_filter rn) (FilterValue h) = (q, seen)" by fastforce
  let ?rn = "rn\<lparr>node_filter := filter_Add NL now q (FilterValue h)\<rparr>"
  obtain rn1 r where cache: "use_cache NL P now tag stream ?rn = (rn1, r)" by fastforce
  have kept: "kept_by ?rn rn1" using use_cache_keeps [of ?rn NL P now tag stream] cache by simp
  have later: "message_effect L ?rn rn2" if "message_effect L rn1 rn2" for rn2
    using kept that by (auto simp: message_effect_def kept_by_def)
  show ?thesis
  proof (cases seen)
    case True
    then show ?thesis using assms check by (simp add: MessageReceived_def filter_after_def)
  next
    case False
    then have "filter_after NL now (node_filter rn) h = filter_Add NL now q (FilterValue h)"
      using check by (simp add: filter_after_def)
    moreover have "message_effect L ?rn (fst (MessageReceived NL A L P now msg rn))"
      using MessageReceived_fresh [OF assms _ cache] check False kept_by_effect [OF kept]
      by (auto simp: later dispatch_effect split: sum.splits)
    ultimately show ?thesis by simp
  qed
qed





subsection \<open>What a node sends\<close>

text \<open>The only bytes sent are those of the exchange of identities.\<close>

fun exchange_only :: "byte list \<Rightarrow> ('a, 'h) cm_event \<Rightarrow> bool" where
  "exchange_only own (ConnectionAdded h a) = True"
| "exchange_only own (Transmitted s bytes) = (bytes = own)"
| "exchange_only own _ = False"

fun is_sending :: "('a, 'f, 'e, 'h) pending \<Rightarrow> bool" where
  "is_sending (Sending g h) = True"
| "is_sending _ = False"

definition silent :: "('a, 'f, 'k, 's, 'n, 't, 'x) prims \<Rightarrow> 'f \<Rightarrow> ('a, 'f, 'e, 'h) ConnectionManager \<Rightarrow> bool" where
  "silent P fob cm \<longleftrightarrow> deaf cm \<and> cm_our_fob cm = fob \<and> list_all (exchange_only (enc (p_fob P) fob)) (cm_log cm)
     \<and> filter is_sending (cm_pending cm) = []"

lemma silent_start: "\<not> is_sending op \<Longrightarrow> silent P fob (start op cm) = silent P fob cm"
  by (simp add: silent_def start_def deaf_def)

lemma silent_finish: "silent P fob cm \<Longrightarrow> silent P fob (finish i cm)"
  using set_erase_at_subset [of i "cm_pending cm"] by (auto simp: silent_def finish_def deaf_def filter_empty_conv)

lemma silent_simps [simp]:
  "silent P fob (cm\<lparr>being_connected := b\<rparr>) = silent P fob cm" "silent P fob (cm\<lparr>acceptors := ac\<rparr>) = silent P fob cm"
  "silent P fob (cm\<lparr>peers := m\<rparr>) = silent P fob cm" "silent P fob (cm\<lparr>cm_next := n\<rparr>) = silent P fob cm"
  "silent P fob (update_peer g f cm) = silent P fob cm" "silent P fob (log_event (ConnectionAdded h a) cm) = silent P fob cm"
  by (simp_all add: silent_def deaf_def update_peer_def log_event_def)

lemma silent_exchange:
  "silent P fob cm \<Longrightarrow> (\<And>ex. \<not> is_sending (op ex)) \<Longrightarrow> silent P fob (exchange_identity P s op cm)"
  by (simp add: exchange_identity_def Let_def silent_start) (simp add: silent_def)

lemma silent_StartAccepting [simp]: "silent P fob (StartAccepting port cm) = silent P fob cm"
  by (auto simp: StartAccepting_def Let_def silent_start split: option.splits)

lemma silent_AddNode [simp]: "silent P fob (cm_AddNode info eps cm) = silent P fob cm"
  by (auto simp: cm_AddNode_def Let_def silent_start split: option.splits)

lemma silent_insert_new_peer [simp]: "silent P fob (insert_new_peer L info s cm) = silent P fob cm"
  by (auto simp: insert_new_peer_def InsertPeer_def StartReceiving_def Let_def silent_start split: option.splits)

lemma silent_complete:
  assumes "cm_complete L P cm cm'" "silent P fob cm"
  shows "silent P fob cm'"
  using assms(1)
proof (cases rule: cm_complete.cases)
  case (done_receiving i g bs err)
  have "deaf (finish i cm)" using silent_finish [OF assms(2)] by (simp add: silent_def)
  then show ?thesis using done_receiving silent_finish [OF assms(2), of i] by (simp add: deaf_received)
next
  case (done_sending i g h err)
  then have "Sending g h \<in> set (cm_pending cm)" by (metis nth_mem)
  moreover have "filter is_sending (cm_pending cm) = []" using assms(2) by (simp add: silent_def)
  ultimately show ?thesis by (auto simp: filter_empty_conv)
qed (use silent_finish [OF assms(2)] in \<open>auto simp: on_accepted_def on_accept_exchanged_def on_connected_def
       on_connect_exchanged_def silent_start Let_def intro!: silent_exchange split: option.splits\<close>)

lemma silent_step:
  assumes "node_step NL A L P now rn rn'" "silent P (pmid_public (our_fob rn)) (connection_manager rn)" "bootstrap_node rn = None"
  shows "silent P (pmid_public (our_fob rn')) (connection_manager rn') \<and> bootstrap_node rn' = None"
  using assms(1)
proof (cases rule: node_step.cases)
  case (step_message msg)
  show ?thesis
  proof (cases "parse_header P msg")
    case None
    then show ?thesis using step_message assms(2,3) by (simp add: MessageReceived_def)
  next
    case (Some p)
    then obtain h tag stream where "parse_header P msg = Some (h, tag, stream)" by (cases p) auto
    from MessageReceived_effect [OF this, where L = L and rn = rn and NL = NL and now = now and A = A] show ?thesis
      using step_message assms(2,3) by (auto simp: message_effect_def)
  qed
next
  case (step_completion cm)
  then show ?thesis using silent_complete assms(2,3) by auto
next
  case (step_return h g)
  then show ?thesis using assms(2) by (simp add: silent_def deaf_def)
qed (use assms(2,3) in \<open>auto simp: kept_simps join_keeps [OF assms(3), unfolded kept_by_def] AddContact_def
       node_StartAccepting_def node_Shutdown_def node_HandleGetDataResponse_def Shutdown_def\<close>)

lemma node_run_silent:
  assumes "node_run NL A L P rn"
  shows "silent P (pmid_public (our_fob rn)) (connection_manager rn) \<and> bootstrap_node rn = None"
  using assms
proof (induction rule: node_run.induct)
  case (node_run_new now fob random)
  then show ?case
    by (simp add: RoutingNode_new_def SetOnConnectionAdded_def ConnectionManager_new_def silent_def deaf_def)
next
  case (node_run_step rn now rn')
  then show ?case using silent_step by blast
qed

subsection \<open>A connection to a node that is already a peer\<close>

lemma known_peer_kept:
  assumes "IsManaged L (ni_id info) cm"
  shows "peers (fst (on_connect_exchanged L P e s (Some info) err data cm)) = peers cm"
proof -
  have "peers (insert_new_peer L their s (cm\<lparr>being_connected := b\<rparr>)) = peers cm" if "ni_id their = ni_id info" for their b
    using assms that
    by (auto simp: insert_new_peer_def InsertPeer_def IsManaged_def PeerNode_new_def peer_id_def split: option.splits)
  then show ?thesis
    by (auto simp: on_connect_exchanged_def NodeInfo_neq_def Let_def split: option.splits)
qed

lemma AddNode_pending:
  "\<exists>s. cm_pending (cm_AddNode info eps cm) = cm_pending cm @ [Connecting (ep_external eps) s info]
    \<and> peers (cm_AddNode info eps cm) = peers cm"
  by (auto simp: cm_AddNode_def Let_def start_def split: option.splits)

subsection \<open>Properties\<close>


text \<open>
  C33. A node sends nothing but its identity: along every run, whatever is asked of it and whatever it
  receives, the only bytes it transmits are its own fob, in the exchange with which a connection
  starts. No message is sent or forwarded, no send is outstanding or was reported, no received message
  is handed to the node, and no bootstrap node is set. The manager gives no targets, and its receive
  handler is never set.
\<close>

theorem node_sends_only_its_identity:
  assumes "node_run NL A L P rn"
  shows "list_all (exchange_only (enc (p_fob P) (pmid_public (our_fob rn)))) (cm_log (connection_manager rn))
    \<and> filter is_sending (cm_pending (connection_manager rn)) = []
    \<and> on_receive (connection_manager rn) = None \<and> bootstrap_node rn = None"
  using node_run_silent [OF assms] by (simp add: silent_def deaf_def)

text \<open>
  C34. A request for data never reaches \<^verbatim>\<open>Child\<close>: the body of a \<^verbatim>\<open>GetData\<close> message is read once for the
  cache and once more for the handler, from where the first reading ended. So a message as the
  library writes it ends in an exception exactly when it is new, not for a connected client, and
  in range, and it never leads to a call. That nothing can be read from an exhausted stream is
  relied on.
\<close>

theorem get_data_read_twice:
  assumes "prims_ok P" "dec (p_name_and_type_id P) [] = None"
    "msg = wire P (GetData_serialize P) h tag_GetData body"
  shows "child_calls (fst (MessageReceived NL A L P now msg rn)) = child_calls rn
    \<and> (snd (MessageReceived NL A L P now msg rn) =
        (if snd (filter_Check NL now (node_filter rn) (FilterValue h))
            \<or> RelayedMessage h \<and> list_ex (\<lambda>n. Some n = ReplyToAddress h) (connected_nodes rn)
            \<or> \<not> AddressInCloseGroupRange L (fst (h_destination h)) (connection_manager rn)
         then Inr () else Inl library_error))"
proof -
  have parse: "parse_header P msg = Some (h, Some tag_GetData, enc (GetData_serialize P) body)"
    using wire_parse [OF assms(1), of _ h tag_GetData body "[]"] assms(3) by simp
  obtain q seen where check: "filter_Check NL now (node_filter rn) (FilterValue h) = (q, seen)" by fastforce
  let ?rn = "rn\<lparr>node_filter := filter_Add NL now q (FilterValue h)\<rparr>"
  obtain rn1 where cache: "use_cache NL P now (Some tag_GetData) (enc (GetData_serialize P) body) ?rn = (rn1, Inr [])"
    and calls: "child_calls rn1 = child_calls rn"
    using codec_asD [OF codec_ok_GetData [OF assms(1)], of body "[]"] by (simp add: use_cache_def)
  have "dec (GetData_serialize P) [] = None"
    using assms(2) by (simp add: GetData_serialize_def class_codec_def archive2_def)
  then have "dispatch NL A L P (Some tag_GetData) h [] rn1 = (rn1, Inl library_error)"
    by (simp add: dispatch_def parsed_def)
  then show ?thesis
    using MessageReceived_fresh [OF parse _ cache, where L = L and A = A] check calls parse
    by (cases seen) (auto simp: MessageReceived_def)
qed

text \<open>
  C35. Messages never lead to new peers: receiving a message starts at most one connection and changes
  no peer, the connection is to a node that already is a peer, and when the identities have been
  exchanged with a node that still is a peer the peers stay as they are. (The handlers of
  \<^verbatim>\<open>Connect\<close> and \<^verbatim>\<open>ConnectResponse\<close> return unless the requester is a peer.)
\<close>

theorem messages_add_no_peers:
  "peers (connection_manager (fst (MessageReceived NL A L P now msg rn))) = peers (connection_manager rn)
   \<and> (cm_pending (connection_manager (fst (MessageReceived NL A L P now msg rn))) = cm_pending (connection_manager rn)
      \<or> (\<exists>e s info. cm_pending (connection_manager (fst (MessageReceived NL A L P now msg rn))) =
            cm_pending (connection_manager rn) @ [Connecting e s (Some info)]
          \<and> IsManaged L (ni_id info) (connection_manager rn)
          \<and> (\<forall>cm err data. IsManaged L (ni_id info) cm \<longrightarrow>
               peers (fst (on_connect_exchanged L P e s (Some info) err data cm)) = peers cm)))"
proof (cases "parse_header P msg")
  case None
  then show ?thesis by (simp add: MessageReceived_def)
next
  case (Some p)
  then obtain h tag stream where "parse_header P msg = Some (h, tag, stream)" by (cases p) auto
  from MessageReceived_effect [OF this, where L = L and rn = rn and NL = NL and now = now and A = A]
  consider "connection_manager (fst (MessageReceived NL A L P now msg rn)) = connection_manager rn"
    | info eps where "IsManaged L (ni_id info) (connection_manager rn)"
      "connection_manager (fst (MessageReceived NL A L P now msg rn)) = cm_AddNode (Some info) eps (connection_manager rn)"
    by (auto simp: message_effect_def)
  then show ?thesis
  proof cases
    case (2 info eps)
    then show ?thesis
      using AddNode_pending [of "Some info" eps "connection_manager rn"] known_peer_kept by metis
  qed simp
qed

subsection \<open>Examples\<close>

definition list_lib :: "(nat, nat, nat, (32 word, 128 word) endpoint, unit, list_filter, unit) node_lib" where
  "list_lib = lru_filter.extend list_lru \<lparr>cache_new = (\<lambda>d. ()), cache_Add = (\<lambda>now c a d. ()),
     cache_Get = (\<lambda>now c a. ((), None)), Sign = (\<lambda>bs key. 0), name_of = (\<lambda>n. n), no_endpoint = (V4 1, 80)\<rparr>"

lemma list_lib_simps:
  "filter_Check list_lib = filter_Check list_lru" "filter_Add list_lib = filter_Add list_lru" "filter_new list_lib d = []"
  by (simp_all add: list_lib_def list_lru_def lru_filter.defs)

definition ex_node :: "(nat, nat, nat, nat, nat, (32 word, 128 word) endpoint, unit, list_filter, unit) RoutingNode" where
  "ex_node = RoutingNode_new list_lib word_lib nat_prims 0 \<lparr>pmid_public = 0, pmid_name = 0, pmid_private_key = ()\<rparr> 0"

lemma ex_node_simps:
  "node_filter ex_node = []" "connected_nodes ex_node = []" "peers (connection_manager ex_node) = []"
  "cm_running (connection_manager ex_node) = None" "being_connected (connection_manager ex_node) = []"
  "cm_our_id (connection_manager ex_node) = 0" "node_message_id ex_node = 0" "cm_next (connection_manager ex_node) = 0"
  "cm_our_fob (connection_manager ex_node) = 0" "cm_log (connection_manager ex_node) = []"
  "on_connection_added (connection_manager ex_node) = Some HandleConnectionAdded"
  by (simp_all add: ex_node_def RoutingNode_new_def list_lib_simps SetOnConnectionAdded_def ConnectionManager_new_def word_lib_def)

text \<open>The node after it has connected to node 7\<close>

definition ex_joined :: "(nat, nat, nat, nat, nat, (32 word, 128 word) endpoint, unit, list_filter, unit) RoutingNode" where
  "ex_joined = ex_node\<lparr>connection_manager := insert_new_peer word_lib \<lparr>ni_id = 7, dht_fob = 7, connected = True\<rparr> 0
     (log_event (Transmitted 0 (enc (p_fob nat_prims) 0)) ((connection_manager ex_node)\<lparr>cm_next := 1\<rparr>))\<rparr>"

lemma node_run_completes:
  assumes "(idle_complete L P)\<^sup>*\<^sup>* cm cm'" "node_run NL A L P (rn\<lparr>connection_manager := cm\<rparr>)"
  shows "node_run NL A L P (rn\<lparr>connection_manager := cm'\<rparr>)"
  using assms
proof (induction rule: rtranclp_induct)
  case (step cm1 cm2)
  then have "node_run NL A L P (rn\<lparr>connection_manager := cm1\<rparr>)" by simp
  moreover have "node_step NL A L P 0 (rn\<lparr>connection_manager := cm1\<rparr>)
      ((rn\<lparr>connection_manager := cm1\<rparr>)\<lparr>connection_manager := cm2\<rparr>)"
    using step(2) by (intro step_completion) (simp_all add: idle_complete_def)
  ultimately show ?case using node_run_step by fastforce
qed

lemma ex_joined_run: "node_run list_lib word_asio word_lib nat_prims ex_joined"
proof -
  have "node_run list_lib word_asio word_lib nat_prims ex_node" unfolding ex_node_def by (rule node_run_new)
  from node_run_step [OF this step_contact [where e = "(V4 1, 80)"]]
  have "node_run list_lib word_asio word_lib nat_prims
      (ex_node\<lparr>connection_manager := cm_AddNode None (EndpointPair_both (V4 1, 80)) (connection_manager ex_node)\<rparr>)"
    by (simp add: AddContact_def on_manager_def)
  from node_run_completes [OF steps_connect [OF _ _ prims_okD(3) [OF nat_prims_ok], where fob = 7] this]
  show ?thesis by (simp add: ex_node_simps ex_joined_def) (simp add: word_lib_def)
qed

lemma ex_joined_simps:
  "map fst (peers (connection_manager ex_joined)) = [7]" "node_filter ex_joined = []"
  "connected_nodes ex_joined = []" "IsManaged word_lib 7 (connection_manager ex_joined)"
  "AddressInCloseGroupRange word_lib a (connection_manager ex_joined)" "node_message_id ex_joined = 0"
proof -
  have "\<exists>p. peers (connection_manager ex_joined) = [(7, p)]"
    by (cases "on_connection_added (connection_manager ex_node)")
      (simp_all add: ex_joined_def insert_new_peer_cases ex_node_simps Let_def FindPeer_def)
  then obtain p where p: "peers (connection_manager ex_joined) = [(7, p)]" ..
  show "map fst (peers (connection_manager ex_joined)) = [7]" by (simp add: p)
  show "IsManaged word_lib 7 (connection_manager ex_joined)"
    by (simp add: IsManaged_def p equiv_keys_def Address_Comparison_def word_lib_def)
  show "AddressInCloseGroupRange word_lib a (connection_manager ex_joined)"
    by (simp add: AddressInCloseGroupRange_def p GroupSize_def)
qed (simp_all add: ex_joined_def ex_node_simps)



text \<open>Node 7 gives the node its endpoint.\<close>

definition ex_connect_response :: SerialisedMessage where
  "ex_connect_response = wire nat_prims (ConnectResponse_serialize word_asio nat_prims) (ex_header 7) tag_ConnectResponse
     \<lparr>cr_requester_endpoints = EndpointPair_both (V4 2, 80), cr_receiver_endpoints = EndpointPair_both (V4 3, 80),
      cr_requester_id = 7, cr_receiver_id = 0, cr_receiver_fob = 7\<rparr>"

definition ex_get_data :: SerialisedMessage where
  "ex_get_data = wire nat_prims (GetData_serialize nat_prims) (ex_header 9) tag_GetData
     \<lparr>gd_name_and_type_id = 4, gd_requester = h_source (ex_header 9)\<rparr>"

lemma ex_connect_response_starts:
  "cm_pending (connection_manager (fst (MessageReceived list_lib word_asio word_lib nat_prims 0 ex_connect_response ex_joined)))
    \<noteq> cm_pending (connection_manager ex_joined)"
proof -
  let ?c = "ConnectResponse_serialize word_asio nat_prims"
  obtain m where parse: "parse_header nat_prims ex_connect_response = Some (ex_header 7, Some tag_ConnectResponse, enc ?c m)"
    and m: "cr_requester_id m = 7"
    unfolding ex_connect_response_def using wire_parse [OF nat_prims_ok, where rest = "[]"] by force
  obtain m' where dec: "dec ?c (enc ?c m) = Some (m', [])" "cr_requester_id m' = 7"
    using codec_asD [OF codec_as_ConnectResponse [OF nat_prims_ok word_asio_ok], of m "[]"] m by simp
  let ?rn = "ex_joined\<lparr>node_filter := filter_Add list_lib 0 [] (FilterValue (ex_header 7))\<rparr>"
  have check: "filter_Check list_lib 0 (node_filter ex_joined) (FilterValue (ex_header 7)) = ([], False)"
    by (simp add: list_lib_simps list_lru_def ex_joined_simps)
  have cache: "use_cache list_lib nat_prims 0 (Some tag_ConnectResponse) (enc ?c m) ?rn = (?rn, Inr (enc ?c m))"
    by (simp add: use_cache_def)
  have "connection_manager (fst (MessageReceived list_lib word_asio word_lib nat_prims 0 ex_connect_response ex_joined))
      = cm_AddNode (Some \<lparr>ni_id = 7, dht_fob = cr_receiver_fob m', connected = True\<rparr>) (cr_receiver_endpoints m')
          (connection_manager ex_joined)"
    using MessageReceived_fresh [OF parse check cache, where L = word_lib and A = word_asio] dec
    by (simp add: ex_joined_simps dispatch_def parsed_def HandleConnectResponse_def)
  then show ?thesis
    using AddNode_pending [of "Some \<lparr>ni_id = 7, dht_fob = cr_receiver_fob m', connected = True\<rparr>" "cr_receiver_endpoints m'"
        "connection_manager ex_joined"] by auto
qed


text \<open>Node 7 was sent the fob of the node, 0, and nothing else, also when the node then asks for data.\<close>

theorem node_sends_only_its_identity_witness:
  "cm_log (connection_manager (fst (node_Get list_lib word_lib nat_prims 3 ex_joined)))
     = [ConnectionAdded HandleConnectionAdded 7, Transmitted 0 (enc (p_fob nat_prims) 0)]
   \<and> list_all (exchange_only (enc (p_fob nat_prims) 0))
       (cm_log (connection_manager (fst (node_Get list_lib word_lib nat_prims 3 ex_joined))))"
proof -
  have "cm_log (connection_manager ex_joined) = [ConnectionAdded HandleConnectionAdded 7, Transmitted 0 (enc (p_fob nat_prims) 0)]"
    by (simp add: ex_joined_def insert_new_peer_cases ex_node_simps Let_def FindPeer_def)
  moreover have "pmid_public (our_fob ex_joined) = 0" by (simp add: ex_joined_def ex_node_def RoutingNode_new_def)
  ultimately show ?thesis
    using node_sends_only_its_identity [OF node_run_step [OF ex_joined_run step_get [where n = 3 and now = 0]]]
      requests_keep(1) [of ex_joined list_lib word_lib nat_prims 3]
    by (simp add: kept_by_def)
qed

theorem get_data_read_twice_witness:
  "child_calls (fst (MessageReceived list_lib word_asio word_lib nat_prims 0 ex_get_data ex_joined)) = child_calls ex_joined
   \<and> snd (MessageReceived list_lib word_asio word_lib nat_prims 0 ex_get_data ex_joined) = Inl library_error"
proof -
  have exhausted: "dec (p_name_and_type_id nat_prims) [] = None" by (simp add: nat_prims_def unary_codec_def)
  have "\<not> snd (filter_Check list_lib 0 (node_filter ex_joined) (FilterValue (ex_header 9)))"
    by (simp add: list_lib_simps list_lru_def ex_joined_simps)
  then show ?thesis
    using get_data_read_twice [OF nat_prims_ok exhausted ex_get_data_def, where NL = list_lib and A = word_asio
        and L = word_lib and now = 0 and rn = ex_joined]
    by (simp add: ex_joined_simps)
qed

theorem messages_add_no_peers_witness:
  "\<exists>e s info. cm_pending (connection_manager (fst (MessageReceived list_lib word_asio word_lib nat_prims 0 ex_connect_response ex_joined)))
      = cm_pending (connection_manager ex_joined) @ [Connecting e s (Some info)]
    \<and> peers (fst (on_connect_exchanged word_lib nat_prims e s (Some info) None (enc (p_fob nat_prims) 7) (connection_manager ex_joined)))
      = peers (connection_manager ex_joined)"
  using messages_add_no_peers [of list_lib word_asio word_lib nat_prims 0 ex_connect_response ex_joined]
    ex_connect_response_starts by blast

end
