(* ===== verification/Client.thy ===== *)
theory Client
  imports Bootstrap_Handler Connection_Manager Sentinel Message_Filter
begin

section \<open>The client\<close>

text \<open>
  Models \<^verbatim>\<open>client.h\<close> and \<^verbatim>\<open>client.cc\<close>. \<open>'y\<close> is \<^verbatim>\<open>asymm::Keys\<close>; the keys of a \<^verbatim>\<open>passport::Maid\<close> or
  \<^verbatim>\<open>passport::Mpid\<close> are its private and its public key. The constructors fail when the one of the
  bootstrap handler does. The bodies that \<^verbatim>\<open>asio::post\<close> defers are the operations, and the
  completion tokens, which the code never calls, are left out.
\<close>

record ('a, 'f, 's, 'y, 'db, 'q) Client =
  client_our_id :: 'a
  client_our_keys :: 'y
  client_message_id :: MessageId
  client_bootstrap_node :: "'a option"
  client_bootstrap_handler :: "'db BootstrapHandler"
  connected_peers :: "('a, 'f) PeerNode list"
  client_filter :: 'q
  client_sentinel :: "('a, 's) Sentinel"

definition Client_new ::
  "('a, 'q, 'z) lru_filter_scheme \<Rightarrow> 'db BootstrapHandler result \<Rightarrow> 'a \<Rightarrow> 'y \<Rightarrow> MessageId \<Rightarrow>
   ('a, 'f, 's, 'y, 'db, 'q) Client result" where
  "Client_new F handler our_id our_keys random =
     bindR handler (\<lambda>bh. Inr
       \<lparr>client_our_id = our_id, client_our_keys = our_keys, client_message_id = random, client_bootstrap_node = None,
        client_bootstrap_handler = bh, connected_peers = [], client_filter = filter_new F filter_time,
        client_sentinel = Sentinel_new\<rparr>)"

record ('a, 'k, 'r) fob =
  own_name :: 'a
  own_private_key :: 'r
  own_public_key :: 'k

definition Client_maid ::
  "('a, 'q, 'z) lru_filter_scheme \<Rightarrow> 'db BootstrapHandler result \<Rightarrow> ('a, 'k, 'r) fob \<Rightarrow> MessageId \<Rightarrow>
   ('a, 'f, 's, 'r \<times> 'k, 'db, 'q) Client result" where
  "Client_maid F handler maid random =
     (let keys = (own_private_key maid, own_public_key maid) in Client_new F handler (own_name maid) keys random)"

definition Client_mpid ::
  "('a, 'q, 'z) lru_filter_scheme \<Rightarrow> 'db BootstrapHandler result \<Rightarrow> ('a, 'k, 'r) fob \<Rightarrow> MessageId \<Rightarrow>
   ('a, 'f, 's, 'r \<times> 'k, 'db, 'q) Client result" where
  "Client_mpid F handler mpid random =
     (let keys = (own_private_key mpid, own_public_key mpid) in Client_new F handler (own_name mpid) keys random)"

definition Client_OurSourceAddress ::
  "('a, 'f, 'k) lib \<Rightarrow> ('a, 'f, 's, 'y, 'db, 'q) Client \<Rightarrow> 'a SourceAddress result" where
  "Client_OurSourceAddress L cl =
     bindR (cpp_assert (NDEBUG L) (client_bootstrap_node cl \<noteq> None)) (\<lambda>_.
       case client_bootstrap_node cl of
         None \<Rightarrow> Inl undefined_behaviour
       | Some b \<Rightarrow> Inr (SourceAddress_new b None (Some (client_our_id cl))))"

text \<open>
  The message that \<^verbatim>\<open>Get\<close> makes is not sent: the loop over the targets is commented out. \<^verbatim>\<open>Get\<close> constructs
  its \<^verbatim>\<open>GetData\<close> from three arguments, the type of the data, its name and our source address. The class has
  no such constructor; what one would make of the three is the argument \<open>get_data\<close>.
\<close>

definition Client_Get ::
  "('a, 'f, 'k) lib \<Rightarrow> ('a, 'f, 'k, 's, 'n, 't, 'x) prims \<Rightarrow> ('t \<Rightarrow> 'a \<Rightarrow> 'a SourceAddress \<Rightarrow> ('n, 'a) GetData) \<Rightarrow> 't \<Rightarrow> 'a \<Rightarrow>
   ('a, 'f, 's, 'y, 'db, 'q) Client \<Rightarrow> ('a, 'f, 's, 'y, 'db, 'q) Client \<times> SerialisedMessage result" where
  "Client_Get L P get_data type_id name cl =
     (let cl = cl\<lparr>client_message_id := client_message_id cl + 1\<rparr> in
      (cl, bindR (Client_OurSourceAddress L cl) (\<lambda>src.
           bindR (MessageHeader_unsigned L (name, None) src (client_message_id cl) client) (\<lambda>our_header.
           bindR (Client_OurSourceAddress L cl) (\<lambda>src'.
             Inr (wire P (GetData_serialize P) our_header (MessageToTag class_GetData) (get_data type_id name src')))))))"

text \<open>What is commented out leaves the other operations, and the handlers of messages, empty.\<close>

definition Client_Bootstrap :: "'c \<Rightarrow> 'c" where
  "Client_Bootstrap cl = cl"

definition Client_Bootstrap_endpoint :: "('v4, 'v6) endpoint \<Rightarrow> 'c \<Rightarrow> 'c" where
  "Client_Bootstrap_endpoint local_endpoint cl = cl"

definition Client_Put ::
  "'a \<Rightarrow> SerialisedMessage \<Rightarrow> ('a, 'f, 's, 'y, 'db, 'q) Client \<Rightarrow> ('a, 'f, 's, 'y, 'db, 'q) Client" where
  "Client_Put name message cl = cl"

definition Client_Post ::
  "'a \<Rightarrow> SerialisedMessage \<Rightarrow> ('a, 'f, 's, 'y, 'db, 'q) Client \<Rightarrow> ('a, 'f, 's, 'y, 'db, 'q) Client" where
  "Client_Post name message cl = cl"

definition Client_Request ::
  "'a \<Rightarrow> SerialisedMessage \<Rightarrow> ('a, 'f, 's, 'y, 'db, 'q) Client \<Rightarrow> ('a, 'f, 's, 'y, 'db, 'q) Client" where
  "Client_Request name message cl = cl"

definition Client_HandleConnectResponse :: "('a, 'f, 'e) ConnectResponse \<Rightarrow> 'c \<Rightarrow> 'c" where
  "Client_HandleConnectResponse connect_response cl = cl"

definition Client_HandleGetDataResponse :: "('n, 'x) GetDataResponse \<Rightarrow> 'c \<Rightarrow> 'c" where
  "Client_HandleGetDataResponse get_data_response cl = cl"

definition Client_HandlePost :: "'n Post \<Rightarrow> 'c \<Rightarrow> 'c" where
  "Client_HandlePost post cl = cl"

definition Client_MessageReceived ::
  "('a, 'q, 'z) lru_filter_scheme \<Rightarrow> ('v4, 'v6) asio_ip \<Rightarrow> ('a, 'f, 'k, 's, 'n, 't, 'x) prims \<Rightarrow> int \<Rightarrow>
   SerialisedMessage \<Rightarrow> ('a, 'f, 's, 'y, 'db, 'q) Client \<Rightarrow> ('a, 'f, 's, 'y, 'db, 'q) Client \<times> unit result" where
  "Client_MessageReceived F A P now message cl =
     (case parse_header P message of
        None \<Rightarrow> (cl, Inr ())
      | Some (header, tag, stream) \<Rightarrow>
          (let (q, seen) = filter_Check F now (client_filter cl) (FilterValue header) in
           if seen then (cl\<lparr>client_filter := q\<rparr>, Inr ())
           else let cl = cl\<lparr>client_filter := filter_Add F now q (FilterValue header)\<rparr> in
             (case tag of
                Some tag_ConnectResponse \<Rightarrow>
                  (case dec (ConnectResponse_serialize A P) stream of
                     None \<Rightarrow> (cl, Inl library_error)
                   | Some (m, _) \<Rightarrow> (Client_HandleConnectResponse m cl, Inr ()))
              | Some tag_GetDataResponse \<Rightarrow>
                  (case dec (GetDataResponse_serialize P) stream of
                     None \<Rightarrow> (cl, Inl library_error)
                   | Some (m, _) \<Rightarrow> (Client_HandleGetDataResponse m cl, Inr ()))
              | _ \<Rightarrow> (cl, Inr ()))))"

subsection \<open>Runs\<close>

inductive client_step ::
  "('a, 'q, 'z) lru_filter_scheme \<Rightarrow> ('v4, 'v6) asio_ip \<Rightarrow> ('a, 'f, 'k) lib \<Rightarrow> ('a, 'f, 'k, 's, 'n, 't, 'x) prims \<Rightarrow> int \<Rightarrow>
   ('a, 'f, 's, 'y, 'db, 'q) Client \<Rightarrow> ('a, 'f, 's, 'y, 'db, 'q) Client \<Rightarrow> bool"
  for F A L P now where
  client_get: "client_step F A L P now cl (fst (Client_Get L P get_data type_id name cl))"
| client_put: "client_step F A L P now cl (Client_Put a msg cl)"
| client_post: "client_step F A L P now cl (Client_Post a msg cl)"
| client_request: "client_step F A L P now cl (Client_Request a msg cl)"
| client_bootstrap: "client_step F A L P now cl (Client_Bootstrap cl)"
| client_bootstrap_endpoint: "client_step F A L P now cl (Client_Bootstrap_endpoint (e :: ('v4, 'v6) endpoint) cl)"
| client_message: "client_step F A L P now cl (fst (Client_MessageReceived F A P now msg cl))"

text \<open>A client that was constructed, after any number of steps\<close>

inductive client_run ::
  "('a, 'q, 'z) lru_filter_scheme \<Rightarrow> ('v4, 'v6) asio_ip \<Rightarrow> ('a, 'f, 'k) lib \<Rightarrow> ('a, 'f, 'k, 's, 'n, 't, 'x) prims \<Rightarrow>
   ('a, 'f, 's, 'y, 'db, 'q) Client \<Rightarrow> bool"
  for F A L P where
  client_run_new: "Client_new F handler our_id keys random = Inr cl \<Longrightarrow> client_run F A L P cl"
| client_run_step: "client_run F A L P cl \<Longrightarrow> client_step F A L P now cl cl' \<Longrightarrow> client_run F A L P cl'"

lemma Client_MessageReceived_effect:
  assumes "parse_header P msg = Some (h, tag, stream)"
  shows "fst (Client_MessageReceived F A P now msg cl) = cl\<lparr>client_filter := filter_after F now (client_filter cl) h\<rparr>"
  using assms
  by (auto simp: Client_MessageReceived_def filter_after_def Client_HandleConnectResponse_def
      Client_HandleGetDataResponse_def Let_def split: prod.splits option.splits MessageTypeTag.splits)

lemma client_step_effect:
  fixes P :: "('a, 'f, 'k, 's, 'n, 't, 'x) prims"
  assumes "client_step F A L P now cl cl'"
  shows "(client_filter cl' = client_filter cl
      \<or> (\<exists>h :: ('a, 's) MessageHeader. client_filter cl' = filter_after F now (client_filter cl) h))
    \<and> client_bootstrap_node cl' = client_bootstrap_node cl"
  using assms
proof (cases rule: client_step.cases)
  case (client_message msg)
  show ?thesis
  proof (cases "parse_header P msg")
    case None
    then show ?thesis using client_message by (simp add: Client_MessageReceived_def)
  next
    case (Some p)
    then obtain h tag stream where "parse_header P msg = Some (h, tag, stream)" by (cases p) auto
    from Client_MessageReceived_effect [OF this, of F A now cl] show ?thesis using client_message by auto
  qed
qed (simp_all add: Client_Get_def Client_Put_def Client_Post_def Client_Request_def Client_Bootstrap_def
      Client_Bootstrap_endpoint_def Let_def)

lemma Client_MessageReceived_filter:
  "parse_header P msg = Some (h, tag, stream) \<Longrightarrow>
     client_filter (fst (Client_MessageReceived F A P now msg cl)) = filter_after F now (client_filter cl) h"
  by (simp add: Client_MessageReceived_effect)

interpretation client_receiver: filtering_receiver F P client_filter "\<lambda>q cl. cl\<lparr>client_filter := q\<rparr>"
  "Client_MessageReceived F A P" "client_step F A L P" for F A L P
  by unfold_locales (rule Client_MessageReceived_filter, assumption, simp add: Client_MessageReceived_def,
      simp add: client_step_effect)

lemma client_run_bootstrap:
  assumes "client_run F A L P cl"
  shows "client_bootstrap_node cl = None"
  using assms
proof (induction rule: client_run.induct)
  case (client_run_new handler our_id keys random cl)
  then show ?case by (cases handler) (auto simp: Client_new_def)
qed (auto dest: client_step_effect)

subsection \<open>Properties\<close>

text \<open>
  C36. A client cannot ask for data and ignores what it has seen. Along every run from construction no
  bootstrap node is ever set, so that every \<^verbatim>\<open>Get\<close> fails the assertion on \<^verbatim>\<open>bootstrap_node_\<close>, or dereferences
  it where assertions are off, whatever message it would make. And when a client along a run receives
  a message the filter does not know, and less than twenty minutes later, whatever it did in between,
  one with the same sender and id, the later one changes nothing but the filter. The latter relies on the
  filter to keep its entries for that time.
\<close>

theorem client_filters_and_cannot_get:
  assumes "client_run F A L P cl"
  shows "client_bootstrap_node cl = None
    \<and> snd (Client_Get L P get_data type_id name cl) = Inl (if NDEBUG L then undefined_behaviour else assertion_failed)
    \<and> (filter_keeps F keep \<and> parse_header P msg = Some (h, tag, stream)
        \<and> \<not> snd (filter_Check F now (client_filter cl) (FilterValue h))
        \<and> steps_until (client_step F A L P) later (fst (Client_MessageReceived F A P now msg cl)) cl'
        \<and> parse_header P msg' = Some (h', tag', stream') \<and> FilterValue h' = FilterValue h \<and> later < now + filter_time
      \<longrightarrow> (\<exists>q. Client_MessageReceived F A P later msg' cl' = (cl'\<lparr>client_filter := q\<rparr>, Inr ())))"
proof (intro conjI impI)
  show none: "client_bootstrap_node cl = None" by (rule client_run_bootstrap [OF assms])
  then show "snd (Client_Get L P get_data type_id name cl) = Inl (if NDEBUG L then undefined_behaviour else assertion_failed)"
    by (simp add: Client_Get_def Client_OurSourceAddress_def cpp_assert_def Let_def)
qed (elim conjE, rule client_receiver.handled_once)

definition ex_client :: "(nat, nat, nat, unit, unit, list_filter) Client" where
  "ex_client = \<lparr>client_our_id = 3, client_our_keys = (), client_message_id = 8, client_bootstrap_node = None,
     client_bootstrap_handler = \<lparr>bh_database = (), last_updated = 0\<rparr>, connected_peers = [], client_filter = [],
     client_sentinel = Sentinel_new\<rparr>"

definition ex_client_message :: SerialisedMessage where
  "ex_client_message = wire nat_prims (FindGroup_serialize nat_prims) (ex_header 9) tag_FindGroup
     \<lparr>fg_requester_id = 9, fg_target_id = 4\<rparr>"

theorem client_filters_and_cannot_get_witness:
  "(\<exists>q. Client_MessageReceived list_lru word_asio nat_prims 5 ex_client_message
        (fst (Client_MessageReceived list_lru word_asio nat_prims 0 ex_client_message ex_client))
      = ((fst (Client_MessageReceived list_lru word_asio nat_prims 0 ex_client_message ex_client))\<lparr>client_filter := q\<rparr>, Inr ()))
   \<and> snd (Client_Get word_lib nat_prims (\<lambda>ty name src. GetData_new name src) 1 2 ex_client) = Inl undefined_behaviour"
proof -
  have "Client_new list_lru (Inr \<lparr>bh_database = (), last_updated = 0\<rparr>) 3 () 8 = Inr ex_client"
    by (simp add: Client_new_def ex_client_def list_lru_def)
  then have run: "client_run list_lru word_asio word_lib nat_prims ex_client" by (rule client_run_new)
  obtain stream where parse: "parse_header nat_prims ex_client_message = Some (ex_header 9, Some tag_FindGroup, stream)"
    unfolding ex_client_message_def using wire_parse [OF nat_prims_ok, where rest = "[]"] by force
  have unseen: "\<not> snd (filter_Check list_lru 0 (client_filter ex_client) (FilterValue (ex_header 9)))"
    by (simp add: list_lru_def ex_client_def)
  have later: "(5::int) < 0 + filter_time" by (simp add: filter_time_def)
  note cl = client_filters_and_cannot_get [OF run, where get_data = "\<lambda>ty name src. GetData_new name src" and type_id = 1 and name = 2
      and msg = ex_client_message and msg' = ex_client_message and now = 0 and later = 5 and keep = list_keep]
  show ?thesis
  proof
    show "\<exists>q. Client_MessageReceived list_lru word_asio nat_prims 5 ex_client_message
        (fst (Client_MessageReceived list_lru word_asio nat_prims 0 ex_client_message ex_client))
      = ((fst (Client_MessageReceived list_lru word_asio nat_prims 0 ex_client_message ex_client))\<lparr>client_filter := q\<rparr>, Inr ())"
      by (rule cl [THEN conjunct2, THEN conjunct2, rule_format], intro conjI)
        (rule list_keeps [OF refl refl] parse unseen steps_until_refl refl later)+
    show "snd (Client_Get word_lib nat_prims (\<lambda>ty name src. GetData_new name src) 1 2 ex_client) = Inl undefined_behaviour"
      using cl [THEN conjunct2, THEN conjunct1] by (simp add: word_lib_def)
  qed
qed

end
