(* ===== verification/Std_Strings.thy ===== *)
theory Std_Strings
  imports Routing_Prelude "HOL-Library.Word"
begin

section \<open>Strings and numbers of the standard library\<close>

text \<open>
  What the command line tools use of the C++ standard library: the search and the substrings of
  \<^verbatim>\<open>std::string\<close>, \<^verbatim>\<open>std::to_string\<close>, \<^verbatim>\<open>atoi\<close>, and reading a value from a line with \<^verbatim>\<open>operator>>\<close> in the
  "C" locale. An index that a search does not find is \<^verbatim>\<open>npos\<close>, the largest \<^verbatim>\<open>size_t\<close>, and adding to it
  wraps around.
\<close>

type_synonym size_t = "64 word"

definition npos :: size_t where
  "npos = - 1"

subsection \<open>Searching and cutting\<close>

fun find_index :: "string \<Rightarrow> string \<Rightarrow> nat option" where
  "find_index pat [] = (if pat = [] then Some 0 else None)"
| "find_index pat (c # s) =
     (if take (length pat) (c # s) = pat then Some 0 else map_option Suc (find_index pat s))"

definition str_find :: "string \<Rightarrow> string \<Rightarrow> size_t" where
  "str_find pat s = (case find_index pat s of None \<Rightarrow> npos | Some i \<Rightarrow> of_nat i)"

definition str_rfind :: "char \<Rightarrow> string \<Rightarrow> size_t" where
  "str_rfind c s =
     (if c \<in> set s then of_nat (length s - 1 - length (takeWhile (\<lambda>d. d \<noteq> c) (rev s))) else npos)"

definition substr :: "string \<Rightarrow> size_t \<Rightarrow> size_t \<Rightarrow> string result" where
  "substr s pos n = (if unat pos > length s then Inl out_of_range else Inr (take (unat n) (drop (unat pos) s)))"

subsection \<open>Numbers\<close>

fun to_string :: "nat \<Rightarrow> string" where
  "to_string n = (if n < 10 then [char_of (48 + n)] else to_string (n div 10) @ [char_of (48 + n mod 10)])"

declare to_string.simps [simp del]

definition is_space :: "char \<Rightarrow> bool" where
  "is_space c \<longleftrightarrow> c = CHR '' '' \<or> (9 \<le> (of_char c :: nat) \<and> (of_char c :: nat) \<le> 13)"

definition is_digit :: "char \<Rightarrow> bool" where
  "is_digit c \<longleftrightarrow> 48 \<le> (of_char c :: nat) \<and> (of_char c :: nat) \<le> 57"

definition digits_value :: "string \<Rightarrow> int" where
  "digits_value ds = foldl (\<lambda>n c. 10 * n + (int (of_char c) - 48)) 0 ds"

text \<open>Leading space, a sign, digits: whether the sign is minus, and the digits\<close>

definition scan_number :: "string \<Rightarrow> bool \<times> string" where
  "scan_number s =
     (let s1 = dropWhile is_space s in
      case s1 of
        [] \<Rightarrow> (False, [])
      | c # r \<Rightarrow>
          if c = CHR ''-'' then (True, takeWhile is_digit r)
          else if c = CHR ''+'' then (False, takeWhile is_digit r)
          else (False, takeWhile is_digit s1))"

definition signed_value :: "bool \<times> string \<Rightarrow> int" where
  "signed_value p = (if fst p then - digits_value (snd p) else digits_value (snd p))"

definition INT_MAX :: int where
  "INT_MAX = 2147483647"

definition INT_MIN :: int where
  "INT_MIN = - 2147483648"

text \<open>\<^verbatim>\<open>atoi\<close> of a string without digits is 0; of one whose value is no \<^verbatim>\<open>int\<close> it is undefined.\<close>

definition atoi :: "string \<Rightarrow> int result" where
  "atoi s =
     (let x = signed_value (scan_number s) in
      if INT_MIN \<le> x \<and> x \<le> INT_MAX then Inr x else Inl undefined_behaviour)"

subsection \<open>Reading a value from a line\<close>

text \<open>
  What \<^verbatim>\<open>std::stringstream(line) >> value\<close> assigns to the value, if anything, and whether it succeeds. At
  the end of the stream nothing is assigned; text that is no number assigns 0, and a number that is
  out of range assigns the bound. A negative number is read into an unsigned one as \<^verbatim>\<open>strtoull\<close> does.
\<close>

type_synonym 'v extraction = "string \<Rightarrow> 'v option \<times> bool"

definition extract_int :: "int extraction" where
  "extract_int s =
     (if dropWhile is_space s = [] then (None, False)
      else let p = scan_number s; x = signed_value p in
        if snd p = [] then (Some 0, False)
        else if x > INT_MAX then (Some INT_MAX, False)
        else if x < INT_MIN then (Some INT_MIN, False)
        else (Some x, True))"

definition extract_uint16 :: "16 word extraction" where
  "extract_uint16 s =
     (if dropWhile is_space s = [] then (None, False)
      else let p = scan_number s; v = digits_value (snd p); x = (if fst p then - v else v) mod 2 ^ 64 in
        if snd p = [] then (Some 0, False)
        else if v \<ge> 2 ^ 64 \<or> x > 65535 then (Some 65535, False)
        else (Some (of_int x), True))"

definition extract_string :: "string extraction" where
  "extract_string s =
     (let r = dropWhile is_space s in
      if r = [] then (None, False) else (Some (takeWhile (\<lambda>c. \<not> is_space c) r), True))"

subsection \<open>What the searches find\<close>

lemma find_index_prefix: "find_index pat (pat @ s) = Some 0"
  by (cases pat; cases s) simp_all

text \<open>A pattern is found behind a text that has none of the pattern's first character.\<close>

lemma find_index_behind:
  assumes "c \<notin> set s"
  shows "find_index (c # pat) (s @ (c # pat) @ rest) = Some (length s)"
  using assms by (induction s) (auto simp: find_index_prefix [of "c # pat", simplified])

lemma find_index_None: "c \<notin> set s \<Longrightarrow> find_index (c # pat) s = None"
  by (induction s) auto

lemma str_find_behind:
  "c \<notin> set s \<Longrightarrow> str_find (c # pat) (s @ (c # pat) @ rest) = of_nat (length s)"
  by (subst str_find_def, subst find_index_behind) simp_all

lemma substr_behind:
  assumes "length s < 2 ^ 63"
  shows "substr (s @ t) (of_nat (length s)) n = Inr (take (unat n) t)"
  using assms by (simp add: substr_def unat_of_nat)

subsection \<open>Numbers are read back\<close>

lemma digits_value_append: "digits_value (ds @ [c]) = 10 * digits_value ds + (int (of_char c) - 48)"
  by (simp add: digits_value_def)

lemma digit_char:
  assumes "d < 10"
  shows "is_digit (char_of (48 + d))" "int (of_char (char_of (48 + d :: nat))) - 48 = int d"
  using assms by (simp_all add: is_digit_def)

lemma digits_value_to_string: "digits_value (to_string n) = int n"
proof (induction n rule: to_string.induct)
  case (1 n)
  show ?case
  proof (cases "n < 10")
    case True
    then show ?thesis by (subst to_string.simps) (simp add: digits_value_def)
  next
    case False
    then show ?thesis using 1
      by (subst to_string.simps) (simp add: digits_value_append digit_char(2) of_nat_div of_nat_mod)
  qed
qed

lemma to_string_digits: "to_string n \<noteq> [] \<and> list_all is_digit (to_string n)"
proof (induction n rule: to_string.induct)
  case (1 n)
  then show ?case by (subst (1 2) to_string.simps) (auto simp: digit_char(1))
qed

lemma scan_number_to_string: "scan_number (to_string n) = (False, to_string n)"
proof -
  obtain c r where cr: "to_string n = c # r" using to_string_digits [of n] by (cases "to_string n") auto
  then have digits: "list_all is_digit (c # r)" using to_string_digits [of n] by simp
  then have "\<not> is_space c" "c \<noteq> CHR ''-''" "c \<noteq> CHR ''+''" by (auto simp: is_digit_def is_space_def)
  moreover have "takeWhile is_digit (c # r) = c # r" using digits by (simp add: takeWhile_eq_all_conv list_all_iff)
  ultimately show ?thesis unfolding cr by (simp add: scan_number_def)
qed

lemma atoi_to_string: "int n \<le> INT_MAX \<Longrightarrow> atoi (to_string n) = Inr (int n)"
  by (simp add: atoi_def scan_number_to_string signed_value_def digits_value_to_string INT_MIN_def Let_def)

lemma extract_int_to_string:
  assumes "int n \<le> INT_MAX"
  shows "extract_int (to_string n) = (Some (int n), True)"
proof -
  obtain c r where cr: "to_string n = c # r" using to_string_digits [of n] by (cases "to_string n") auto
  then have "\<not> is_space c" using to_string_digits [of n] by (auto simp: is_digit_def is_space_def)
  then have "dropWhile is_space (to_string n) \<noteq> []" by (simp add: cr)
  then show ?thesis using assms to_string_digits [of n]
    by (simp add: extract_int_def scan_number_to_string signed_value_def digits_value_to_string INT_MIN_def Let_def)
qed

end
