(* ===== verification/Tool_Bootstrap.thy ===== *)
theory Tool_Bootstrap
  imports Std_Strings Archive
begin

section \<open>The tool that makes a bootstrap file\<close>

text \<open>
  Models \<^verbatim>\<open>tools/create_bootstrap.cc\<close>: a menu that reads commands from the standard input and edits a
  list of endpoints. The state has the list, the lines that are still to be read, whether the
  terminal echoes, and what was printed, latest first. Parsing an address, and reading and writing
  the file, are done by code that is not part of the sources: they are fields of \<open>boot_lib\<close>. A
  variable that is returned without a value is undefined behaviour.
\<close>

record ('e, 'v, 'fs) boot_lib =
  from_string :: "string \<Rightarrow> 'v result"
  make_endpoint :: "'v \<Rightarrow> 16 word \<Rightarrow> 'e"
  read_contacts :: "string \<Rightarrow> 'fs \<Rightarrow> 'e list result"
  write_contacts :: "'e list \<Rightarrow> string \<Rightarrow> 'fs \<Rightarrow> 'fs \<times> unit result"

datatype 'e boot_output =
    Message string
  | ListedContact int 'e
  | InvalidOption
  | UnknownOption
  | HelpText
  | CouldNotRead
  | CouldNotWrite

record ('e, 'fs) boot_tool =
  bootstrap_contacts :: "'e list"
  input_lines :: "string list"
  echo_enabled :: bool
  printed :: "'e boot_output list"
  files :: 'fs

text \<open>How a command ends: it returns, or the program exits.\<close>

datatype 'x outcome = Returned 'x | Exited

definition print :: "'e boot_output \<Rightarrow> ('e, 'fs) boot_tool \<Rightarrow> ('e, 'fs) boot_tool" where
  "print out s = s\<lparr>printed := out # printed s\<rparr>"

definition Echo :: "bool \<Rightarrow> ('e, 'fs) boot_tool \<Rightarrow> ('e, 'fs) boot_tool" where
  "Echo enable s = s\<lparr>echo_enabled := enable\<rparr>"

text \<open>The loop of \<^verbatim>\<open>Get\<close>; \<open>command\<close> is \<open>None\<close> while the variable has no value.\<close>

fun get_loop ::
  "'v extraction \<Rightarrow> 'v option \<Rightarrow> string list \<Rightarrow> ('e, 'fs) boot_tool \<Rightarrow> ('e, 'fs) boot_tool \<times> 'v result" where
  "get_loop ext command [] s =
     (s\<lparr>input_lines := []\<rparr>, case command of None \<Rightarrow> Inl undefined_behaviour | Some v \<Rightarrow> Inr v)"
| "get_loop ext command (line # rest) s =
     (case ext line of
        (Some v, True) \<Rightarrow> (Echo True (s\<lparr>input_lines := rest\<rparr>), Inr v)
      | (new, _) \<Rightarrow>
          get_loop ext (case new of None \<Rightarrow> command | Some v \<Rightarrow> Some v) rest
            (print InvalidOption (Echo True (s\<lparr>input_lines := rest\<rparr>))))"

definition Get ::
  "'v extraction \<Rightarrow> 'v option \<Rightarrow> string \<Rightarrow> bool \<Rightarrow> ('e, 'fs) boot_tool \<Rightarrow> ('e, 'fs) boot_tool \<times> 'v result" where
  "Get ext initial display_message echo_input s =
     get_loop ext initial (input_lines s) (print (Message display_message) (Echo echo_input s))"

text \<open>\<^verbatim>\<open>Get<std::string>\<close>, \<^verbatim>\<open>Get<uint16_t>\<close> and \<^verbatim>\<open>Get<int>\<close>; only a string starts with a value.\<close>

definition Get_string :: "string \<Rightarrow> ('e, 'fs) boot_tool \<Rightarrow> ('e, 'fs) boot_tool \<times> string result" where
  "Get_string display_message = Get extract_string (Some []) display_message True"

definition Get_uint16 :: "string \<Rightarrow> ('e, 'fs) boot_tool \<Rightarrow> ('e, 'fs) boot_tool \<times> 16 word result" where
  "Get_uint16 display_message = Get extract_uint16 None display_message True"

definition Get_int :: "string \<Rightarrow> ('e, 'fs) boot_tool \<Rightarrow> ('e, 'fs) boot_tool \<times> int result" where
  "Get_int display_message = Get extract_int None display_message True"

definition bindS :: "'s \<times> 'x result \<Rightarrow> ('x \<Rightarrow> 's \<Rightarrow> 's \<times> 'y result) \<Rightarrow> 's \<times> 'y result" where
  "bindS m f = (case m of (s, Inl e) \<Rightarrow> (s, Inl e) | (s, Inr x) \<Rightarrow> f x s)"

definition AddEndPoint :: "('e, 'v, 'fs) boot_lib \<Rightarrow> ('e, 'fs) boot_tool \<Rightarrow> ('e, 'fs) boot_tool \<times> unit result" where
  "AddEndPoint B s =
     bindS (Get_string ''please enter IP addess'' s) (\<lambda>ip_address s.
     bindS (Get_uint16 ''please enter port'' s) (\<lambda>port s.
     case from_string B ip_address of
       Inl e \<Rightarrow> (s, Inl e)
     | Inr a \<Rightarrow> (s\<lparr>bootstrap_contacts := bootstrap_contacts s @ [make_endpoint B a port]\<rparr>, Inr ())))"

fun list_loop :: "int \<Rightarrow> 'e list \<Rightarrow> ('e, 'fs) boot_tool \<Rightarrow> ('e, 'fs) boot_tool" where
  "list_loop count [] s = s"
| "list_loop count (e # es) s = list_loop (count + 1) es (print (ListedContact count e) s)"

definition ListEndPoints :: "('e, 'fs) boot_tool \<Rightarrow> ('e, 'fs) boot_tool" where
  "ListEndPoints s = list_loop 1 (bootstrap_contacts s) s"

text \<open>The \<^verbatim>\<open>int\<close> that is read is converted to \<^verbatim>\<open>size_t\<close>.\<close>

definition DeleteEndPoint :: "('e, 'fs) boot_tool \<Rightarrow> ('e, 'fs) boot_tool \<times> unit result" where
  "DeleteEndPoint s =
     bindS (Get_int ''please enter ID to remove'' (ListEndPoints s)) (\<lambda>n s.
       let i = (of_int n :: size_t) in
       if i < of_nat (length (bootstrap_contacts s))
       then (s\<lparr>bootstrap_contacts := erase_at (unat i) (bootstrap_contacts s)\<rparr>, Inr ())
       else (s, Inr ()))"

definition ReadFile :: "('e, 'v, 'fs) boot_lib \<Rightarrow> ('e, 'fs) boot_tool \<Rightarrow> ('e, 'fs) boot_tool \<times> unit result" where
  "ReadFile B s =
     bindS (Get_string ''please enter filename to load'' s) (\<lambda>filename s.
       case read_contacts B filename (files s) of
         Inl e \<Rightarrow> (print CouldNotRead s, Inr ())
       | Inr contacts \<Rightarrow> (s\<lparr>bootstrap_contacts := contacts\<rparr>, Inr ()))"

definition WriteFile :: "('e, 'v, 'fs) boot_lib \<Rightarrow> ('e, 'fs) boot_tool \<Rightarrow> ('e, 'fs) boot_tool \<times> unit result" where
  "WriteFile B s =
     bindS (Get_string ''please enter filename to write'' s) (\<lambda>filename s.
       case write_contacts B (bootstrap_contacts s) filename (files s) of
         (fs, Inl e) \<Rightarrow> (print CouldNotWrite (s\<lparr>files := fs\<rparr>), Inr ())
       | (fs, Inr _) \<Rightarrow> (s\<lparr>files := fs\<rparr>, Inr ()))"

definition Process ::
  "('e, 'v, 'fs) boot_lib \<Rightarrow> int \<Rightarrow> ('e, 'fs) boot_tool \<Rightarrow> ('e, 'fs) boot_tool \<times> unit outcome result" where
  "Process B command s =
     (let ret = (\<lambda>m. bindS m (\<lambda>_ s. (s, Inr (Returned ())))) in
      if command = 0 then (s, Inr Exited)
      else if command = 1 then ret (AddEndPoint B s)
      else if command = 2 then ret (ListEndPoints s, Inr ())
      else if command = 3 then ret (DeleteEndPoint s)
      else if command = 4 then ret (WriteFile B s)
      else if command = 5 then ret (ReadFile B s)
      else ret (print HelpText (print UnknownOption s), Inr ()))"

subsection \<open>The main loop\<close>

text \<open>Every command reads a line, so the loop ends at the latest when the input does.\<close>

lemma get_loop_lines: "length (input_lines (fst (get_loop ext c lines s))) \<le> length lines - 1"
proof (induction lines arbitrary: c s)
  case (Cons line rest)
  note IH = order_trans [OF Cons.IH diff_le_self]
  show ?case by (auto simp: Echo_def IH split: prod.splits option.splits bool.splits)
qed simp

lemma Get_lines: "length (input_lines (fst (Get ext c msg b s))) \<le> length (input_lines s) - 1"
  unfolding Get_def by (rule get_loop_lines)

lemma Get_int_lines:
  assumes "snd (Get_int msg s) = Inr n"
  shows "length (input_lines (fst (Get_int msg s))) < length (input_lines s)"
proof -
  have "input_lines s \<noteq> []" using assms by (auto simp: Get_int_def Get_def)
  then show ?thesis using Get_lines [of extract_int None msg True s] by (cases "input_lines s") (auto simp: Get_int_def)
qed

lemma Get_lines_le:
  assumes "length (input_lines s) \<le> k"
  shows "length (input_lines (fst (Get_string msg s))) \<le> k" "length (input_lines (fst (Get_uint16 msg s))) \<le> k"
    "length (input_lines (fst (Get_int msg s))) \<le> k"
  unfolding Get_string_def Get_uint16_def Get_int_def
  using assms by (meson Get_lines diff_le_self order_trans)+

lemma bindS_lines:
  assumes "length (input_lines (fst m)) \<le> k"
    "\<And>x s. length (input_lines s) \<le> k \<Longrightarrow> length (input_lines (fst (f x s))) \<le> k"
  shows "length (input_lines (fst (bindS m f))) \<le> k"
  using assms by (cases m; cases "snd m") (auto simp: bindS_def)

lemma list_loop_keeps: "input_lines (list_loop n es s) = input_lines s" "bootstrap_contacts (list_loop n es s) = bootstrap_contacts s"
  by (induction n es s rule: list_loop.induct) (simp_all add: print_def)

lemma Process_lines: "length (input_lines (fst (Process B command s))) \<le> length (input_lines s)"
proof -
  have "length (input_lines (fst (AddEndPoint B s))) \<le> length (input_lines s)"
    "length (input_lines (fst (DeleteEndPoint s))) \<le> length (input_lines s)"
    "length (input_lines (fst (ReadFile B s))) \<le> length (input_lines s)"
    "length (input_lines (fst (WriteFile B s))) \<le> length (input_lines s)"
    unfolding AddEndPoint_def DeleteEndPoint_def ReadFile_def WriteFile_def
    by (auto intro!: bindS_lines Get_lines_le simp: ListEndPoints_def list_loop_keeps Let_def print_def split: sum.splits prod.splits)
  then show ?thesis
    by (auto simp: Process_def Let_def print_def ListEndPoints_def list_loop_keeps intro!: bindS_lines)
qed

lemma main_lines:
  "(s1, Inr n) = Get_int msg s \<Longrightarrow> length (input_lines s1) < length (input_lines s)"
  "(s2, r) = Process B n s1 \<Longrightarrow> length (input_lines s2) \<le> length (input_lines s1)"
  using Get_int_lines [of msg s n] Process_lines [of B n s1] by (metis fst_conv snd_conv)+

function tool_main :: "('e, 'v, 'fs) boot_lib \<Rightarrow> ('e, 'fs) boot_tool \<Rightarrow> ('e, 'fs) boot_tool \<times> error option" where
  "tool_main B s =
     (case Get_int [] (print HelpText (Echo True s)) of
        (s1, Inl e) \<Rightarrow> (s1, Some e)
      | (s1, Inr command) \<Rightarrow>
          (case Process B command s1 of
             (s2, Inl e) \<Rightarrow> (s2, Some e)
           | (s2, Inr Exited) \<Rightarrow> (s2, None)
           | (s2, Inr (Returned _)) \<Rightarrow> tool_main B s2))"
  by pat_completeness auto

termination
  by (relation "measure (\<lambda>(B, s). length (input_lines s))") (auto dest!: main_lines simp: print_def Echo_def)

subsection \<open>Properties\<close>

lemma list_loop_prints:
  "i < length es \<Longrightarrow> ListedContact (n + int i) (es ! i) \<in> set (printed (list_loop n es s))"
  "set (printed s) \<subseteq> set (printed (list_loop n es s))"
proof (induction es arbitrary: n s i)
  case (Cons e es)
  { case 1
    show ?case
    proof (cases i)
      case 0
      then show ?thesis using Cons.IH(2) [of "print (ListedContact n e) s" "n + 1"] by (auto simp: print_def)
    next
      case (Suc j)
      then show ?thesis using Cons.IH(1) [of j "n + 1"] 1 by (simp add: algebra_simps)
    qed
  next
    case 2
    show ?case using Cons.IH(2) [of "print (ListedContact n e) s" "n + 1"] by (auto simp: print_def) }
qed simp_all

lemma Get_int_number:
  assumes "input_lines s = to_string n # rest" "int n \<le> INT_MAX"
  shows "Get_int msg s = (Echo True ((print (Message msg) (Echo True s))\<lparr>input_lines := rest\<rparr>), Inr (int n))"
  using assms by (simp add: Get_int_def Get_def extract_int_to_string)

text \<open>
  C37. Deleting an endpoint by the number it is listed under removes the next one: \<^verbatim>\<open>DeleteEndPoint\<close>
  lists the endpoints from 1 and takes the number that is entered as an index from 0. So the
  endpoint that was asked for stays, the one listed after it goes, and for the last number nothing
  is removed.
\<close>

theorem delete_removes_the_next:
  assumes "input_lines s = to_string n # rest" "1 \<le> n" "n \<le> length (bootstrap_contacts s)"
    "int (length (bootstrap_contacts s)) \<le> INT_MAX"
  shows "ListedContact (int n) (bootstrap_contacts s ! (n - 1)) \<in> set (printed (fst (DeleteEndPoint s)))
    \<and> snd (DeleteEndPoint s) = Inr () \<and> input_lines (fst (DeleteEndPoint s)) = rest
    \<and> bootstrap_contacts (fst (DeleteEndPoint s)) =
        (if n < length (bootstrap_contacts s) then take n (bootstrap_contacts s) @ drop (Suc n) (bootstrap_contacts s)
         else bootstrap_contacts s)"
proof -
  let ?cs = "bootstrap_contacts s"
  have small: "n < 2 ^ 64" "length ?cs < 2 ^ 64" using assms(3,4) by (simp_all add: INT_MAX_def)
  have get: "Get_int ''please enter ID to remove'' (ListEndPoints s) =
      (Echo True ((print (Message ''please enter ID to remove'') (Echo True (ListEndPoints s)))\<lparr>input_lines := rest\<rparr>), Inr (int n))"
    using assms by (intro Get_int_number) (simp_all add: ListEndPoints_def list_loop_keeps)
  have less: "((of_nat n :: size_t) < of_nat (length ?cs)) = (n < length ?cs)" "unat (of_nat n :: size_t) = n"
    using small by (simp_all add: word_less_nat_alt unat_of_nat)
  have listed: "ListedContact (int n) (?cs ! (n - 1)) \<in> set (printed (ListEndPoints s))"
    using list_loop_prints(1) [of "n - 1" ?cs 1 s] assms(2,3) by (simp add: ListEndPoints_def of_nat_diff)
  have kept: "bootstrap_contacts (ListEndPoints s) = ?cs" by (simp add: ListEndPoints_def list_loop_keeps)
  show ?thesis
    using listed by (simp add: DeleteEndPoint_def get bindS_def kept less Echo_def print_def erase_at_def Let_def)
qed

definition ex_boot_tool :: "(nat, unit) boot_tool" where
  "ex_boot_tool = \<lparr>bootstrap_contacts = [10, 11, 12], input_lines = [to_string 1], echo_enabled = True, printed = [], files = ()\<rparr>"

theorem delete_removes_the_next_witness:
  "ListedContact 1 10 \<in> set (printed (fst (DeleteEndPoint ex_boot_tool)))
   \<and> bootstrap_contacts (fst (DeleteEndPoint ex_boot_tool)) = [10, 12]"
  using delete_removes_the_next [of ex_boot_tool 1 "[]"] by (simp add: ex_boot_tool_def INT_MAX_def)

end
