(* ===== verification/Shared_Response.thy ===== *)
theory Shared_Response
  imports Std_Strings
begin

section \<open>Collecting the responses to a message\<close>

text \<open>
  Models \<^verbatim>\<open>tools/shared_response.h\<close> and \<^verbatim>\<open>tools/shared_response.cc\<close>, with the text of a reply as the
  constructor of \<^verbatim>\<open>Commands\<close> makes it. Times are in microseconds; the time of a call, and the
  timeout of \<^verbatim>\<open>Parameters\<close> in milliseconds, are arguments. \<open>id_lib\<close> has what the code calls of classes that
  are not part of the sources. The output of a call is a list; the rates it prints are left out.
\<close>

record 'a id_lib =
  address_of :: "string \<Rightarrow> 'a result"
  address_string :: "'a \<Rightarrow> string"
  DeserializeNodeIdList :: "string \<Rightarrow> 'a list result"
  group_size :: nat

record 'a SharedResponse =
  closest_nodes :: "'a list"
  responded_nodes :: "'a set"
  expected_responses :: "32 word"
  msg_send_time :: int
  average_response_time :: int

datatype 'a response_output =
    ResponseFrom 'a bool
  | AverageTime size_t
  | TableEntry 'a
  | MessageFrom 'a
  | WrongMessage 'a
  | DirectCompleted 'a int nat
  | TimedOut 'a int nat
  | OnlyReceived nat int
  | GroupCompleted size_t int

definition SharedResponse_new :: "'a list \<Rightarrow> 32 word \<Rightarrow> int \<Rightarrow> 'a SharedResponse" where
  "SharedResponse_new closest expect_responses now =
     \<lparr>closest_nodes = closest, responded_nodes = {}, expected_responses = expect_responses, msg_send_time = now,
      average_response_time = 0\<rparr>"

definition total_milliseconds :: "int \<Rightarrow> int" where
  "total_milliseconds d = (if d < 0 then - (- d div 1000) else d div 1000)"

text \<open>\<^verbatim>\<open>total_milliseconds() / responded_nodes_.size()\<close> is computed in \<^verbatim>\<open>size_t\<close>.\<close>

definition mean_milliseconds :: "'a SharedResponse \<Rightarrow> size_t" where
  "mean_milliseconds sr = of_int (total_milliseconds (average_response_time sr)) div of_nat (card (responded_nodes sr))"

definition CheckAndPrintResult :: "'a::linorder SharedResponse \<Rightarrow> 'a response_output list" where
  "CheckAndPrintResult sr =
     (if responded_nodes sr = {} then []
      else map (\<lambda>n. ResponseFrom n (n \<in> set (closest_nodes sr))) (sorted_list_of_set (responded_nodes sr))
        @ [AverageTime (mean_milliseconds sr)])"

text \<open>\<^verbatim>\<open>response.find(...) + 3\<close> is computed in \<^verbatim>\<open>size_t\<close>.\<close>

definition PrintRoutingTable_response :: "'a id_lib \<Rightarrow> string \<Rightarrow> 'a response_output list result" where
  "PrintRoutingTable_response I response =
     (if str_find ''request_routing_table'' response \<noteq> npos then
        let from = str_find ''---'' response + 3 in
        bindR (substr response from (of_nat (length response) - from)) (\<lambda>text.
        bindR (DeserializeNodeIdList I text) (\<lambda>node_list. Inr (map TableEntry node_list)))
      else Inr [])"

definition response_id :: "string \<Rightarrow> string result" where
  "response_id response = substr response (str_find ''+++'' response + 3) 64"

definition CollectResponse ::
  "'a id_lib \<Rightarrow> int \<Rightarrow> int \<Rightarrow> string \<Rightarrow> bool \<Rightarrow> 'a SharedResponse \<Rightarrow>
   ('a SharedResponse \<times> bool \<times> 'a response_output list) result" where
  "CollectResponse I timeout now response print_performance sr =
     bindR (response_id response) (\<lambda>text. bindR (address_of I text) (\<lambda>node_id.
       let duration = total_milliseconds (now - msg_send_time sr) in
       if duration < timeout then
         (if node_id \<in> responded_nodes sr then Inr (sr, False, [MessageFrom node_id, WrongMessage node_id])
          else Inr (sr\<lparr>responded_nodes := insert node_id (responded_nodes sr),
                       average_response_time := average_response_time sr + (now - msg_send_time sr)\<rparr>,
                    True, MessageFrom node_id # (if print_performance then [DirectCompleted node_id duration (length response)] else [])))
       else Inr (sr, True, [MessageFrom node_id, TimedOut node_id (duration div 1000) (length response)])))"

definition PrintGroupPerformance :: "'a id_lib \<Rightarrow> int \<Rightarrow> 'a SharedResponse \<Rightarrow> 'a response_output list result" where
  "PrintGroupPerformance I data_size sr =
     (if card (responded_nodes sr) < group_size I then Inr [OnlyReceived (card (responded_nodes sr)) data_size]
      else if responded_nodes sr = {} then Inl undefined_behaviour
      else Inr [GroupCompleted (mean_milliseconds sr) data_size])"

text \<open>The functor that the constructor of \<^verbatim>\<open>Commands\<close> gives the node for messages that arrive\<close>

definition reply :: "string \<Rightarrow> string \<Rightarrow> string \<Rightarrow> string" where
  "reply own_address routing_table wrapped_message =
     (let reply_msg = wrapped_message @ ''+++'' @ own_address in
      if str_find ''request_routing_table'' wrapped_message \<noteq> npos then reply_msg @ ''---'' @ routing_table
      else reply_msg)"

subsection \<open>The address in a reply\<close>

lemma reply_eq: "\<exists>tail. reply own table msg = msg @ ''+++'' @ own @ tail"
  by (simp add: reply_def Let_def)

lemma response_id_reply:
  assumes "CHR ''+'' \<notin> set msg" "length own = 64" "length msg < 2 ^ 62"
  shows "response_id (reply own table msg) = Inr own"
proof -
  obtain tail where r: "reply own table msg = msg @ ''+++'' @ own @ tail" using reply_eq by blast
  have "str_find ''+++'' (msg @ ''+++'' @ own @ tail) = of_nat (length msg)"
    using str_find_behind [OF assms(1), of "''++''"] by simp
  moreover have "substr ((msg @ ''+++'') @ own @ tail) (of_nat (length (msg @ ''+++''))) 64 = Inr (take 64 (own @ tail))"
    using assms(3) by (subst substr_behind) simp_all
  ultimately show ?thesis using assms(2) by (simp add: response_id_def r add.commute)
qed

text \<open>
  A node counts once: after a reply that came in time, a second reply of the same node, also to another
  message, is reported as wrong and changes nothing.
\<close>

lemma reply_counted_once:
  assumes "CollectResponse I timeout now (reply own table msg) b sr = Inr (sr1, ok, out)" "address_of I own = Inr a"
    "CHR ''+'' \<notin> set msg" "CHR ''+'' \<notin> set msg'" "length own = 64" "length msg < 2 ^ 62" "length msg' < 2 ^ 62"
    "total_milliseconds (now - msg_send_time sr) < timeout" "total_milliseconds (now' - msg_send_time sr) < timeout"
  shows "CollectResponse I timeout now' (reply own table' msg') b' sr1 = Inr (sr1, False, [MessageFrom a, WrongMessage a])"
proof -
  have "a \<in> responded_nodes sr1" "msg_send_time sr1 = msg_send_time sr"
    using assms by (auto simp: CollectResponse_def response_id_reply Let_def split: if_splits)
  then show ?thesis using assms by (simp add: CollectResponse_def response_id_reply Let_def)
qed

end
