(* ===== verification/Tool_Node.thy ===== *)
theory Tool_Node
  imports Std_Strings
begin

section \<open>The key tool and the start of the demo node\<close>

text \<open>
  Models \<^verbatim>\<open>tools/key_helper.cc\<close> and the \<^verbatim>\<open>main\<close> of \<^verbatim>\<open>tools/routing_node.cc\<close> up to where the commands of
  the demo node run; \<open>node_program\<close> of \<open>Tool_Commands\<close> is the whole of it. The parser of the options, the key
  chains of maidsafe-passport and the file system are not part of the sources: they are fields of
  \<open>key_lib\<close>. A variables map gives for an option its value and whether the value is the default. \<open>'key\<close> is
  \<^verbatim>\<open>AnmaidToPmid\<close>, and \<open>create_key\<close> its default constructor, by the number of the call in the process.
\<close>

datatype po_value = Given | Bool_value bool | Int_value int | Size_value size_t | String_value string

type_synonym variables_map = "string \<Rightarrow> (po_value \<times> bool) option"

record ('key, 'fs) key_lib =
  parse_options :: "string list \<Rightarrow> variables_map result"
  create_key :: "nat \<Rightarrow> 'key result"
  path_option :: "variables_map \<Rightarrow> string result"
  file_exists :: "string \<Rightarrow> 'fs \<Rightarrow> bool"
  read_keys :: "string \<Rightarrow> 'fs \<Rightarrow> 'key list result"
  write_keys :: "string \<Rightarrow> 'key list \<Rightarrow> 'fs \<Rightarrow> 'fs \<times> bool"
  remove_file :: "string \<Rightarrow> 'fs \<Rightarrow> 'fs \<times> bool"

definition counted :: "variables_map \<Rightarrow> string \<Rightarrow> bool" where
  "counted vm opt \<longleftrightarrow> vm opt \<noteq> None"

definition defaulted :: "variables_map \<Rightarrow> string \<Rightarrow> bool" where
  "defaulted vm opt = (case vm opt of None \<Rightarrow> False | Some (v, d) \<Rightarrow> d)"

subsection \<open>The key tool\<close>

datatype 'key key_output =
    HelperVersion
  | OptionsText
  | Created nat
  | Wrote string
  | CouldNotWriteKeys string
  | CouldNotCreate
  | Loaded nat
  | CouldNotLoad string
  | PrintedKey nat 'key bool
  | Deleted string
  | CouldNotDelete string
  | ErrorText error

fun PrintKeys_from :: "nat \<Rightarrow> 'key list \<Rightarrow> 'key key_output list" where
  "PrintKeys_from i [] = []"
| "PrintKeys_from i (k # ks) = PrintedKey i k (i < 2) # PrintKeys_from (Suc i) ks"

definition PrintKeys :: "'key list \<Rightarrow> 'key key_output list" where
  "PrintKeys all_keys = PrintKeys_from 0 all_keys"

text \<open>The keys made so far stay in the vector when one cannot be made.\<close>

fun create_loop :: "('key, 'fs) key_lib \<Rightarrow> nat \<Rightarrow> nat \<Rightarrow> 'key list \<Rightarrow> 'key list \<times> bool" where
  "create_loop K i 0 all_keys = (all_keys, True)"
| "create_loop K i (Suc n) all_keys =
     (case create_key K i of
        Inl e \<Rightarrow> (all_keys, False)
      | Inr k \<Rightarrow> create_loop K (Suc i) n (all_keys @ [k]))"

definition CreateKeys :: "('key, 'fs) key_lib \<Rightarrow> size_t \<Rightarrow> 'key list \<times> bool" where
  "CreateKeys K keys_count = create_loop K 0 (unat keys_count) []"

definition pmids_count :: "variables_map \<Rightarrow> size_t" where
  "pmids_count vm = (case vm ''pmids_count'' of Some (Size_value n, _) \<Rightarrow> n | _ \<Rightarrow> 12)"

text \<open>The commands in the order \<^verbatim>\<open>[c|l] p d\<close>; with the files and the output they leave\<close>

definition run_commands ::
  "('key, 'fs) key_lib \<Rightarrow> variables_map \<Rightarrow> string \<Rightarrow> 'fs \<Rightarrow> 'fs \<times> 'key key_output list" where
  "run_commands K vm pmids_path fs =
     (let (fs1, all_keys, out1) =
        (if counted vm ''create'' then
           (case CreateKeys K (pmids_count vm) of
              (keys, True) \<Rightarrow>
                (case write_keys K pmids_path keys fs of
                   (fs', True) \<Rightarrow> (fs', keys, [Created (length keys), Wrote pmids_path])
                 | (fs', False) \<Rightarrow> (fs', keys, [Created (length keys), CouldNotWriteKeys pmids_path]))
            | (keys, False) \<Rightarrow> (fs, keys, [CouldNotCreate]))
         else if counted vm ''load'' then
           (case read_keys K pmids_path fs of
              Inr keys \<Rightarrow> (fs, keys, [Loaded (length keys)])
            | Inl e \<Rightarrow> (fs, [], [CouldNotLoad pmids_path]))
         else (fs, [], []));
        out2 = (if counted vm ''print'' then PrintKeys all_keys else []);
        (fs3, out3) =
          (if counted vm ''delete'' then
             (case remove_file K pmids_path fs1 of
                (fs', True) \<Rightarrow> (fs', [Deleted pmids_path])
              | (fs', False) \<Rightarrow> (fs', [CouldNotDelete pmids_path]))
           else (fs1, []))
      in (fs3, out1 @ out2 @ out3))"

definition key_main :: "('key, 'fs) key_lib \<Rightarrow> string list \<Rightarrow> 'fs \<Rightarrow> 'fs \<times> 'key key_output list \<times> int" where
  "key_main K argv fs =
     (case parse_options K argv of
        Inl e \<Rightarrow> (fs, [HelperVersion, ErrorText e], -2)
      | Inr vm \<Rightarrow>
          if counted vm ''help'' \<or> \<not> counted vm ''create'' \<and> \<not> counted vm ''load'' \<and> \<not> counted vm ''delete''
             \<and> \<not> counted vm ''print''
          then (fs, [HelperVersion, OptionsText], 0)
          else (case path_option K vm of
             Inl e \<Rightarrow> (fs, [HelperVersion, ErrorText e], -2)
           | Inr pmids_path \<Rightarrow>
               (let (fs', out) = run_commands K vm pmids_path fs in (fs', HelperVersion # out, 0))))"

subsection \<open>The start of the demo node\<close>

datatype option_error = Conflicting string string | Requires string string

definition ConflictingOptions :: "variables_map \<Rightarrow> string \<Rightarrow> string \<Rightarrow> option_error + unit" where
  "ConflictingOptions vm opt1 opt2 =
     (if counted vm opt1 \<and> \<not> defaulted vm opt1 \<and> counted vm opt2 \<and> \<not> defaulted vm opt2
      then Inl (Conflicting opt1 opt2) else Inr ())"

definition OptionDependency :: "variables_map \<Rightarrow> string \<Rightarrow> string \<Rightarrow> option_error + unit" where
  "OptionDependency vm for_what required_option =
     (if counted vm for_what \<and> \<not> defaulted vm for_what
      then (if \<not> counted vm required_option \<or> defaulted vm required_option
            then Inl (Requires for_what required_option) else Inr ())
      else Inr ())"

text \<open>How \<^verbatim>\<open>main\<close> goes on: it returns 0 or -1 with a message, or the node starts.\<close>

datatype ('key, 'g) node_start =
    ShowOptions
  | Failed error
  | BadOptions option_error
  | CannotReadKeys
  | NoKeys
  | NoKeyFile
  | IndexExceedsPool
  | NotAClientIndex
  | NotAVaultIndex
  | NotABootstrapIndex
  | Starts bool 'key 'g int string "'key list"

fun return_code :: "('key, 'g) node_start \<Rightarrow> int" where
  "return_code (Failed e) = -1"
| "return_code (BadOptions e) = -1"
| "return_code _ = 0"

definition identity_index :: "variables_map \<Rightarrow> int" where
  "identity_index vm = (case vm ''identity_index'' of Some (Int_value i, _) \<Rightarrow> i | _ \<Rightarrow> -1)"

text \<open>\<^verbatim>\<open>local_key\<close> is default-constructed first, which makes a key chain that is then replaced.\<close>

definition load_keys :: "('key, 'fs) key_lib \<Rightarrow> variables_map \<Rightarrow> 'fs \<Rightarrow> ('key, 'g) node_start + 'key list" where
  "load_keys K vm fs =
     (case create_key K 0 of
        Inl e \<Rightarrow> Inl (Failed e)
      | Inr _ \<Rightarrow>
     (case path_option K vm of
        Inl e \<Rightarrow> Inl (Failed e)
      | Inr pmids_path \<Rightarrow>
          if file_exists K pmids_path fs then
            (case read_keys K pmids_path fs of
               Inl e \<Rightarrow> Inl CannotReadKeys
             | Inr all_keys \<Rightarrow>
                 if all_keys = [] then Inl NoKeys
                 else if unat (of_int (identity_index vm) :: 32 word) \<ge> length all_keys \<or> identity_index vm < 0
                 then Inl IndexExceedsPool
                 else Inr all_keys)
          else Inl NoKeyFile))"

definition check_options :: "variables_map \<Rightarrow> option_error + unit" where
  "check_options vm =
     (case ConflictingOptions vm ''client'' ''bootstrap'' of
        Inl e \<Rightarrow> Inl e
      | Inr _ \<Rightarrow>
          (case OptionDependency vm ''start'' ''identity_index'' of
             Inl e \<Rightarrow> Inl e
           | Inr _ \<Rightarrow> OptionDependency vm ''peer'' ''identity_index''))"

text \<open>
  \<open>make_node\<close> is the constructor of \<^verbatim>\<open>GenericNode\<close>, for a client with the \<^verbatim>\<open>maid\<close> and for a vault with the \<^verbatim>\<open>pmid\<close>
  of the key chain; it may throw. The index of a bootstrap node is checked after it.
\<close>

definition node_main ::
  "('key, 'fs) key_lib \<Rightarrow> (bool \<Rightarrow> 'key \<Rightarrow> 'g result) \<Rightarrow> string list \<Rightarrow> 'fs \<Rightarrow> ('key, 'g) node_start" where
  "node_main K make_node argv fs =
     (case parse_options K argv of
        Inl e \<Rightarrow> Failed e
      | Inr vm \<Rightarrow>
          if counted vm ''help'' \<or> \<not> counted vm ''start'' then ShowOptions
          else (case load_keys K vm fs of
             Inl r \<Rightarrow> r
           | Inr all_keys \<Rightarrow>
               (case check_options vm of
                  Inl e \<Rightarrow> BadOptions e
                | Inr _ \<Rightarrow>
                    let i = identity_index vm; local_key = all_keys ! nat i; half = sint (of_nat (length all_keys div 2) :: 32 word);
                        client_only_node = (case vm ''client'' of Some (Bool_value b, _) \<Rightarrow> b | _ \<Rightarrow> False);
                        peer = (case vm ''peer'' of Some (String_value p, _) \<Rightarrow> p | _ \<Rightarrow> [])
                    in if client_only_node \<and> i < half then NotAClientIndex
                       else if \<not> client_only_node \<and> i \<ge> half then NotAVaultIndex
                       else (case make_node client_only_node local_key of
                           Inl e \<Rightarrow> Failed e
                         | Inr demo_node \<Rightarrow>
                             if counted vm ''bootstrap'' \<and> i \<ge> 2 then NotABootstrapIndex
                             else Starts client_only_node local_key demo_node i peer all_keys))))"

subsection \<open>What is relied on of the option parser\<close>

text \<open>
  The declared options have the declared types; one that is not given has its declared default and
  is marked so; \<open>client\<close> is a switch.
\<close>

definition options_ok :: "variables_map \<Rightarrow> bool" where
  "options_ok vm \<longleftrightarrow>
     (\<exists>i d. vm ''identity_index'' = Some (Int_value i, d) \<and> (d \<longrightarrow> i = -1) \<and> INT_MIN \<le> i \<and> i \<le> INT_MAX)
     \<and> (\<exists>b. vm ''client'' = Some (Bool_value b, \<not> b))
     \<and> (\<exists>p d. vm ''peer'' = Some (String_value p, d))
     \<and> (\<forall>v d. vm ''bootstrap'' = Some (v, d) \<longrightarrow> \<not> d) \<and> (\<forall>v d. vm ''start'' = Some (v, d) \<longrightarrow> \<not> d)"

definition is_client :: "variables_map \<Rightarrow> bool" where
  "is_client vm \<longleftrightarrow> (\<exists>d. vm ''client'' = Some (Bool_value True, d))"

lemma options_okE:
  assumes "options_ok vm"
  obtains i d b p d' where "vm ''identity_index'' = Some (Int_value i, d)" "d \<Longrightarrow> i = -1" "INT_MIN \<le> i" "i \<le> INT_MAX"
    "vm ''client'' = Some (Bool_value b, \<not> b)" "vm ''peer'' = Some (String_value p, d')"
    "\<And>v d. vm ''bootstrap'' = Some (v, d) \<Longrightarrow> \<not> d"
  using assms unfolding options_ok_def by blast

lemma index_in_pool:
  assumes "i \<le> INT_MAX"
  shows "unat (of_int i :: 32 word) \<ge> n \<or> i < 0 \<longleftrightarrow> \<not> (0 \<le> i \<and> i < int n)"
proof (cases "i < 0")
  case False
  then obtain k where k: "i = int k" by (cases i) auto
  have "unat (of_nat k :: 32 word) = k" using assms k by (simp add: unat_of_nat INT_MAX_def)
  then show ?thesis using k by (simp add: not_less)
qed simp

lemma half_index: "int n \<le> INT_MAX \<Longrightarrow> sint (of_nat (n div 2) :: 32 word) = int (n div 2)"
  by (simp add: sint_uint unsigned_of_nat take_bit_nat_eq_self signed_take_bit_int_eq_self INT_MAX_def)

text \<open>With an index in the pool the dependencies on \<open>identity_index\<close> hold.\<close>

lemma check_options_eq:
  assumes "options_ok vm" "0 \<le> identity_index vm"
  shows "check_options vm = (if is_client vm \<and> counted vm ''bootstrap'' then Inl (Conflicting ''client'' ''bootstrap'') else Inr ())"
proof -
  from assms(1) obtain i d b p d' where o: "vm ''identity_index'' = Some (Int_value i, d)" "d \<Longrightarrow> i = -1"
    "vm ''client'' = Some (Bool_value b, \<not> b)" "\<And>v d. vm ''bootstrap'' = Some (v, d) \<Longrightarrow> \<not> d"
    by (rule options_okE) blast
  then have "\<not> d" using assms(2) by (auto simp: identity_index_def)
  then show ?thesis using o
    by (auto simp: check_options_def ConflictingOptions_def OptionDependency_def counted_def defaulted_def is_client_def
        split: option.splits)
qed

subsection \<open>Who starts\<close>

text \<open>
  The demo node starts exactly for the identities that are meant: \<^verbatim>\<open>start\<close> is given and \<^verbatim>\<open>help\<close> is
  not, a key chain and the node can be made, the key file exists and can be read, the index lies in the
  pool, a vault takes one of the first half of the keys and a client one of the second half, a bootstrap
  node one of the first two and is no client; then it uses the key with that index. The checks that
  \<^verbatim>\<open>start\<close> and \<^verbatim>\<open>peer\<close> come with an index never fail, because a missing index was refused before.
\<close>

lemma node_starts_iff:
  assumes "parse_options K argv = Inr vm" "options_ok vm" "path_option K vm = Inr path"
    "read_keys K path fs = Inr keys" "int (length keys) \<le> INT_MAX"
  shows "((\<exists>cl key g i peer all_keys. node_main K make_node argv fs = Starts cl key g i peer all_keys) \<longleftrightarrow>
      counted vm ''start'' \<and> \<not> counted vm ''help'' \<and> (\<exists>k. create_key K 0 = Inr k) \<and> file_exists K path fs
      \<and> 0 \<le> identity_index vm \<and> identity_index vm < int (length keys)
      \<and> (is_client vm \<longleftrightarrow> int (length keys div 2) \<le> identity_index vm)
      \<and> (\<exists>g. make_node (is_client vm) (keys ! nat (identity_index vm)) = Inr g)
      \<and> (counted vm ''bootstrap'' \<longrightarrow> identity_index vm < 2 \<and> \<not> is_client vm))
    \<and> (node_main K make_node argv fs = Starts cl key g i peer all_keys \<longrightarrow>
        all_keys = keys \<and> cl = is_client vm \<and> i = identity_index vm \<and> nat i < length keys \<and> key = keys ! nat i
        \<and> make_node cl key = Inr g)
    \<and> node_main K make_node argv fs \<noteq> BadOptions (Requires a b)"
proof -
  let ?i = "identity_index vm" and ?half = "int (length keys div 2)"
  from assms(2) obtain i0 d bo p d' where o: "vm ''identity_index'' = Some (Int_value i0, d)" "i0 \<le> INT_MAX"
    "vm ''client'' = Some (Bool_value bo, \<not> bo)" "vm ''peer'' = Some (String_value p, d')"
    by (rule options_okE) blast
  have index: "?i = i0" using o(1) by (simp add: identity_index_def)
  have client: "is_client vm = bo" using o(3) by (auto simp: is_client_def)
  show ?thesis
  proof (cases "create_key K 0")
    case (Inl e)
    then show ?thesis using assms(1) by (simp add: node_main_def load_keys_def)
  next
    case (Inr k)
    have load: "load_keys K vm fs = (if \<not> file_exists K path fs then Inl NoKeyFile else if keys = [] then Inl NoKeys
        else if 0 \<le> ?i \<and> ?i < int (length keys) then Inr keys else Inl IndexExceedsPool)"
      using assms(3,4) index_in_pool [OF o(2)] by (simp add: load_keys_def Inr index del: not_less not_le)
    have main: "node_main K make_node argv fs =
        (if counted vm ''help'' \<or> \<not> counted vm ''start'' then ShowOptions
         else if \<not> file_exists K path fs then NoKeyFile else if keys = [] then NoKeys
         else if \<not> (0 \<le> ?i \<and> ?i < int (length keys)) then IndexExceedsPool
         else if bo \<and> counted vm ''bootstrap'' then BadOptions (Conflicting ''client'' ''bootstrap'')
         else if bo \<and> ?i < ?half then NotAClientIndex
         else if \<not> bo \<and> ?half \<le> ?i then NotAVaultIndex
         else (case make_node bo (keys ! nat ?i) of
             Inl e \<Rightarrow> Failed e
           | Inr g \<Rightarrow> if counted vm ''bootstrap'' \<and> 2 \<le> ?i then NotABootstrapIndex else Starts bo (keys ! nat ?i) g ?i p keys))"
      using assms(1) o(3,4) check_options_eq [OF assms(2)]
      by (cases bo; cases "make_node bo (keys ! nat ?i)") (simp_all add: node_main_def load client half_index [OF assms(5)] Let_def)
    show ?thesis unfolding main client using Inr by (cases "make_node bo (keys ! nat ?i)"; cases "keys = []") (auto simp: nat_less_iff)
  qed
qed

definition ex_options :: variables_map where
  "ex_options = [''start'' \<mapsto> (Given, False), ''client'' \<mapsto> (Bool_value False, True), ''peer'' \<mapsto> (String_value [], True),
     ''identity_index'' \<mapsto> (Int_value 1, False), ''bootstrap'' \<mapsto> (Given, False)]"

definition ex_key_lib :: "(nat, unit) key_lib" where
  "ex_key_lib = \<lparr>parse_options = (\<lambda>argv. Inr ex_options), create_key = (\<lambda>i. Inr i), path_option = (\<lambda>vm. Inr ''keys''),
     file_exists = (\<lambda>path fs. True), read_keys = (\<lambda>path fs. Inr [20, 21, 22, 23]), write_keys = (\<lambda>path keys fs. (fs, True)),
     remove_file = (\<lambda>path fs. (fs, True))\<rparr>"

lemma ex_options_ok: "options_ok ex_options"
  by (auto simp: options_ok_def ex_options_def INT_MIN_def INT_MAX_def)

lemma node_starts_iff_witness:
  "(\<exists>cl key g i peer all_keys. node_main ex_key_lib (\<lambda>cl k. Inr k) [] () = Starts cl key g i peer all_keys)
   \<and> node_main ex_key_lib (\<lambda>cl k. Inr k) [] () \<noteq> BadOptions (Requires ''start'' ''identity_index'')"
proof -
  have lib: "parse_options ex_key_lib [] = Inr ex_options" "path_option ex_key_lib ex_options = Inr ''keys''"
    "read_keys ex_key_lib ''keys'' () = Inr [20, 21, 22, 23]" "int (length [20, 21, 22, 23 :: nat]) \<le> INT_MAX"
    by (simp_all add: ex_key_lib_def INT_MAX_def)
  show ?thesis
    using node_starts_iff [OF lib(1) ex_options_ok lib(2-4), where make_node = "\<lambda>cl k. Inr k"]
    by (simp add: ex_options_def counted_def identity_index_def is_client_def ex_key_lib_def)
qed

subsection \<open>From the key tool to the demo node\<close>

text \<open>
  What is relied on of the key chain files of maidsafe-passport: a list that was written is there
  and is read back.
\<close>

definition key_files_ok :: "('key, 'fs) key_lib \<Rightarrow> bool" where
  "key_files_ok K \<longleftrightarrow> (\<forall>path keys fs fs'. write_keys K path keys fs = (fs', True) \<longrightarrow>
     file_exists K path fs' \<and> read_keys K path fs' = Inr keys)"

lemma create_loop_all:
  assumes "\<And>j. j < n \<Longrightarrow> create_key K (i + j) = Inr (key (i + j))"
  shows "create_loop K i n ks = (ks @ map key [i..<i + n], True)"
  using assms
proof (induction n arbitrary: i ks)
  case (Suc n)
  have "create_key K i = Inr (key i)" using Suc.prems [of 0] by simp
  moreover have "create_loop K (Suc i) n (ks @ [key i]) = ((ks @ [key i]) @ map key [Suc i..<Suc i + n], True)"
    using Suc.prems [of "Suc j" for j] by (intro Suc.IH) simp
  moreover have "[i..<i + Suc n] = i # [Suc i..<Suc i + n]" by (simp add: upt_conv_Cons del: upt_Suc)
  ultimately show ?case by (simp del: upt_Suc)
qed simp

lemma key_main_creates:
  assumes "parse_options K argv = Inr vm" "counted vm ''create''" "\<not> counted vm ''help''" "\<not> counted vm ''delete''"
    "path_option K vm = Inr path" "\<And>i. i < unat (pmids_count vm) \<Longrightarrow> create_key K i = Inr (key i)"
    "write_keys K path (map key [0..<unat (pmids_count vm)]) fs = (fs', True)"
  shows "\<exists>out. key_main K argv fs = (fs', out, 0)"
  using assms create_loop_all [of "unat (pmids_count vm)" K 0 key "[]"]
  by (simp add: key_main_def run_commands_def CreateKeys_def)

subsection \<open>Properties\<close>

text \<open>
  C38. The pool of identities that the key tool creates is the one the demo nodes start from. Suppose
  every key can be made and the file written, and the tool is not asked to delete the file again.
  Then the tool returns 0, and a demo node that is given the same path starts exactly when \<^verbatim>\<open>start\<close> is given
  without \<^verbatim>\<open>help\<close>, the key chain it constructs before it reads the pool can be made, its index is below the
  number of keys, it is a client exactly for the second half of the keys, its node can be constructed, and
  a bootstrap node is one of the first two and no client. Then it has the key that was made for its index,
  the node constructed with it, and all keys of the pool. The demo node is another process: \<open>mk\<close> makes its
  key chains.
\<close>

theorem created_keys_start_nodes:
  assumes "key_files_ok K" and "int (unat (pmids_count vm)) \<le> INT_MAX"
    and "parse_options K argv = Inr vm" "counted vm ''create''" "\<not> counted vm ''help''" "\<not> counted vm ''delete''"
    and "path_option K vm = Inr path" "\<And>i. i < unat (pmids_count vm) \<Longrightarrow> create_key K i = Inr (key i)"
    and "snd (write_keys K path (map key [0..<unat (pmids_count vm)]) fs)"
    and "N = K\<lparr>parse_options := parse, create_key := mk\<rparr>" "parse argv' = Inr vm'" "options_ok vm'" "path_option K vm' = Inr path"
  shows "\<exists>fs' out. key_main K argv fs = (fs', out, 0) \<and>
    ((\<exists>cl k g i peer all_keys. node_main N make_node argv' fs' = Starts cl k g i peer all_keys) \<longleftrightarrow>
      counted vm' ''start'' \<and> \<not> counted vm' ''help'' \<and> (\<exists>k. mk 0 = Inr k)
      \<and> 0 \<le> identity_index vm' \<and> identity_index vm' < int (unat (pmids_count vm))
      \<and> (is_client vm' \<longleftrightarrow> int (unat (pmids_count vm) div 2) \<le> identity_index vm')
      \<and> (\<exists>g. make_node (is_client vm') (key (nat (identity_index vm'))) = Inr g)
      \<and> (counted vm' ''bootstrap'' \<longrightarrow> identity_index vm' < 2 \<and> \<not> is_client vm')) \<and>
    (\<forall>cl k g i peer all_keys. node_main N make_node argv' fs' = Starts cl k g i peer all_keys \<longrightarrow>
      cl = is_client vm' \<and> k = key (nat (identity_index vm')) \<and> make_node cl k = Inr g
      \<and> all_keys = map key [0..<unat (pmids_count vm)])"
proof -
  let ?keys = "map key [0..<unat (pmids_count vm)]"
  obtain fs' where written: "write_keys K path ?keys fs = (fs', True)"
    using assms(9) by (cases "write_keys K path ?keys fs") auto
  obtain out where made: "key_main K argv fs = (fs', out, 0)"
    using key_main_creates [OF assms(3-8) written] by blast
  have "file_exists K path fs' \<and> read_keys K path fs' = Inr ?keys"
    using assms(1) written unfolding key_files_ok_def by blast
  then have there: "file_exists N path fs'" "read_keys N path fs' = Inr ?keys" by (simp_all add: assms(10))
  have options: "parse_options N argv' = Inr vm'" "path_option N vm' = Inr path" "int (length ?keys) \<le> INT_MAX"
    using assms(2,11,13) by (simp_all add: assms(10))
  note starts = node_starts_iff [OF options(1) assms(12) options(2) there(2) options(3), where make_node = make_node]
  have nth: "?keys ! nat (identity_index vm') = key (nat (identity_index vm'))"
    if "0 \<le> identity_index vm'" "identity_index vm' < int (unat (pmids_count vm))" using that by (simp add: nat_less_iff)
  have used: "cl = is_client vm' \<and> k = key (nat (identity_index vm')) \<and> make_node cl k = Inr g \<and> all_keys = ?keys"
    if "node_main N make_node argv' fs' = Starts cl k g i peer all_keys" for cl k g i peer all_keys
    using starts [THEN conjunct2, THEN conjunct1, THEN mp, OF that] by auto
  have "(\<exists>cl k g i peer all_keys. node_main N make_node argv' fs' = Starts cl k g i peer all_keys) \<longleftrightarrow>
      counted vm' ''start'' \<and> \<not> counted vm' ''help'' \<and> (\<exists>k. mk 0 = Inr k)
      \<and> 0 \<le> identity_index vm' \<and> identity_index vm' < int (unat (pmids_count vm))
      \<and> (is_client vm' \<longleftrightarrow> int (unat (pmids_count vm) div 2) \<le> identity_index vm')
      \<and> (\<exists>g. make_node (is_client vm') (key (nat (identity_index vm'))) = Inr g)
      \<and> (counted vm' ''bootstrap'' \<longrightarrow> identity_index vm' < 2 \<and> \<not> is_client vm')"
    unfolding starts [THEN conjunct1] using there(1) nth by (auto simp: assms(10))
  with made used show ?thesis by blast
qed

text \<open>A pool of four keys and the second of them as a bootstrap node\<close>

definition ex_create_options :: variables_map where
  "ex_create_options = [''create'' \<mapsto> (Given, False), ''pmids_count'' \<mapsto> (Size_value 4, False)]"

lemma ex_create:
  "counted ex_create_options ''create''" "\<not> counted ex_create_options ''help''"
  "\<not> counted ex_create_options ''delete''" "pmids_count ex_create_options = 4"
  by (simp_all add: ex_create_options_def counted_def pmids_count_def)

definition ex_key_files :: "(nat, string \<rightharpoonup> nat list) key_lib" where
  "ex_key_files = \<lparr>parse_options = (\<lambda>argv. Inr ex_create_options),
     create_key = (\<lambda>i. Inr (20 + i)), path_option = (\<lambda>vm. Inr ''keys''), file_exists = (\<lambda>path fs. fs path \<noteq> None),
     read_keys = (\<lambda>path fs. case fs path of None \<Rightarrow> Inl library_error | Some keys \<Rightarrow> Inr keys),
     write_keys = (\<lambda>path keys fs. (fs(path \<mapsto> keys), True)), remove_file = (\<lambda>path fs. (fs(path := None), True))\<rparr>"

definition ex_node_keys :: "(nat, string \<rightharpoonup> nat list) key_lib" where
  "ex_node_keys = ex_key_files\<lparr>parse_options := (\<lambda>_. Inr ex_options), create_key := (\<lambda>n. Inr 0)\<rparr>"

theorem created_keys_start_nodes_witness:
  "\<exists>fs' out cl i peer all_keys. key_main ex_key_files [] Map.empty = (fs', out, 0)
    \<and> node_main ex_node_keys (\<lambda>cl k. Inr (cl, k)) [] fs' = Starts cl 21 (False, 21) i peer all_keys"
proof -
  let ?make = "\<lambda>cl k. Inr (cl, k) :: (bool \<times> nat) result"
  let ?cond = "counted ex_options ''start'' \<and> \<not> counted ex_options ''help'' \<and> (\<exists>k. (\<lambda>n. Inr 0 :: nat result) 0 = Inr k)
      \<and> 0 \<le> identity_index ex_options \<and> identity_index ex_options < int (unat (pmids_count ex_create_options))
      \<and> (is_client ex_options \<longleftrightarrow> int (unat (pmids_count ex_create_options) div 2) \<le> identity_index ex_options)
      \<and> (\<exists>g. ?make (is_client ex_options) (20 + nat (identity_index ex_options)) = Inr g)
      \<and> (counted ex_options ''bootstrap'' \<longrightarrow> identity_index ex_options < 2 \<and> \<not> is_client ex_options)"
  have start: ?cond and index: "\<not> is_client ex_options" "20 + nat (identity_index ex_options) = 21"
    by (auto simp: ex_create ex_options_def counted_def identity_index_def is_client_def)
  have "\<exists>fs' out. key_main ex_key_files [] Map.empty = (fs', out, 0) \<and>
    ((\<exists>cl k g i peer all_keys. node_main ex_node_keys ?make [] fs' = Starts cl k g i peer all_keys) \<longleftrightarrow> ?cond) \<and>
    (\<forall>cl k g i peer all_keys. node_main ex_node_keys ?make [] fs' = Starts cl k g i peer all_keys \<longrightarrow>
      cl = is_client ex_options \<and> k = 20 + nat (identity_index ex_options) \<and> ?make cl k = Inr g
      \<and> all_keys = map (\<lambda>i. 20 + i) [0..<unat (pmids_count ex_create_options)])"
    by (rule created_keys_start_nodes [where path = "''keys''", OF _ _ _ _ _ _ _ _ _ ex_node_keys_def])
       (simp_all add: ex_options_ok ex_create ex_key_files_def key_files_ok_def INT_MAX_def)
  then obtain fs' out cl k g i peer all_keys where made: "key_main ex_key_files [] Map.empty = (fs', out, 0)"
    and starts: "node_main ex_node_keys ?make [] fs' = Starts cl k g i peer all_keys"
    and used: "cl = is_client ex_options \<and> k = 20 + nat (identity_index ex_options) \<and> ?make cl k = Inr g"
    using start by blast
  have "\<not> cl" "k = 21" "g = (cl, k)" using used index by auto
  then show ?thesis using made starts by auto
qed

end
