(* ===== verification/Tool_Commands.thy ===== *)
theory Tool_Commands
  imports Routing_Types Shared_Response Tool_Node
begin

section \<open>The commands of the demo node\<close>

text \<open>
  Models \<^verbatim>\<open>tools/commands.h\<close> and \<^verbatim>\<open>tools/commands.cc\<close>. The node itself (\<^verbatim>\<open>GenericNode\<close>), the tokenizer, the
  random numbers and the bootstrap file are not part of the sources: they are fields of \<open>demo_lib\<close>,
  and the state counts how many random values were drawn. \<open>response_timeout\<close> is the global
  \<^verbatim>\<open>Parameters::default_response_timeout\<close>. The log keeps, latest first, what is sent and the printed
  lines of \<open>cmd_event\<close>; the counts and times that are printed after sending are left out. A command
  that never returns has no result (\<open>None\<close>). The node lives on beside the commands: \<open>gn_live\<close> is what it
  has become when it is looked at again. After sending, the code takes a lock and waits on a condition
  variable unless the callbacks of the node, \<open>on_response\<close>, have counted all responses by then.
  \<open>gn_counted\<close> is the number they have counted, and \<open>gn_awoken\<close> the node when the wait ends, \<open>None\<close> when it
  does not. A task that is posted to the node runs.
\<close>

subsection \<open>The state\<close>

datatype DestinationType = kDirect | kGroup

record ('a, 'k) key_pair =
  key_name :: 'a
  key_public :: 'k

record ('a, 'k, 'v, 'g, 'fs) demo_lib =
  gn_joined :: "'g \<Rightarrow> bool"
  gn_set_joined :: "bool \<Rightarrow> 'g \<Rightarrow> 'g"
  gn_Join :: "'g \<Rightarrow> 'g"
  gn_ZeroStateJoin :: "'v \<times> 16 word \<Rightarrow> ('a, 'k) key_pair \<Rightarrow> 'g \<Rightarrow> 'g \<times> int"
  gn_SendDirect :: "'a \<Rightarrow> string \<Rightarrow> 'g \<Rightarrow> 'g"
  gn_SendGroup :: "'a \<Rightarrow> string \<Rightarrow> 'g \<Rightarrow> 'g"
  gn_live :: "'g \<Rightarrow> 'g"
  gn_counted :: "'g \<Rightarrow> 32 word"
  gn_awoken :: "'g \<Rightarrow> 'g option"
  gn_expected :: "'g \<Rightarrow> int"
  gn_routing_table :: "'g \<Rightarrow> 'a list"
  gn_endpoint :: "'g \<Rightarrow> 'v \<times> 16 word"
  gn_address :: "'g \<Rightarrow> 'a"
  gn_nat_type :: "'g \<Rightarrow> string"
  kSuccess :: int
  no_peer :: 'v
  no_address :: 'a
  tokenise :: "string \<Rightarrow> string list"
  ip_from_string :: "string \<Rightarrow> 'v result"
  RandomUint32 :: "nat \<Rightarrow> 32 word"
  RandomAddress :: "nat \<Rightarrow> 'a"
  RandomText :: "nat \<Rightarrow> nat \<Rightarrow> string"
  remove_boot_file :: "'fs \<Rightarrow> 'fs result"
  write_boot_file :: "('v \<times> 16 word) list \<Rightarrow> 'fs \<Rightarrow> 'fs result"

datatype ('a, 'v) cmd_event =
    Usage
  | RoutingTable "'a list"
  | BootstrapFrom "'v \<times> 16 word"
  | CouldNotParse string
  | AlreadyJoined
  | NotABootstrapNode
  | IndexOutOfRange
  | Sending DestinationType 'a "'a list"
  | SentDirect 'a string
  | SentGroup 'a string
  | Joining
  | NodeJoined
  | NetworkStatusChanged
  | WrongOption
  | InfiniteTest
  | MessageCount int
  | NatType string
  | PerformanceHeader bool
  | Exiting
  | InvalidCommand string

record ('a, 'k, 'v, 'g, 'fs) Commands =
  demo_node :: 'g
  all_keys :: "('a, 'k) key_pair list"
  all_ids :: "'a list"
  cmd_identity_index :: int
  bootstrap_peer_ep :: "'v \<times> 16 word"
  data_size :: size_t
  data_rate :: size_t
  result_arrived :: bool
  finish :: bool
  response_timeout :: int
  draws :: nat
  boot_file :: 'fs
  tables_read :: "'a list list"
  cmd_log :: "('a, 'v) cmd_event list"

definition Commands_new ::
  "('a, 'k, 'v, 'g, 'fs) demo_lib \<Rightarrow> 'g \<Rightarrow> ('a, 'k) key_pair list \<Rightarrow> int \<Rightarrow> int \<Rightarrow> 'fs \<Rightarrow> ('a, 'k, 'v, 'g, 'fs) Commands" where
  "Commands_new D dn keys index timeout fs =
     \<lparr>demo_node = dn, all_keys = keys, all_ids = map key_name (take (length keys div 2) keys),
      cmd_identity_index = index, bootstrap_peer_ep = (no_peer D, 0), data_size = 1024 * 1024, data_rate = 1024 * 1024,
      result_arrived = False, finish = False, response_timeout = timeout, draws = 0, boot_file = fs, tables_read = [],
      cmd_log = []\<rparr>"

definition say :: "('a, 'v) cmd_event \<Rightarrow> ('a, 'k, 'v, 'g, 'fs) Commands \<Rightarrow> ('a, 'k, 'v, 'g, 'fs) Commands" where
  "say ev c = c\<lparr>cmd_log := ev # cmd_log c\<rparr>"

definition drawn :: "('a, 'k, 'v, 'g, 'fs) Commands \<Rightarrow> ('a, 'k, 'v, 'g, 'fs) Commands" where
  "drawn c = c\<lparr>draws := Suc (draws c)\<rparr>"

definition Validate ::
  "('a, 'k, 'v, 'g, 'fs) demo_lib \<Rightarrow> 'a \<Rightarrow> ('a, 'k, 'v, 'g, 'fs) Commands \<Rightarrow> 'k option" where
  "Validate D address c =
     (if address = no_address D then None
      else map_option key_public (find (\<lambda>k. key_name k = address) (all_keys c)))"

text \<open>The node as it is now\<close>

definition refreshed ::
  "('a, 'k, 'v, 'g, 'fs) demo_lib \<Rightarrow> ('a, 'k, 'v, 'g, 'fs) Commands \<Rightarrow> ('a, 'k, 'v, 'g, 'fs) Commands" where
  "refreshed D c = c\<lparr>demo_node := gn_live D (demo_node c)\<rparr>"

text \<open>\<^verbatim>\<open>demo_node_->ReturnRoutingTable()\<close>; the state remembers the tables it gave, latest first.\<close>

definition ReturnRoutingTable ::
  "('a, 'k, 'v, 'g, 'fs) demo_lib \<Rightarrow> ('a, 'k, 'v, 'g, 'fs) Commands \<Rightarrow> 'a list \<times> ('a, 'k, 'v, 'g, 'fs) Commands" where
  "ReturnRoutingTable D c =
     (let c' = refreshed D c; nodes = gn_routing_table D (demo_node c')
      in (nodes, c'\<lparr>tables_read := nodes # tables_read c'\<rparr>))"

definition PrintRoutingTable ::
  "('a, 'k, 'v, 'g, 'fs) demo_lib \<Rightarrow> ('a, 'k, 'v, 'g, 'fs) Commands \<Rightarrow> ('a, 'k, 'v, 'g, 'fs) Commands" where
  "PrintRoutingTable D c = (let (routing_nodes, c') = ReturnRoutingTable D c in say (RoutingTable routing_nodes) c')"

definition PrintUsage :: "('a, 'k, 'v, 'g, 'fs) Commands \<Rightarrow> ('a, 'k, 'v, 'g, 'fs) Commands" where
  "PrintUsage c = say Usage c"

definition MarkResultArrived :: "('a, 'k, 'v, 'g, 'fs) Commands \<Rightarrow> ('a, 'k, 'v, 'g, 'fs) Commands" where
  "MarkResultArrived c = c\<lparr>result_arrived := True\<rparr>"

subsection \<open>Joining\<close>

text \<open>The port is assigned before the address is parsed. The file is removed and written in any case.\<close>

definition parse_peer ::
  "('a, 'k, 'v, 'g, 'fs) demo_lib \<Rightarrow> string \<Rightarrow> ('a, 'k, 'v, 'g, 'fs) Commands \<Rightarrow>
   ('a, 'k, 'v, 'g, 'fs) Commands \<times> unit result" where
  "parse_peer D peer c =
     (let delim = str_rfind (CHR '':'') peer in
      case substr peer (delim + 1) npos of
        Inl e \<Rightarrow> (say (CouldNotParse peer) c, Inr ())
      | Inr text \<Rightarrow>
          (case atoi text of
             Inl e \<Rightarrow> (c, Inl e)
           | Inr port \<Rightarrow>
               let c' = c\<lparr>bootstrap_peer_ep := (fst (bootstrap_peer_ep c), of_int port)\<rparr> in
               (case bindR (substr peer 0 delim) (ip_from_string D) of
                  Inl e \<Rightarrow> (say (CouldNotParse peer) c', Inr ())
                | Inr a \<Rightarrow> (say (BootstrapFrom (a, of_int port)) (c'\<lparr>bootstrap_peer_ep := (a, of_int port)\<rparr>), Inr ()))))"

definition GetPeer ::
  "('a, 'k, 'v, 'g, 'fs) demo_lib \<Rightarrow> string \<Rightarrow> ('a, 'k, 'v, 'g, 'fs) Commands \<Rightarrow>
   ('a, 'k, 'v, 'g, 'fs) Commands \<times> unit result" where
  "GetPeer D peer c =
     (case parse_peer D peer c of
        (c1, Inl e) \<Rightarrow> (c1, Inl e)
      | (c1, Inr _) \<Rightarrow>
          (case remove_boot_file D (boot_file c1) of
             Inl e \<Rightarrow> (c1, Inl e)
           | Inr fs \<Rightarrow>
               (case write_boot_file D [gn_endpoint D (demo_node c1), bootstrap_peer_ep c1] fs of
                  Inl e \<Rightarrow> (c1\<lparr>boot_file := fs\<rparr>, Inr ())
                | Inr fs' \<Rightarrow> (c1\<lparr>boot_file := fs'\<rparr>, Inr ()))))"

definition ZeroStateJoin ::
  "('a, 'k, 'v, 'g, 'fs) demo_lib \<Rightarrow> ('a, 'k, 'v, 'g, 'fs) Commands \<Rightarrow> ('a, 'k, 'v, 'g, 'fs) Commands \<times> unit result" where
  "ZeroStateJoin D c =
     (if gn_joined D (demo_node c) then (say AlreadyJoined c, Inr ())
      else if cmd_identity_index c > 1 then (say NotABootstrapNode c, Inr ())
      else let other = (if cmd_identity_index c = 0 then 1 else 0 :: nat) in
        if other < length (all_keys c) then
          (let (dn, ret_code) = gn_ZeroStateJoin D (bootstrap_peer_ep c) (all_keys c ! other) (demo_node c)
           in (c\<lparr>demo_node := (if ret_code = kSuccess D then gn_set_joined D True dn else dn)\<rparr>, Inr ()))
        else (c, Inl undefined_behaviour))"

definition on_network_status ::
  "('a, 'k, 'v, 'g, 'fs) demo_lib \<Rightarrow> int \<Rightarrow> ('a, 'k, 'v, 'g, 'fs) Commands \<Rightarrow> ('a, 'k, 'v, 'g, 'fs) Commands" where
  "on_network_status D r c =
     (if r = gn_expected D (demo_node c) \<and> \<not> gn_joined D (demo_node c)
      then c\<lparr>demo_node := gn_set_joined D True (demo_node c)\<rparr>
      else PrintRoutingTable D (say NetworkStatusChanged c))"

definition Join ::
  "('a, 'k, 'v, 'g, 'fs) demo_lib \<Rightarrow> ('a, 'k, 'v, 'g, 'fs) Commands \<Rightarrow> ('a, 'k, 'v, 'g, 'fs) Commands" where
  "Join D c =
     (if gn_joined D (demo_node c) then say AlreadyJoined c
      else PrintRoutingTable D (say NodeJoined (c\<lparr>demo_node := gn_Join D (demo_node c)\<rparr>)))"

subsection \<open>Sending messages\<close>

definition CalculateClosests ::
  "('a, 'f, 'p) lib \<Rightarrow> 'a \<Rightarrow> nat \<Rightarrow> ('a, 'k, 'v, 'g, 'fs) Commands \<Rightarrow>
   ('a, 'k, 'v, 'g, 'fs) Commands \<times> ('a list \<times> 'a) result" where
  "CalculateClosests L target_id num_of_closests c =
     (if length (all_ids c) \<le> num_of_closests
      then (c, if all_ids c = [] then Inl undefined_behaviour else Inr (all_ids c, last (all_ids c)))
      else
        let ids = std_sort (\<lambda>lhs rhs. CloserToTarget L lhs rhs target_id) (all_ids c);
            skip = (if hd ids = target_id then 1 else 0 :: nat);
            closests = take num_of_closests (drop skip ids)
        in (c\<lparr>all_ids := ids\<rparr>, if closests = [] then Inl undefined_behaviour else Inr (closests, last closests)))"

text \<open>\<^verbatim>\<open>RandomUint32() % (all_keys_.size() / 2)\<close> is converted to \<^verbatim>\<open>int\<close>.\<close>

definition pick_identity ::
  "('a, 'k, 'v, 'g, 'fs) demo_lib \<Rightarrow> int \<Rightarrow> ('a, 'k, 'v, 'g, 'fs) Commands \<Rightarrow>
   ('a, 'k, 'v, 'g, 'fs) Commands \<times> int result" where
  "pick_identity D id_index c =
     (if id_index \<ge> 0 then (c, Inr id_index)
      else if length (all_keys c) div 2 = 0 then (c, Inl undefined_behaviour)
      else (drawn c, Inr (sint (of_nat (unat (RandomUint32 D (draws c)) mod (length (all_keys c) div 2)) :: 32 word))))"

text \<open>The number of respondents, 0 for an index that is out of range, the closest nodes and the destination\<close>

definition MakeMessage ::
  "('a, 'f, 'p) lib \<Rightarrow> ('a, 'k, 'v, 'g, 'fs) demo_lib \<Rightarrow> int \<Rightarrow> DestinationType \<Rightarrow>
   ('a, 'k, 'v, 'g, 'fs) Commands \<Rightarrow> ('a, 'k, 'v, 'g, 'fs) Commands \<times> (nat \<times> 'a list \<times> 'a) result" where
  "MakeMessage L D id_index destination_type c =
     (case pick_identity D id_index c of
        (c1, Inl e) \<Rightarrow> (c1, Inl e)
      | (c1, Inr i) \<Rightarrow>
          if i \<ge> 0 \<and> unat (of_int i :: 32 word) \<ge> length (all_keys c1)
          then (say IndexOutOfRange c1, Inr (0, [], no_address D))
          else
            let (c2, dest_id) =
                  (if i < 0 then (c1, no_address D)
                   else if destination_type = kGroup then (drawn c1, RandomAddress D (draws c1))
                   else (c1, key_name (all_keys c1 ! nat i)))
            in if destination_type = kGroup then
                 (case CalculateClosests L dest_id 4 c2 of
                    (c3, Inl e) \<Rightarrow> (c3, Inl e)
                  | (c3, Inr (closests, _)) \<Rightarrow> (say (Sending kGroup dest_id closests) c3, Inr (4, closests, dest_id)))
               else (say (Sending kDirect dest_id [dest_id]) c2, Inr (1, [dest_id], dest_id)))"

definition CalculateTimeToSleep :: "('a, 'k, 'v, 'g, 'fs) Commands \<Rightarrow> int result" where
  "CalculateTimeToSleep c =
     (if data_size c = 0 then Inl undefined_behaviour
      else let num_msgs_per_second = unat (data_rate c) div unat (data_size c) in
        if num_msgs_per_second = 0 then Inl undefined_behaviour else Inr (int (1000 div num_msgs_per_second)))"

definition SendAMessage ::
  "('a, 'k, 'v, 'g, 'fs) demo_lib \<Rightarrow> nat \<Rightarrow> 'a \<Rightarrow> string \<Rightarrow> ('a, 'k, 'v, 'g, 'fs) Commands \<Rightarrow> ('a, 'k, 'v, 'g, 'fs) Commands" where
  "SendAMessage D expect_respondent dest_id data c =
     (if expect_respondent = 1
      then say (SentDirect dest_id data) (c\<lparr>demo_node := gn_SendDirect D dest_id data (demo_node c)\<rparr>)
      else say (SentGroup dest_id data) (c\<lparr>demo_node := gn_SendGroup D dest_id data (demo_node c)\<rparr>))"

text \<open>\<^verbatim>\<open>if (operation_count != expected) cond_var.wait(lock)\<close>: a wait may never end.\<close>

definition await ::
  "('a, 'k, 'v, 'g, 'fs) demo_lib \<Rightarrow> 32 word \<Rightarrow> ('a, 'k, 'v, 'g, 'fs) Commands \<Rightarrow> ('a, 'k, 'v, 'g, 'fs) Commands option" where
  "await D expected c =
     (let c' = refreshed D c in
      if gn_counted D (demo_node c') \<noteq> expected
      then map_option (\<lambda>dn. c'\<lparr>demo_node := dn\<rparr>) (gn_awoken D (demo_node c')) else Some c')"

definition message_text :: "32 word \<Rightarrow> string \<Rightarrow> string" where
  "message_text message_id data = ''>:< '' @ to_string (unat message_id) @ '' <:>'' @ data"

text \<open>
  The loop of \<^verbatim>\<open>SendMessages\<close>: the number of respondents of the last message, \<open>None\<close> when it returned for a
  wrong index
\<close>

partial_function (option) send_loop ::
  "('a, 'f, 'p) lib \<Rightarrow> ('a, 'k, 'v, 'g, 'fs) demo_lib \<Rightarrow> int \<Rightarrow> DestinationType \<Rightarrow> int \<Rightarrow> string \<Rightarrow>
   int \<Rightarrow> 32 word \<Rightarrow> nat \<Rightarrow> string \<Rightarrow> ('a, 'k, 'v, 'g, 'fs) Commands \<Rightarrow>
   (('a, 'k, 'v, 'g, 'fs) Commands \<times> nat option result) option" where
  "send_loop L D id_index destination_type messages_count data_to_send index message_id respondents data c =
     (if \<not> (index < messages_count \<or> messages_count = -1) then Some (c, Inr (Some respondents))
      else case MakeMessage L D id_index destination_type c of
        (c1, Inl e) \<Rightarrow> Some (c1, Inl e)
      | (c1, Inr (expect_respondent, closests, dest_id)) \<Rightarrow>
          if expect_respondent = 0 then Some (c1, Inr None)
          else send_loop L D id_index destination_type messages_count data_to_send (index + 1) (message_id + 1) expect_respondent
                 data_to_send (SendAMessage D expect_respondent dest_id (message_text (message_id + 1) data) c1))"

text \<open>When no message was sent nothing is counted, 0 operations are expected, and nothing is waited for.\<close>

definition SendMessages ::
  "('a, 'f, 'p) lib \<Rightarrow> ('a, 'k, 'v, 'g, 'fs) demo_lib \<Rightarrow> int \<Rightarrow> DestinationType \<Rightarrow> bool \<Rightarrow> int \<Rightarrow>
   ('a, 'k, 'v, 'g, 'fs) Commands \<Rightarrow> (('a, 'k, 'v, 'g, 'fs) Commands \<times> unit result) option" where
  "SendMessages L D id_index destination_type is_routing_req messages_count c =
     (let (data, data_to_send, c) =
        (if is_routing_req then (''request_routing_table'', [], c)
         else let text = RandomText D (draws c) (unat (data_size c)) in (text, text, drawn c))
      in case CalculateTimeToSleep c of
           Inl e \<Rightarrow> Some (c, Inl e)
         | Inr _ \<Rightarrow>
             (let total = messages_count * (if destination_type \<noteq> kGroup then 1 else 4) in
              if total < INT_MIN \<or> total > INT_MAX then Some (c, Inl undefined_behaviour)
              else
                let timeout = response_timeout c;
                    c1 = say (MessageCount messages_count) c;
                    c2 = (if total > 10 then c1\<lparr>response_timeout := timeout * total\<rparr> else c1)
                in case send_loop L D id_index destination_type messages_count data_to_send 0 0 0 data c2 of
                     None \<Rightarrow> None
                   | Some (c3, Inl e) \<Rightarrow> Some (c3, Inl e)
                   | Some (c3, Inr None) \<Rightarrow> Some (c3, Inr ())
                   | Some (c3, Inr (Some respondents)) \<Rightarrow>
                       (case (if respondents = 0 then Some c3 else await D (of_int messages_count * of_nat respondents) c3) of
                          None \<Rightarrow> None
                        | Some c4 \<Rightarrow> Some (c4\<lparr>response_timeout := timeout\<rparr>, Inr ()))))"

subsection \<open>Counting the responses\<close>

text \<open>
  The callback that \<^verbatim>\<open>SendAMessage\<close> gives the node, with what it captured: the counters that are shared by
  the messages of one call of \<^verbatim>\<open>SendMessages\<close>, and the responses of the one message. It gives the
  counters, the responses, what is printed, and whether the sender is woken up.
\<close>

record counters =
  successful_count :: int
  operation_count :: "32 word"

definition count_operation ::
  "'a id_lib \<Rightarrow> int \<Rightarrow> 32 word \<Rightarrow> bool \<Rightarrow> int \<Rightarrow> counters \<Rightarrow> 'a SharedResponse \<Rightarrow> 'a response_output list \<Rightarrow>
   (counters \<times> 'a SharedResponse \<times> 'a response_output list \<times> bool) result" where
  "count_operation I messages_count expect_respondent group_performance bytes k sr out =
     (let k' = k\<lparr>operation_count := operation_count k + 1\<rparr>;
          finished = (operation_count k' = of_int messages_count * expect_respondent)
      in bindR (if finished \<and> group_performance then PrintGroupPerformance I bytes sr else Inr []) (\<lambda>out'.
           Inr (k', sr, out @ out', finished)))"

definition on_response ::
  "'a::linorder id_lib \<Rightarrow> int \<Rightarrow> int \<Rightarrow> int \<Rightarrow> 32 word \<Rightarrow> bool \<Rightarrow> int \<Rightarrow> string \<Rightarrow> counters \<Rightarrow> 'a SharedResponse \<Rightarrow>
   (counters \<times> 'a SharedResponse \<times> 'a response_output list \<times> bool) result" where
  "on_response I timeout now messages_count expect_respondent group_performance bytes response k sr =
     (if response \<noteq> [] then
        bindR (CollectResponse I timeout now response (\<not> group_performance) sr) (\<lambda>(sr, counted, out).
          if \<not> counted then Inr (k, sr, out, False)
          else bindR (if expected_responses sr = 1 then PrintRoutingTable_response I response else Inr []) (\<lambda>out'.
            if card (responded_nodes sr) = length (closest_nodes sr)
            then count_operation I messages_count expect_respondent group_performance bytes
                   (k\<lparr>successful_count := successful_count k + 1\<rparr>) sr (out @ out' @ CheckAndPrintResult sr)
            else count_operation I messages_count expect_respondent group_performance bytes k sr (out @ out')))
      else count_operation I messages_count expect_respondent group_performance bytes k sr [])"

subsection \<open>The performance test\<close>

fun perf_round ::
  "('a, 'k, 'v, 'g, 'fs) demo_lib \<Rightarrow> nat \<Rightarrow> string \<Rightarrow> 32 word \<Rightarrow> 'a list \<Rightarrow> ('a, 'k, 'v, 'g, 'fs) Commands \<Rightarrow>
   (('a, 'k, 'v, 'g, 'fs) Commands \<times> 32 word) option" where
  "perf_round D expect_respondent data message_id [] c = Some (c, message_id)"
| "perf_round D expect_respondent data message_id (routing_node # nodes) c =
     (case await D (of_nat expect_respondent) (SendAMessage D expect_respondent routing_node
             (''>:<'' @ to_string (unat (message_id + 1)) @ ''<:>'' @ data) c) of
        None \<Rightarrow> None
      | Some c1 \<Rightarrow> perf_round D expect_respondent data (message_id + 1) nodes c1)"

text \<open>
  The routing table is read anew in every round. \<open>iteration\<close> is an \<^verbatim>\<open>int\<close>, and \<^verbatim>\<open>1000 * iteration\<close>
  becomes a \<^verbatim>\<open>size_t\<close>.
\<close>

partial_function (option) perf_loop ::
  "('a, 'k, 'v, 'g, 'fs) demo_lib \<Rightarrow> nat \<Rightarrow> int \<Rightarrow> 32 word \<Rightarrow> ('a, 'k, 'v, 'g, 'fs) Commands \<Rightarrow>
   ('a, 'k, 'v, 'g, 'fs) Commands option" where
  "perf_loop D expect_respondent iteration message_id c =
     (if data_size c < 1024 * 1024 + 1024 then
        let data = RandomText D (draws c) (unat (data_size c));
            (routing_nodes, c1) = ReturnRoutingTable D (drawn c)
        in (case perf_round D expect_respondent data message_id routing_nodes c1 of
              None \<Rightarrow> None
            | Some (c2, message_id') \<Rightarrow>
                perf_loop D expect_respondent (iteration * 2) message_id' (c2\<lparr>data_size := of_int (1000 * iteration)\<rparr>))
      else Some c)"

definition RunPerformanceTest ::
  "'a id_lib \<Rightarrow> ('a, 'k, 'v, 'g, 'fs) demo_lib \<Rightarrow> bool \<Rightarrow> ('a, 'k, 'v, 'g, 'fs) Commands \<Rightarrow>
   ('a, 'k, 'v, 'g, 'fs) Commands option" where
  "RunPerformanceTest I D is_send_group c =
     perf_loop D (if is_send_group then group_size I else 1) 1 0 (c\<lparr>data_size := 1\<rparr>)"

definition PerformanceTest ::
  "'a id_lib \<Rightarrow> ('a, 'k, 'v, 'g, 'fs) demo_lib \<Rightarrow> ('a, 'k, 'v, 'g, 'fs) Commands \<Rightarrow>
   ('a, 'k, 'v, 'g, 'fs) Commands option" where
  "PerformanceTest I D c =
     (case RunPerformanceTest I D False (say (PerformanceHeader False) c) of
        None \<Rightarrow> None
      | Some c1 \<Rightarrow> RunPerformanceTest I D True (say (PerformanceHeader True) c1))"

subsection \<open>Commands\<close>

text \<open>What a command of the program does, once the line was split\<close>

definition run_command ::
  "('a, 'f, 'p) lib \<Rightarrow> 'a id_lib \<Rightarrow> ('a, 'k, 'v, 'g, 'fs) demo_lib \<Rightarrow> string \<Rightarrow> string list \<Rightarrow>
   ('a, 'k, 'v, 'g, 'fs) Commands \<Rightarrow> (('a, 'k, 'v, 'g, 'fs) Commands \<times> unit result) option" where
  "run_command L I D cmd args c =
     (let number = (\<lambda>i f. case atoi (args ! i) of Inl e \<Rightarrow> Some (c, Inl e) | Inr n \<Rightarrow> f n) in
      if cmd = ''help'' then Some (PrintUsage c, Inr ())
      else if cmd = ''prt'' then Some (PrintRoutingTable D c, Inr ())
      else if cmd = ''rrt'' then
        (if length args = 1 then number 0 (\<lambda>n. SendMessages L D n kDirect True 1 c)
         else Some (say WrongOption c, Inr ()))
      else if cmd = ''peer'' then
        (if length args = 1 then Some (GetPeer D (args ! 0) c) else Some (say WrongOption c, Inr ()))
      else if cmd = ''zerostatejoin'' then Some (ZeroStateJoin D c)
      else if cmd = ''join'' then Some (Join D c, Inr ())
      else if cmd = ''senddirect'' then
        (if length args = 1 then number 0 (\<lambda>n. SendMessages L D n kDirect False 1 c)
         else if length args = 2 then
           number 1 (\<lambda>count. number 0 (\<lambda>n.
             if count < 0 then SendMessages L D n kDirect False (-1) (say InfiniteTest c)
             else SendMessages L D n kDirect False count c))
         else Some (c, Inr ()))
      else if cmd = ''sendgroup'' then
        (if args = [] then SendMessages L D (-1) kGroup False 1 c
         else number 0 (\<lambda>n. SendMessages L D n kGroup False 1 c))
      else if cmd = ''sendgroupmultiple'' then
        (if length args = 1 then number 0 (\<lambda>n. SendMessages L D (-1) kGroup False n c) else Some (c, Inr ()))
      else if cmd = ''sendmultiple'' then
        (if args = [] then SendMessages L D (-1) kDirect False 10 c
         else number 0 (\<lambda>num_msg.
           if num_msg = -1 then SendMessages L D (-1) kDirect False (-1) (say InfiniteTest c)
           else SendMessages L D (-1) kDirect False num_msg c))
      else if cmd = ''datasize'' then
        (if length args = 1 then number 0 (\<lambda>n. Some (c\<lparr>data_size := of_int n\<rparr>, Inr ())) else Some (say WrongOption c, Inr ()))
      else if cmd = ''datarate'' then
        (if length args = 1 then number 0 (\<lambda>n. Some (c\<lparr>data_rate := of_int n\<rparr>, Inr ())) else Some (say WrongOption c, Inr ()))
      else if cmd = ''nattype'' then Some (say (NatType (gn_nat_type D (demo_node c))) c, Inr ())
      else if cmd = ''performance'' then map_option (\<lambda>c'. (c', Inr ())) (PerformanceTest I D c)
      else if cmd = ''exit'' then Some ((say Exiting c)\<lparr>finish := True\<rparr>, Inr ())
      else Some (PrintUsage (say (InvalidCommand cmd) c), Inr ()))"

definition ProcessCommand ::
  "('a, 'f, 'p) lib \<Rightarrow> 'a id_lib \<Rightarrow> ('a, 'k, 'v, 'g, 'fs) demo_lib \<Rightarrow> string \<Rightarrow>
   ('a, 'k, 'v, 'g, 'fs) Commands \<Rightarrow> (('a, 'k, 'v, 'g, 'fs) Commands \<times> unit result) option" where
  "ProcessCommand L I D cmdline c =
     (if cmdline = [] then Some (MarkResultArrived c, Inr ())
      else
        let (cmd, args) = (case tokenise D cmdline of [] \<Rightarrow> ([], []) | t # ts \<Rightarrow> (t, ts))
        in (case run_command L I D cmd args c of
              None \<Rightarrow> None
            | Some (c1, Inl e) \<Rightarrow> Some (c1, Inl e)
            | Some (c1, Inr _) \<Rightarrow> Some (MarkResultArrived c1, Inr ())))"

text \<open>After the end of the input \<^verbatim>\<open>std::getline\<close> gives empty lines.\<close>

partial_function (option) run_loop ::
  "('a, 'f, 'p) lib \<Rightarrow> 'a id_lib \<Rightarrow> ('a, 'k, 'v, 'g, 'fs) demo_lib \<Rightarrow> string list \<Rightarrow>
   ('a, 'k, 'v, 'g, 'fs) Commands \<Rightarrow> (('a, 'k, 'v, 'g, 'fs) Commands \<times> unit result) option" where
  "run_loop L I D lines c =
     (if finish c then Some (c, Inr ())
      else let (cmdline, rest) = (case lines of [] \<Rightarrow> ([], []) | l # ls \<Rightarrow> (l, ls)) in
        case ProcessCommand L I D cmdline (refreshed D c) of
          None \<Rightarrow> None
        | Some (c1, r) \<Rightarrow>
            (case r of Inl e \<Rightarrow> Some (c1, Inl e) | Inr _ \<Rightarrow> run_loop L I D rest (c1\<lparr>result_arrived := False\<rparr>)))"

definition Run ::
  "('a, 'f, 'p) lib \<Rightarrow> 'a id_lib \<Rightarrow> ('a, 'k, 'v, 'g, 'fs) demo_lib \<Rightarrow> string list \<Rightarrow>
   ('a, 'k, 'v, 'g, 'fs) Commands \<Rightarrow> (('a, 'k, 'v, 'g, 'fs) Commands \<times> unit result) option" where
  "Run L I D lines c =
     (let c1 = PrintUsage c;
          c2 = (if \<not> gn_joined D (demo_node c1) \<and> cmd_identity_index c1 \<ge> 2 then Join D (say Joining c1) else c1)
      in run_loop L I D lines c2)"

text \<open>
  The whole \<^verbatim>\<open>main\<close> of \<^verbatim>\<open>tools/routing_node.cc\<close>, with its return code: \<open>pmid\<close> gives the \<^verbatim>\<open>pmid\<close> of a key
  chain, and \<open>lines\<close> is the standard input. Exceptions are caught.
\<close>

fun caught :: "error \<Rightarrow> int result" where
  "caught undefined_behaviour = Inl undefined_behaviour"
| "caught assertion_failed = Inl assertion_failed"
| "caught e = Inr (-1)"

definition node_program ::
  "('a, 'f, 'p) lib \<Rightarrow> 'a id_lib \<Rightarrow> ('a, 'k, 'v, 'g, 'fs) demo_lib \<Rightarrow> ('key, 'ks) key_lib \<Rightarrow> ('key \<Rightarrow> ('a, 'k) key_pair) \<Rightarrow>
   (bool \<Rightarrow> 'key \<Rightarrow> 'g result) \<Rightarrow> int \<Rightarrow> 'fs \<Rightarrow> 'ks \<Rightarrow> string list \<Rightarrow> string list \<Rightarrow> int result option" where
  "node_program L I D K pmid make_node timeout boot fs argv lines =
     (case node_main K make_node argv fs of
        Starts client_only_node local_key dn i peer key_chains \<Rightarrow>
          (let c = Commands_new D dn (map pmid key_chains) i timeout boot
           in case (if peer \<noteq> [] then GetPeer D peer c else (c, Inr ())) of
                (c1, Inl e) \<Rightarrow> Some (caught e)
              | (c1, Inr _) \<Rightarrow>
                  (case Run L I D lines c1 of
                     None \<Rightarrow> None
                   | Some (c2, Inl e) \<Rightarrow> Some (caught e)
                   | Some (c2, Inr _) \<Rightarrow> Some (Inr 0)))
      | Failed e \<Rightarrow> Some (caught e)
      | r \<Rightarrow> Some (Inr (return_code r)))"

subsection \<open>The expected respondents\<close>

text \<open>What is relied on: an address is closer to itself than every other one.\<close>

definition closest_to_itself :: "('a, 'f, 'p) lib \<Rightarrow> bool" where
  "closest_to_itself L \<longleftrightarrow> (\<forall>t y. y \<noteq> t \<longrightarrow> CloserToTarget L t y t)"

lemma hd_ordered_target:
  assumes "closer_order L" "closest_to_itself L" "ordered_by (\<lambda>x y. CloserToTarget L x y t) (\<lambda>x. x) ids" "t \<in> set ids"
  shows "hd ids = t"
proof (rule ccontr)
  assume other: "hd ids \<noteq> t"
  obtain x xs where ids: "ids = x # xs" using assms(4) by (cases ids) auto
  then have "CloserToTarget L x t t" using assms(3,4) other by auto
  moreover have "CloserToTarget L t x t" using assms(2) other ids by (simp add: closest_to_itself_def)
  moreover have "strict_linear_order (\<lambda>x y. CloserToTarget L x y t)" using assms(1) by (simp add: closer_order_def)
  ultimately show False using strict_linear_order.lt_asym by fastforce
qed

lemma closests_of_sorted:
  assumes "closer_order L" "closest_to_itself L" "ordered_by (\<lambda>x y. CloserToTarget L x y t) (\<lambda>x. x) ids"
    "n < length ids" "closests = take n (drop (if hd ids = t then 1 else 0) ids)"
  shows "length closests = n" "t \<notin> set closests" "set closests \<subseteq> set ids" "distinct closests"
    "x \<in> set closests \<Longrightarrow> y \<in> set ids \<Longrightarrow> y \<notin> set closests \<Longrightarrow> y \<noteq> t \<Longrightarrow> CloserToTarget L x y t"
proof -
  let ?lt = "\<lambda>x y. CloserToTarget L x y t" and ?rest = "drop (if hd ids = t then 1 else 0) ids"
  have order: "strict_linear_order ?lt" using assms(1) by (simp add: closer_order_def)
  have ne: "ids \<noteq> []" using assms(4) by auto
  have dist: "distinct ids" using strict_linear_order.ordered_by_distinct [OF order assms(3)] by simp
  show "length closests = n" using assms(4,5) by auto
  have sub: "set closests \<subseteq> set ?rest" using assms(5) set_take_subset by metis
  then show "set closests \<subseteq> set ids" using set_drop_subset by (metis subset_trans)
  have rest: "set ids = set ?rest \<union> (if hd ids = t then {t} else {})" using ne by (cases ids) auto
  have "t \<notin> set ?rest" using dist ne hd_ordered_target [OF assms(1-3)] by (cases ids) auto
  then show "t \<notin> set closests" using sub by blast
  show "distinct closests" unfolding assms(5) using dist by (intro distinct_take distinct_drop)
  assume x: "x \<in> set closests" and y: "y \<in> set ids" "y \<notin> set closests" "y \<noteq> t"
  have split: "set xs = set (take n xs) \<union> set (drop n xs)" for xs :: "'a list"
    by (metis append_take_drop_id set_append)
  have "y \<in> set ?rest \<union> (if hd ids = t then {t} else {})" using y(1) unfolding rest [symmetric] .
  then have "y \<in> set ?rest" using y(3) by (auto split: if_splits)
  then have "y \<in> set (drop n ?rest)" using y(2) unfolding assms(5) split [of ?rest] by blast
  moreover have "ordered_by ?lt (\<lambda>x. x) ?rest" using assms(3) by (simp add: ordered_by_def sorted_wrt_drop)
  ultimately show "CloserToTarget L x y t" using ordered_by_take_drop [of ?lt "\<lambda>x. x" ?rest x n y] x assms(5) by simp
qed

text \<open>
  C39. The respondents that a group message expects are the closest ones: with more known nodes than
  asked for, \<^verbatim>\<open>CalculateClosests\<close> gives that many different nodes, never the target itself, each closer
  to the target than every node it leaves out, and it only reorders the known nodes. With fewer it
  gives all, and with none it reads before the start of a vector.
\<close>

theorem closests_are_closest:
  assumes "closer_order L" "closest_to_itself L" "distinct (all_ids c)" "0 < n"
  shows "if all_ids c = [] then CalculateClosests L t n c = (c, Inl undefined_behaviour)
    else if length (all_ids c) \<le> n then CalculateClosests L t n c = (c, Inr (all_ids c, last (all_ids c)))
    else \<exists>ids closests. CalculateClosests L t n c = (c\<lparr>all_ids := ids\<rparr>, Inr (closests, last closests))
      \<and> set ids = set (all_ids c) \<and> length ids = length (all_ids c)
      \<and> length closests = n \<and> distinct closests \<and> t \<notin> set closests \<and> set closests \<subseteq> set ids
      \<and> (\<forall>x y. x \<in> set closests \<and> y \<in> set ids \<and> y \<notin> set closests \<and> y \<noteq> t \<longrightarrow> CloserToTarget L x y t)"
proof -
  let ?lt = "\<lambda>x y. CloserToTarget L x y t"
  define ids where "ids = std_sort ?lt (all_ids c)"
  define closests where "closests = take n (drop (if hd ids = t then 1 else 0) ids)"
  have order: "strict_linear_order ?lt" using assms(1) by (simp add: closer_order_def)
  have "ordered_by ?lt (\<lambda>x. x) ids"
    unfolding ids_def using strict_linear_order.ordered_by_std_sort [OF order, of "\<lambda>x. x" "all_ids c"] assms(3) by simp
  note facts = closests_of_sorted [OF assms(1,2) this _ closests_def]
  have small: "length (all_ids c) \<le> n \<Longrightarrow> ?thesis" by (simp add: CalculateClosests_def)
  have eq: "CalculateClosests L t n c = (c\<lparr>all_ids := ids\<rparr>, Inr (closests, last closests))" if "n < length (all_ids c)"
    using that facts(1) assms(4) by (auto simp: CalculateClosests_def Let_def ids_def closests_def)
  show ?thesis
  proof (cases "length (all_ids c) \<le> n")
    case False
    then have len: "n < length ids" by (simp add: ids_def)
    have ne: "all_ids c \<noteq> []" using False by auto
    have "set ids = set (all_ids c)" "length ids = length (all_ids c)" by (simp_all add: ids_def)
    then have "\<exists>ids closests. CalculateClosests L t n c = (c\<lparr>all_ids := ids\<rparr>, Inr (closests, last closests))
        \<and> set ids = set (all_ids c) \<and> length ids = length (all_ids c)
        \<and> length closests = n \<and> distinct closests \<and> t \<notin> set closests \<and> set closests \<subseteq> set ids
        \<and> (\<forall>x y. x \<in> set closests \<and> y \<in> set ids \<and> y \<notin> set closests \<and> y \<noteq> t \<longrightarrow> CloserToTarget L x y t)"
      using eq False facts(1-4) [OF len] facts(5) [OF len]
      by (intro exI [of _ ids] exI [of _ closests] conjI allI impI) simp_all
    then show ?thesis using ne False by simp
  qed (rule small)
qed

subsection \<open>The performance test\<close>

text \<open>To whom messages were sent, in order\<close>

fun sent_to :: "('a, 'v) cmd_event \<Rightarrow> 'a list" where
  "sent_to (SentDirect a d) = [a]"
| "sent_to (SentGroup a d) = [a]"
| "sent_to _ = []"

definition destinations :: "('a, 'k, 'v, 'g, 'fs) Commands \<Rightarrow> 'a list" where
  "destinations c = concat (map sent_to (rev (cmd_log c)))"

text \<open>The node answers: no wait for its responses lasts for ever.\<close>

definition waits_end :: "('a, 'k, 'v, 'g, 'fs) demo_lib \<Rightarrow> bool" where
  "waits_end D \<longleftrightarrow> (\<forall>dn. gn_awoken D dn \<noteq> None)"

lemma await_ends:
  assumes "waits_end D"
  shows "\<exists>dn. await D n c = Some (c\<lparr>demo_node := dn\<rparr>)"
proof -
  obtain dn where "gn_awoken D (gn_live D (demo_node c)) = Some dn" using assms by (auto simp: waits_end_def)
  then show ?thesis by (auto simp: await_def refreshed_def Let_def)
qed

lemma await_Some: "await D n c = Some c' \<Longrightarrow> \<exists>dn. c' = c\<lparr>demo_node := dn\<rparr>"
  by (auto simp: await_def refreshed_def Let_def split: if_splits)

lemma SendAMessage_simps [simp]:
  "destinations (SendAMessage D n a d c) = destinations c @ [a]" "tables_read (SendAMessage D n a d c) = tables_read c"
  "data_size (SendAMessage D n a d c) = data_size c" "data_rate (SendAMessage D n a d c) = data_rate c"
  "all_keys (SendAMessage D n a d c) = all_keys c" "response_timeout (SendAMessage D n a d c) = response_timeout c"
  "finish (SendAMessage D n a d c) = finish c"
  by (simp_all add: SendAMessage_def destinations_def say_def)

lemma destinations_simps [simp]:
  "destinations (c\<lparr>demo_node := dn\<rparr>) = destinations c" "destinations (c\<lparr>data_size := n\<rparr>) = destinations c"
  "destinations (c\<lparr>tables_read := ts\<rparr>) = destinations c" "destinations (drawn c) = destinations c"
  by (simp_all add: destinations_def drawn_def)

lemma perf_round_effect:
  assumes "waits_end D"
  shows "\<exists>c' m'. perf_round D n data m nodes c = Some (c', m') \<and> destinations c' = destinations c @ nodes
    \<and> tables_read c' = tables_read c \<and> data_rate c' = data_rate c"
proof (induction nodes arbitrary: m c)
  case (Cons a nodes)
  let ?c = "SendAMessage D n a (''>:<'' @ to_string (unat (m + 1)) @ ''<:>'' @ data) c"
  obtain dn where "await D (of_nat n) ?c = Some (?c\<lparr>demo_node := dn\<rparr>)" using await_ends [OF assms] by blast
  then show ?case using Cons.IH [of "m + 1" "?c\<lparr>demo_node := dn\<rparr>"] by auto
qed simp

text \<open>
  One round: the size of the data becomes a thousand times the number of the iteration. \<open>read_and_sent k\<close>:
  the table was read \<open>k\<close> times more, and a message was sent to each node of each of these tables.
\<close>

definition read_and_sent :: "nat \<Rightarrow> ('a, 'k, 'v, 'g, 'fs) Commands \<Rightarrow> ('a, 'k, 'v, 'g, 'fs) Commands \<Rightarrow> bool" where
  "read_and_sent k c c' \<longleftrightarrow> data_rate c' = data_rate c
     \<and> (\<exists>tables. length tables = k \<and> tables_read c' = rev tables @ tables_read c \<and> destinations c' = destinations c @ concat tables)"

lemma read_and_sent_refl: "read_and_sent 0 c c"
  by (simp add: read_and_sent_def)

lemma read_and_sent_trans:
  assumes "read_and_sent k c c'" "read_and_sent n c' c''"
  shows "read_and_sent (k + n) c c''"
proof -
  obtain ts us where "length ts = k" "tables_read c' = rev ts @ tables_read c" "destinations c' = destinations c @ concat ts"
    "length us = n" "tables_read c'' = rev us @ tables_read c'" "destinations c'' = destinations c' @ concat us"
    using assms unfolding read_and_sent_def by blast
  then show ?thesis using assms unfolding read_and_sent_def by (intro conjI exI [of _ "ts @ us"]) simp_all
qed

lemma perf_loop_step:
  assumes "waits_end D" "data_size c < 1024 * 1024 + 1024"
  obtains c' m' where "perf_loop D n i m c = perf_loop D n (i * 2) m' c'" "data_size c' = of_int (1000 * i)" "read_and_sent 1 c c'"
proof -
  define nodes where "nodes = fst (ReturnRoutingTable D (drawn c))"
  define c1 where "c1 = snd (ReturnRoutingTable D (drawn c))"
  have table: "ReturnRoutingTable D (drawn c) = (nodes, c1)" by (simp add: nodes_def c1_def)
  have c1: "destinations c1 = destinations c" "tables_read c1 = nodes # tables_read c" "data_rate c1 = data_rate c"
    by (simp_all add: c1_def nodes_def ReturnRoutingTable_def refreshed_def Let_def) (simp_all add: drawn_def)
  obtain c2 m2 where r: "perf_round D n (RandomText D (draws c) (unat (data_size c))) m nodes c1 = Some (c2, m2)"
    "destinations c2 = destinations c1 @ nodes" "tables_read c2 = tables_read c1" "data_rate c2 = data_rate c1"
    using perf_round_effect [OF assms(1)] by blast
  show ?thesis
  proof (rule that [of m2 "c2\<lparr>data_size := of_int (1000 * i)\<rparr>"])
    show "perf_loop D n i m c = perf_loop D n (i * 2) m2 (c2\<lparr>data_size := of_int (1000 * i)\<rparr>)"
      using assms(2) by (subst perf_loop.simps) (simp add: table r(1) Let_def)
    show "read_and_sent 1 c (c2\<lparr>data_size := of_int (1000 * i)\<rparr>)"
      unfolding read_and_sent_def using r c1 by (intro conjI exI [of _ "[nodes]"]) simp_all
  qed simp
qed

text \<open>The loop with \<open>k\<close> doublings still to come\<close>

lemma perf_loop_returns:
  assumes "waits_end D" "i = 2 ^ (11 - k)" "k \<le> 11" "data_size c = of_int (1000 * i)"
  shows "\<exists>c'. perf_loop D n (i * 2) m c = Some c' \<and> data_size c' = 2048000 \<and> read_and_sent k c c'"
  using assms(2-4)
proof (induction k arbitrary: i m c)
  case 0
  then have "data_size c = 2048000" by simp
  then show ?case by (subst perf_loop.simps) (simp add: read_and_sent_refl)
next
  case (Suc k)
  define j where "j = (2::nat) ^ (11 - Suc k)"
  have j: "i = int j" "j \<le> 1024" using Suc.prems(1) power_increasing [of "11 - Suc k" 10 "2::nat"] by (simp_all add: j_def)
  then have "data_size c = of_nat (1000 * j)" using Suc.prems(3) by simp
  then have "data_size c < 1024 * 1024 + 1024" using j(2) by (simp only: word_less_nat_alt unat_of_nat) simp
  with assms(1) obtain c' m' where c': "perf_loop D n (i * 2) m c = perf_loop D n (i * 2 * 2) m' c'"
    "data_size c' = of_int (1000 * (i * 2))" "read_and_sent 1 c c'"
    by (rule perf_loop_step)
  have "11 - k = Suc (11 - Suc k)" using Suc.prems(2) by simp
  then have "i * 2 = 2 ^ (11 - k)" using Suc.prems(1) by simp
  from Suc.IH [OF this _ c'(2), of m'] Suc.prems(2) obtain c'' where
    "perf_loop D n (i * 2 * 2) m' c' = Some c''" "data_size c'' = 2048000" "read_and_sent k c' c''" by auto
  then show ?case using c' read_and_sent_trans [OF c'(3)] by fastforce
qed

lemma RunPerformanceTest_returns:
  assumes "waits_end D"
  shows "\<exists>c'. RunPerformanceTest I D g c = Some c' \<and> data_size c' = 2048000 \<and> read_and_sent 12 c c'"
proof -
  let ?n = "if g then group_size I else 1" and ?c = "c\<lparr>data_size := 1\<rparr>"
  have "data_size ?c < 1024 * 1024 + 1024" by simp
  with assms obtain c1 m1 where c1: "perf_loop D ?n 1 0 ?c = perf_loop D ?n (1 * 2) m1 c1" "data_size c1 = of_int (1000 * 1)"
    "read_and_sent 1 ?c c1"
    by (rule perf_loop_step)
  from perf_loop_returns [OF assms, of 1 11 c1 ?n m1] c1(2) obtain c2 where
    c2: "perf_loop D ?n (1 * 2) m1 c1 = Some c2" "data_size c2 = 2048000" "read_and_sent 11 c1 c2" by auto
  have "read_and_sent 12 ?c c2" using read_and_sent_trans [OF c1(3) c2(3)] by simp
  then have "read_and_sent 12 c c2" by (simp add: read_and_sent_def)
  then show ?thesis using c1(1) c2(1,2) by (auto simp: RunPerformanceTest_def)
qed

lemma SendMessages_too_fast:
  assumes "data_rate c < data_size c"
  shows "\<exists>c'. SendMessages L D i ty b n c = Some (c', Inl undefined_behaviour)"
proof -
  have "unat (data_rate c) div unat (data_size c) = 0" using assms by (simp add: word_less_nat_alt)
  then show ?thesis by (simp add: SendMessages_def CalculateTimeToSleep_def drawn_def Let_def)
qed

text \<open>A message that is never answered\<close>

lemma perf_round_stuck:
  assumes "gn_counted D dn \<noteq> of_nat n" "gn_awoken D dn = None"
    "dn = gn_live D (demo_node (SendAMessage D n a (''>:<'' @ to_string (unat (m + 1)) @ ''<:>'' @ data) c))"
  shows "perf_round D n data m (a # nodes) c = None"
  using assms by (simp add: await_def refreshed_def Let_def)

lemma PerformanceTest_stuck:
  assumes "gn_routing_table D (gn_live D (demo_node c)) = a # nodes"
    "dn = gn_live D (gn_SendDirect D a (''>:<1<:>'' @ RandomText D (draws c) 1) (gn_live D (demo_node c)))"
    "gn_counted D dn \<noteq> 1" "gn_awoken D dn = None"
  shows "PerformanceTest I D c = None"
proof -
  let ?c = "drawn ((say (PerformanceHeader False) c)\<lparr>data_size := 1\<rparr>)"
  have same: "demo_node ?c = demo_node c" "draws (say (PerformanceHeader False) c) = draws c" by (simp_all add: drawn_def say_def)
  have one: "to_string (Suc 0) = ''1''" by (subst to_string.simps) (simp add: char_of_def bit_0)
  obtain c1 where table: "ReturnRoutingTable D ?c = (a # nodes, c1)" and c1: "demo_node c1 = gn_live D (demo_node c)"
    using assms(1) by (simp add: ReturnRoutingTable_def refreshed_def same Let_def)
  have "perf_round D 1 (RandomText D (draws c) 1) 0 (a # nodes) c1 = None"
    using assms(3,4) by (intro perf_round_stuck [of D dn]) (simp_all add: assms(2) c1 SendAMessage_def one say_def)
  then have "perf_loop D 1 1 0 ((say (PerformanceHeader False) c)\<lparr>data_size := 1\<rparr>) = None"
    by (subst perf_loop.simps) (simp add: table same Let_def del: perf_round.simps)
  then show ?thesis by (simp add: PerformanceTest_def RunPerformanceTest_def)
qed

text \<open>
  C40. The performance test. It ends when the waits for responses end: its two loops read the routing
  table twelve times each, as it is at that time, and send a message to every node of every table read,
  in order, and to nobody else. It leaves the tool unable to send: the size of the data stays at 2048000
  bytes, and unless the data rate was set that high, every later command that sends divides by zero when
  it computes the pause between messages. The waits have no timeout: when the first node of the table does
  not answer the first message and nothing wakes the sender, the test never returns.
\<close>

theorem performance_test_ends:
  "(waits_end D \<longrightarrow> (\<exists>c' tables. PerformanceTest I D c = Some c'
      \<and> length tables = 24 \<and> tables_read c' = rev tables @ tables_read c \<and> destinations c' = destinations c @ concat tables
      \<and> data_size c' = 2048000 \<and> data_rate c' = data_rate c
      \<and> (data_rate c < 2048000 \<longrightarrow> (\<exists>c''. SendMessages L D i ty b n c' = Some (c'', Inl undefined_behaviour)))))
   \<and> (gn_routing_table D (gn_live D (demo_node c)) = a # nodes
      \<and> dn = gn_live D (gn_SendDirect D a (''>:<1<:>'' @ RandomText D (draws c) 1) (gn_live D (demo_node c)))
      \<and> gn_counted D dn \<noteq> 1 \<and> gn_awoken D dn = None
      \<longrightarrow> PerformanceTest I D c = None)"
proof (intro conjI impI)
  assume ends: "waits_end D"
  have say: "read_and_sent k c1 c2" if "read_and_sent k (say (PerformanceHeader h) c1) c2"
    for k h and c1 c2 :: "('a, 'b, 'c, 'd, 'e) Commands"
    using that by (simp add: read_and_sent_def destinations_def say_def)
  obtain c1 where c1: "RunPerformanceTest I D False (say (PerformanceHeader False) c) = Some c1" "read_and_sent 12 c c1"
    using RunPerformanceTest_returns [OF ends] say by blast
  obtain c2 where c2: "RunPerformanceTest I D True (say (PerformanceHeader True) c1) = Some c2" "data_size c2 = 2048000"
    "read_and_sent 12 c1 c2"
    using RunPerformanceTest_returns [OF ends] say by blast
  have "read_and_sent 24 c c2" using read_and_sent_trans [OF c1(2) c2(3)] by simp
  then show "\<exists>c' tables. PerformanceTest I D c = Some c'
      \<and> length tables = 24 \<and> tables_read c' = rev tables @ tables_read c \<and> destinations c' = destinations c @ concat tables
      \<and> data_size c' = 2048000 \<and> data_rate c' = data_rate c
      \<and> (data_rate c < 2048000 \<longrightarrow> (\<exists>c''. SendMessages L D i ty b n c' = Some (c'', Inl undefined_behaviour)))"
    using c1(1) c2(1,2) SendMessages_too_fast [of c2 L D i ty b n] unfolding read_and_sent_def by (auto simp: PerformanceTest_def)
qed (elim conjE, rule PerformanceTest_stuck)

subsection \<open>Messages to one node\<close>

fun is_sent :: "('a, 'v) cmd_event \<Rightarrow> bool" where
  "is_sent (SentDirect a d) = True"
| "is_sent (SentGroup a d) = True"
| "is_sent _ = False"

definition sent :: "('a, 'k, 'v, 'g, 'fs) Commands \<Rightarrow> ('a, 'v) cmd_event list" where
  "sent c = filter is_sent (cmd_log c)"

lemma index_word:
  assumes "0 \<le> i" "nat i < n" "int n \<le> INT_MAX"
  shows "\<not> n \<le> unat (of_int i :: 32 word)"
proof -
  obtain k where "i = int k" using assms(1) nonneg_int_cases by blast
  then show ?thesis using assms(2,3) by (simp add: unat_of_nat INT_MAX_def)
qed

lemma MakeMessage_direct:
  assumes "0 \<le> i" "nat i < length (all_keys c)" "int (length (all_keys c)) \<le> INT_MAX"
  shows "MakeMessage L D i kDirect c =
    (let a = key_name (all_keys c ! nat i) in (say (Sending kDirect a [a]) c, Inr (1, [a], a)))"
  using assms index_word [OF assms] by (simp add: MakeMessage_def pick_identity_def Let_def)

lemma send_step_simps:
  "all_keys (SendAMessage D n a d (say (Sending ty b bs) c)) = all_keys c"
  "response_timeout (SendAMessage D n a d (say (Sending ty b bs) c)) = response_timeout c"
  "sent (SendAMessage D (Suc 0) a d (say (Sending ty b bs) c)) = SentDirect a d # sent c"
  by (simp_all add: SendAMessage_def say_def sent_def)

lemma send_loop_direct:
  assumes "0 \<le> i" "nat i < length (all_keys c)" "int (length (all_keys c)) \<le> INT_MAX" "0 \<le> idx" "idx + int k = n"
  shows "\<exists>c'. send_loop L D i kDirect n data idx m x data c = Some (c', Inr (Some (if k = 0 then x else 1)))
    \<and> sent c' = map (\<lambda>j. SentDirect (key_name (all_keys c ! nat i)) (message_text (m + of_nat j) data)) (rev [1..<Suc k]) @ sent c"
  using assms(2-5)
proof (induction k arbitrary: idx m x c)
  case 0
  then show ?case by (subst send_loop.simps) simp
next
  case (Suc k)
  let ?a = "key_name (all_keys c ! nat i)"
  let ?c = "SendAMessage D 1 ?a (message_text (m + 1) data) (say (Sending kDirect ?a [?a]) c)"
  have keys: "all_keys ?c = all_keys c" by (rule send_step_simps)
  have "send_loop L D i kDirect n data idx m x data c = send_loop L D i kDirect n data (idx + 1) (m + 1) 1 data ?c"
    using Suc.prems by (subst send_loop.simps) (simp add: MakeMessage_direct [OF assms(1)] Let_def)
  moreover obtain c' where "send_loop L D i kDirect n data (idx + 1) (m + 1) 1 data ?c = Some (c', Inr (Some 1))"
    "sent c' = map (\<lambda>j. SentDirect ?a (message_text (m + 1 + of_nat j) data)) (rev [1..<Suc k]) @ sent ?c"
    using Suc.IH [of ?c "idx + 1" "m + 1" 1] Suc.prems unfolding keys by auto
  moreover have "map (\<lambda>j. SentDirect ?a (message_text (m + of_nat j) data)) (rev [1..<Suc (Suc k)]) @ sent c
      = map (\<lambda>j. SentDirect ?a (message_text (m + 1 + of_nat j) data)) (rev [1..<Suc k]) @ SentDirect ?a (message_text (m + 1) data) # sent c"
  proof -
    have "[1..<Suc (Suc k)] = 1 # map Suc [1..<Suc k]" by (simp add: upt_conv_Cons map_Suc_upt del: upt_Suc)
    then show ?thesis by (simp add: rev_map comp_def add.assoc add.commute add.left_commute del: upt_Suc)
  qed
  ultimately show ?case by (simp add: send_step_simps del: upt_Suc)
qed

text \<open>With -1 as the number of messages the loop never comes to an end.\<close>

lemma send_loop_infinite:
  assumes "send_loop L D i ty n dts idx m x data c = Some y"
  shows "\<not> (ty = kDirect \<and> n = -1 \<and> 0 \<le> i \<and> nat i < length (all_keys c) \<and> int (length (all_keys c)) \<le> INT_MAX)"
proof (rule send_loop.raw_induct [OF _ assms, of "\<lambda>L D i ty n dts idx m x data c y. \<not> (ty = kDirect \<and> n = -1 \<and> 0 \<le> i
      \<and> nat i < length (all_keys c) \<and> int (length (all_keys c)) \<le> INT_MAX)"], goal_cases)
  case (1 f L D i ty n dts idx m x data c y)
  show ?case
  proof
    assume a: "ty = kDirect \<and> n = -1 \<and> 0 \<le> i \<and> nat i < length (all_keys c) \<and> int (length (all_keys c)) \<le> INT_MAX"
    then have "MakeMessage L D i kDirect c = (let a = key_name (all_keys c ! nat i) in (say (Sending kDirect a [a]) c, Inr (1, [a], a)))"
      using MakeMessage_direct by blast
    then obtain d b bs where "f L D i kDirect (-1) dts (idx + 1) (m + 1) 1 dts (SendAMessage D 1 b d (say (Sending kDirect b bs) c)) = Some y"
      using 1(2) a by (auto simp: Let_def)
    from 1(1) [OF this] show False using a by (simp add: say_def)
  qed
qed

lemma sleep_drawn [simp]: "CalculateTimeToSleep (drawn c) = CalculateTimeToSleep c"
  by (simp add: CalculateTimeToSleep_def drawn_def)

text \<open>
  Sending to one node by its index: with a number of messages it returns when the wait for the responses
  does, has sent that many in the order of their ids, and restores the timeout; with -1 it does not return.
\<close>

lemma direct_messages_sent:
  assumes "0 \<le> i" "nat i < length (all_keys c)" "int (length (all_keys c)) \<le> INT_MAX" "CalculateTimeToSleep c = Inr t"
  shows "waits_end D \<Longrightarrow> 0 \<le> n \<and> n \<le> INT_MAX \<Longrightarrow> \<exists>c'. SendMessages L D i kDirect False n c = Some (c', Inr ())
      \<and> sent c' = map (\<lambda>j. SentDirect (key_name (all_keys c ! nat i))
          (message_text (of_nat j) (RandomText D (draws c) (unat (data_size c))))) (rev [1..<Suc (nat n)]) @ sent c
      \<and> response_timeout c' = response_timeout c"
    "SendMessages L D i kDirect False (-1) c = None"
proof -
  let ?text = "RandomText D (draws c) (unat (data_size c))"
  have sleep: "CalculateTimeToSleep (drawn c) = Inr t" using assms(4) by simp
  have same: "all_keys (say e (drawn c)) = all_keys c" "all_keys ((say e (drawn c))\<lparr>response_timeout := x\<rparr>) = all_keys c"
    "sent (say (MessageCount n) (drawn c)) = sent c" "sent ((say (MessageCount n) (drawn c))\<lparr>response_timeout := x\<rparr>) = sent c"
    "sent (c'\<lparr>response_timeout := x\<rparr>) = sent c'" "sent (c'\<lparr>demo_node := dn\<rparr>) = sent c'" "response_timeout (drawn c) = response_timeout c" for e x n dn c'
    by (simp_all add: say_def drawn_def sent_def)
  show "SendMessages L D i kDirect False (-1) c = None"
    using send_loop_infinite [of L D i kDirect "-1" ?text 0 0 0 ?text "say (MessageCount (-1)) (drawn c)"] assms sleep
    by (cases "send_loop L D i kDirect (-1) ?text 0 0 0 ?text (say (MessageCount (-1)) (drawn c))")
      (auto simp: SendMessages_def same INT_MIN_def INT_MAX_def Let_def)
  assume ends: "waits_end D" and n: "0 \<le> n \<and> n \<le> INT_MAX"
  define c2 where "c2 = (if n > 10 then (say (MessageCount n) (drawn c))\<lparr>response_timeout := response_timeout c * n\<rparr>
    else say (MessageCount n) (drawn c))"
  have keys: "all_keys c2 = all_keys c" and sent2: "sent c2 = sent c" by (simp_all add: c2_def same)
  obtain c' where c': "send_loop L D i kDirect n ?text 0 0 0 ?text c2 = Some (c', Inr (Some (if nat n = 0 then 0 else 1)))"
    "sent c' = map (\<lambda>j. SentDirect (key_name (all_keys c ! nat i)) (message_text (of_nat j) ?text)) (rev [1..<Suc (nat n)]) @ sent c"
    using send_loop_direct [OF assms(1), of c2 0 "nat n" n L D ?text 0 0] assms(2,3) n unfolding keys sent2 by auto
  moreover obtain dn where "await D (of_int n * of_nat 1) c' = Some (c'\<lparr>demo_node := dn\<rparr>)" using await_ends [OF ends] by blast
  ultimately show "\<exists>c'. SendMessages L D i kDirect False n c = Some (c', Inr ())
      \<and> sent c' = map (\<lambda>j. SentDirect (key_name (all_keys c ! nat i)) (message_text (of_nat j) ?text)) (rev [1..<Suc (nat n)]) @ sent c
      \<and> response_timeout c' = response_timeout c"
    using sleep n by (auto simp: SendMessages_def c2_def same INT_MIN_def INT_MAX_def Let_def)
qed

text \<open>An index that is out of range leaves the multiplied timeout behind.\<close>

lemma wrong_index_keeps_timeout:
  assumes "int (length (all_keys c)) \<le> i" "i \<le> INT_MAX" "CalculateTimeToSleep c = Inr t" "10 < n" "n \<le> INT_MAX"
  shows "\<exists>c'. SendMessages L D i kDirect False n c = Some (c', Inr ()) \<and> sent c' = sent c
    \<and> response_timeout c' = response_timeout c * n"
proof -
  have sleep: "CalculateTimeToSleep (drawn c) = Inr t" using assms(3) by simp
  obtain k where k: "i = int k" using assms(1) by (metis nonneg_int_cases of_nat_0_le_iff order_trans)
  then have "length (all_keys c) \<le> unat (of_int i :: 32 word)" using assms(1,2) by (simp add: unat_of_nat INT_MAX_def)
  then show ?thesis using sleep assms(4,5) k
    by (subst SendMessages_def) (simp add: send_loop.simps [of L D "int k"] MakeMessage_def pick_identity_def say_def drawn_def sent_def
        INT_MIN_def INT_MAX_def Let_def)
qed

subsection \<open>The end of the program\<close>

lemma send_loop_finish:
  assumes "send_loop L D i ty n dts idx m x data c = Some y"
  shows "finish (fst y) = finish c"
proof (rule send_loop.raw_induct [OF _ assms, of "\<lambda>L D i ty n dts idx m x data c y. finish (fst y) = finish c"], goal_cases)
  case (1 f L D i ty n dts idx m x data c y)
  have make: "finish (fst (MakeMessage L D i ty c)) = finish c"
    by (auto simp: MakeMessage_def pick_identity_def CalculateClosests_def say_def drawn_def Let_def split: sum.splits prod.splits)
  obtain c1 r where mm: "MakeMessage L D i ty c = (c1, r)" by fastforce
  then have fin: "finish c1 = finish c" using make by simp
  show ?case
  proof (cases r)
    case (Inl e)
    then show ?thesis using 1(2) mm fin by (auto split: if_splits)
  next
    case (Inr z)
    obtain k closests a where "z = (k, closests, a)" by (cases z)
    then show ?thesis using 1(2) 1(1) mm fin Inr by (auto split: if_splits)
  qed
qed

lemma await_finish: "await D n c = Some c' \<Longrightarrow> finish c' = finish c"
  by (auto dest: await_Some)

lemma SendMessages_finish: "SendMessages L D i ty b n c = Some y \<Longrightarrow> finish (fst y) = finish c"
  by (auto simp: SendMessages_def drawn_def say_def Let_def dest!: send_loop_finish await_finish
      split: sum.splits option.splits if_splits)

lemma perf_round_finish: "perf_round D n data m nodes c = Some y \<Longrightarrow> finish (fst y) = finish c"
  by (induction D n data m nodes c rule: perf_round.induct) (auto dest!: await_finish split: option.splits)

lemma perf_loop_finish:
  assumes "perf_loop D n i m c = Some y"
  shows "finish y = finish c"
proof (rule perf_loop.raw_induct [OF _ assms, of "\<lambda>D n i m c y. finish y = finish c"], goal_cases)
  case (1 f D n i m c y)
  obtain nodes c1 where t: "ReturnRoutingTable D (drawn c) = (nodes, c1)" by fastforce
  then have c1: "finish c1 = finish c" by (auto simp: ReturnRoutingTable_def refreshed_def drawn_def Let_def)
  show ?case
  proof (cases "data_size c < 1024 * 1024 + 1024")
    case True
    then obtain c2 m2 where "perf_round D n (RandomText D (draws c) (unat (data_size c))) m nodes c1 = Some (c2, m2)"
      "f D n (i * 2) m2 (c2\<lparr>data_size := of_int (1000 * i)\<rparr>) = Some y"
      using 1(2) by (auto simp: t Let_def split: option.splits)
    then show ?thesis using 1(1) perf_round_finish c1 by fastforce
  qed (use 1(2) in simp)
qed

lemma PerformanceTest_finish: "PerformanceTest I D c = Some y \<Longrightarrow> finish y = finish c"
  by (auto simp: PerformanceTest_def RunPerformanceTest_def say_def dest!: perf_loop_finish split: option.splits)

lemma other_commands_finish:
  "finish (PrintUsage c) = finish c" "finish (PrintRoutingTable D c) = finish c" "finish (Join D c) = finish c"
  "finish (say e c) = finish c" "finish (fst (GetPeer D p c)) = finish c" "finish (fst (ZeroStateJoin D c)) = finish c"
  by (auto simp: PrintUsage_def PrintRoutingTable_def ReturnRoutingTable_def refreshed_def Join_def GetPeer_def parse_peer_def ZeroStateJoin_def say_def Let_def
      split: sum.splits prod.splits)

lemma pair_commands_finish:
  "GetPeer D p c = (c1, r) \<Longrightarrow> finish c1 = finish c" "ZeroStateJoin D c = (c1, q) \<Longrightarrow> finish c1 = finish c"
  using other_commands_finish(5) [of D p c] other_commands_finish(6) [of D c] by simp_all

lemma run_command_finish:
  assumes "run_command L I D cmd args c = Some (c1, r)" "\<not> finish c" "finish c1"
  shows "cmd = ''exit''"
proof (rule ccontr)
  assume "cmd \<noteq> ''exit''"
  then have "finish c1 = finish c"
    using assms(1)
    by (auto simp: run_command_def other_commands_finish Let_def
        dest: pair_commands_finish dest!: SendMessages_finish PerformanceTest_finish split: if_splits sum.splits)
  then show False using assms(2,3) by simp
qed

text \<open>The program returns only when the command \<^verbatim>\<open>exit\<close> is among the lines.\<close>

lemma run_loop_exit:
  assumes "run_loop L I D lines c = Some y"
  shows "snd y = Inr () \<longrightarrow> \<not> finish c \<longrightarrow> (\<exists>line \<in> set lines. line \<noteq> [] \<and> tokenise D line \<noteq> [] \<and> hd (tokenise D line) = ''exit'')"
proof (rule run_loop.raw_induct [OF _ assms, of "\<lambda>L I D lines c y. snd y = Inr () \<longrightarrow> \<not> finish c \<longrightarrow>
      (\<exists>line \<in> set lines. line \<noteq> [] \<and> tokenise D line \<noteq> [] \<and> hd (tokenise D line) = ''exit'')"], goal_cases)
  case (1 f L I D lines c y)
  show ?case
  proof (intro impI)
    assume ok: "snd y = Inr ()" and c: "\<not> finish c"
    define line where "line = (case lines of [] \<Rightarrow> [] | l # ls \<Rightarrow> l)"
    define rest where "rest = (case lines of [] \<Rightarrow> [] | l # ls \<Rightarrow> ls)"
    have lr: "(case lines of [] \<Rightarrow> ([], []) | l # ls \<Rightarrow> (l, ls)) = (line, rest)" by (cases lines) (simp_all add: line_def rest_def)
    obtain c1 where p: "ProcessCommand L I D line (refreshed D c) = Some (c1, Inr ())" and f: "f L I D rest (c1\<lparr>result_arrived := False\<rparr>) = Some y"
      using 1(2) ok c unfolding lr by (auto split: option.splits sum.splits)
    show "\<exists>line \<in> set lines. line \<noteq> [] \<and> tokenise D line \<noteq> [] \<and> hd (tokenise D line) = ''exit''"
    proof (cases "finish c1")
      case True
      then have "line \<noteq> []" "tokenise D line \<noteq> [] \<and> hd (tokenise D line) = ''exit''"
        using p c run_command_finish [of L I D _ _ "refreshed D c"]
        by (fastforce simp: ProcessCommand_def MarkResultArrived_def refreshed_def split: if_splits option.splits sum.splits list.splits)+
      then show ?thesis by (cases lines) (auto simp: line_def)
    next
      case False
      then show ?thesis using 1(1) [OF f] ok by (cases lines) (auto simp: rest_def)
    qed
  qed
qed

text \<open>
  The tool ends only by the command \<^verbatim>\<open>exit\<close>: a run that returns without an exception was given a line
  whose first token is \<^verbatim>\<open>exit\<close>. When the input ends without one, the loop goes on for ever with empty
  lines.
\<close>

lemma run_ends_only_by_exit:
  assumes "Run L I D lines c = Some (c', Inr ())" "\<not> finish c"
  shows "\<exists>line \<in> set lines. line \<noteq> [] \<and> tokenise D line \<noteq> [] \<and> hd (tokenise D line) = ''exit''"
proof -
  let ?c = "if \<not> gn_joined D (demo_node (PrintUsage c)) \<and> cmd_identity_index (PrintUsage c) \<ge> 2
    then Join D (say Joining (PrintUsage c)) else PrintUsage c"
  have "run_loop L I D lines ?c = Some (c', Inr ())" using assms(1) by (simp add: Run_def Let_def)
  then show ?thesis using run_loop_exit [of L I D lines ?c "(c', Inr ())"] assms(2) by (simp add: other_commands_finish)
qed

lemma caught_not_0: "caught e \<noteq> Inr 0"
  by (cases e) simp_all

text \<open>A node that starts makes the program return 0 only after \<^verbatim>\<open>exit\<close>.\<close>

lemma node_program_returns:
  assumes "node_program L I D K pmid make_node timeout boot fs argv lines = Some (Inr 0)"
    "node_main K make_node argv fs = Starts client_only_node local_key dn i peer key_chains"
  shows "\<exists>line \<in> set lines. line \<noteq> [] \<and> tokenise D line \<noteq> [] \<and> hd (tokenise D line) = ''exit''"
proof -
  let ?c = "Commands_new D dn (map pmid key_chains) i timeout boot"
  obtain c1 r where c1: "(if peer \<noteq> [] then GetPeer D peer ?c else (?c, Inr ())) = (c1, r)" by fastforce
  then have "\<not> finish c1" by (auto simp: Commands_new_def dest: pair_commands_finish split: if_splits)
  moreover obtain c2 where "Run L I D lines c1 = Some (c2, Inr ())"
    using assms c1 caught_not_0 by (auto simp: node_program_def Let_def split: sum.splits option.splits)
  ultimately show ?thesis using run_ends_only_by_exit by blast
qed

subsection \<open>An example\<close>

lemma xor_lib_itself: "closest_to_itself (xor_lib nd)"
proof -
  have "xor y t \<noteq> 0" if "y \<noteq> t" for y t :: "512 word"
    using that xor_eq_iff [of y t t] by simp
  then show ?thesis by (simp add: closest_to_itself_def xor_lib_def word_gt_0)
qed

definition ex_demo :: "(512 word, nat, nat, 512 word list, unit) demo_lib" where
  "ex_demo = \<lparr>gn_joined = (\<lambda>g. True), gn_set_joined = (\<lambda>b g. g), gn_Join = (\<lambda>g. g),
     gn_ZeroStateJoin = (\<lambda>p k g. (g, 0)), gn_SendDirect = (\<lambda>a d g. g), gn_SendGroup = (\<lambda>a d g. g),
     gn_live = (\<lambda>g. g), gn_counted = (\<lambda>g. 0), gn_awoken = Some, gn_expected = (\<lambda>g. 0), gn_routing_table = (\<lambda>g. g), gn_endpoint = (\<lambda>g. (0, 0)),
     gn_address = (\<lambda>g. 0), gn_nat_type = (\<lambda>g. []), kSuccess = 0, no_peer = 0, no_address = 0, tokenise = (\<lambda>s. [s]),
     ip_from_string = (\<lambda>s. Inr 0), RandomUint32 = (\<lambda>n. of_nat n), RandomAddress = (\<lambda>n. of_nat n),
     RandomText = (\<lambda>n k. replicate k CHR ''x''), remove_boot_file = Inr, write_boot_file = (\<lambda>eps fs. Inr fs)\<rparr>"

definition ex_ids :: "512 word id_lib" where
  "ex_ids = \<lparr>address_of = (\<lambda>s. Inr 0), address_string = (\<lambda>a. []), DeserializeNodeIdList = (\<lambda>s. Inr []), group_size = 4\<rparr>"

definition ex_commands :: "(512 word, nat, nat, 512 word list, unit) Commands" where
  "ex_commands = Commands_new ex_demo [7, 9] (map (\<lambda>n. \<lparr>key_name = n, key_public = 0\<rparr>) [6, 1, 4, 3, 12, 0, 0, 0, 0, 0]) 0 10000 ()"

lemma ex_all_ids: "all_ids ex_commands = [6, 1, 4, 3, 12]"
  by (simp add: ex_commands_def Commands_new_def)

theorem closests_are_closest_witness:
  "closer_order (xor_lib True) \<and> closest_to_itself (xor_lib True)
   \<and> (\<exists>ids closests. CalculateClosests (xor_lib True) 4 2 ex_commands = (ex_commands\<lparr>all_ids := ids\<rparr>, Inr (closests, last closests))
      \<and> length closests = 2 \<and> 4 \<notin> set closests \<and> set ids = {6, 1, 4, 3, 12})
   \<and> snd (CalculateClosests (xor_lib True) 4 2 ex_commands) = Inr ([6, 1], 1)"
proof -
  have "snd (CalculateClosests (xor_lib True) 4 2 ex_commands) = Inr ([6, 1], 1)"
    by (simp add: CalculateClosests_def ex_all_ids xor_lib_def Let_def)
  moreover have "\<exists>ids closests. CalculateClosests (xor_lib True) 4 2 ex_commands = (ex_commands\<lparr>all_ids := ids\<rparr>, Inr (closests, last closests))
      \<and> length closests = 2 \<and> 4 \<notin> set closests \<and> set ids = {6, 1, 4, 3, 12}"
    using closests_are_closest [OF xor_lib_closer_order xor_lib_itself, where c = ex_commands and n = 2 and t = 4]
    by (fastforce simp: ex_all_ids)
  ultimately show ?thesis using xor_lib_closer_order xor_lib_itself by blast
qed

text \<open>A node that answers once the sender waits, and one that never answers\<close>

definition ex_silent :: "(512 word, nat, nat, 512 word list, unit) demo_lib" where
  "ex_silent = ex_demo\<lparr>gn_awoken := (\<lambda>g. None)\<rparr>"

theorem performance_test_ends_witness:
  "waits_end ex_demo \<and> data_rate ex_commands < 2048000
   \<and> (\<exists>c c' tables. PerformanceTest ex_ids ex_demo ex_commands = Some c \<and> length tables = 24 \<and> destinations c = concat tables
      \<and> SendMessages (xor_lib True) ex_demo 0 kDirect False 1 c = Some (c', Inl undefined_behaviour))
   \<and> PerformanceTest ex_ids ex_silent ex_commands = None"
proof -
  have ends: "waits_end ex_demo" by (simp add: waits_end_def ex_demo_def)
  have rate: "data_rate ex_commands < 2048000" and none: "destinations ex_commands = []"
    by (simp_all add: ex_commands_def Commands_new_def destinations_def)
  have silent: "gn_routing_table ex_silent (gn_live ex_silent (demo_node ex_commands)) = 7 # [9]"
    "gn_counted ex_silent g \<noteq> 1" "gn_awoken ex_silent g = None" for g
    by (simp_all add: ex_silent_def ex_demo_def ex_commands_def Commands_new_def)
  have "PerformanceTest ex_ids ex_silent ex_commands = None"
    using performance_test_ends [where D = ex_silent and c = ex_commands and I = ex_ids and a = 7 and nodes = "[9]"] silent by blast
  moreover obtain c tables where "PerformanceTest ex_ids ex_demo ex_commands = Some c" "length tables = 24" "destinations c = concat tables"
    "\<exists>c'. SendMessages (xor_lib True) ex_demo 0 kDirect False 1 c = Some (c', Inl undefined_behaviour)"
    using performance_test_ends [of ex_demo ex_ids ex_commands "xor_lib True" 0 kDirect False 1, THEN conjunct1, THEN mp, OF ends] rate none
    by auto
  ultimately show ?thesis using ends rate by auto
qed

lemma run_ends_only_by_exit_witness:
  "(\<exists>c. Run (xor_lib True) ex_ids ex_demo [''prt'', ''exit''] ex_commands = Some (c, Inr ()))
   \<and> (\<exists>line. line \<in> set [''prt'', ''exit''] \<and> hd (tokenise ex_demo line) = ''exit'')"
proof -
  have "\<exists>c. Run (xor_lib True) ex_ids ex_demo [''prt'', ''exit''] ex_commands = Some (c, Inr ())"
    by (simp add: Run_def run_loop.simps ProcessCommand_def run_command_def PrintUsage_def MarkResultArrived_def
        PrintRoutingTable_def ReturnRoutingTable_def refreshed_def say_def ex_commands_def Commands_new_def ex_demo_def Let_def)
  moreover have "\<not> finish ex_commands" by (simp add: ex_commands_def Commands_new_def)
  ultimately show ?thesis
    using run_ends_only_by_exit [of "xor_lib True" ex_ids ex_demo "[''prt'', ''exit'']" ex_commands] by blast
qed

end
