(* ===== verification/Spec2Isabelle.thy ===== *)
theory Spec2Isabelle
  imports Routing_Table Sentinel Account_Transfer Bootstrap_Handler Moves Connections Routing_Node
    Client Tool_Bootstrap Tool_Commands
begin

text \<open>
  Verification of the MaidSafe routing library.

  \<^bold>\<open>The program.\<close> The sources under \<^verbatim>\<open>src/\<close> are a C++ library with which the nodes of a network find and
  reach each other by address, where the distance of two addresses is their exclusive or. A node keeps
  contacts (\<^verbatim>\<open>routing_table\<close>) and connections (\<^verbatim>\<open>connection_manager\<close>, \<^verbatim>\<open>peer_node\<close>, \<^verbatim>\<open>connections\<close>, \<^verbatim>\<open>async_queue\<close>,
  \<^verbatim>\<open>async_exchange\<close>), remembers how to join (\<^verbatim>\<open>bootstrap_handler\<close>), reads and writes messages
  (\<^verbatim>\<open>message_header\<close>, \<^verbatim>\<open>messages/\<close>, \<^verbatim>\<open>utils.h\<close>), and believes a message of a group when a quorum of its members
  sent it (\<^verbatim>\<open>accumulator\<close>, \<^verbatim>\<open>sentinel\<close>). \<^verbatim>\<open>routing_node.h\<close> and \<^verbatim>\<open>client\<close> put these together; the programs under
  \<^verbatim>\<open>tools/\<close> make a bootstrap file and keys and drive a demo node.

  \<^bold>\<open>The theories\<close>, in the order of their imports. Paths are below \<^verbatim>\<open>src/src/maidsafe/routing/\<close> and
  \<^verbatim>\<open>src/include/maidsafe/routing/\<close>. A class is a record, an operation a function of its name from the state
  to the state and the result, and what can throw gives an \<open>error\<close> or a value.

  \<^item> \<open>Routing_Prelude\<close>: errors and results; list and option facts. \<open>Ordered_Containers\<close>: \<^verbatim>\<open>std::sort\<close>,
    \<^verbatim>\<open>std::partial_sort\<close> and \<^verbatim>\<open>std::map\<close> over a comparator, in the locale \<open>strict_linear_order\<close>.
    \<open>Routing_Types\<close>: \<^verbatim>\<open>types.h\<close>, \<^verbatim>\<open>node_info.h\<close>, \<^verbatim>\<open>contact.h\<close>, \<^verbatim>\<open>endpoint_pair.h\<close>, \<^verbatim>\<open>source_address.h\<close>, the record \<open>lib\<close>
    of what is called of other packages, and its instance on addresses of 512 bits.
  \<^item> \<open>Routing_Table\<close>: the table is ordered, holds no duplicates and not ourselves in every reachable state;
    \<open>AddNode\<close> keeps the closest contacts, evicts only where allowed and follows its documented rules but for
    one place; \<open>CheckNode\<close> predicts it, also when another thread adds a contact in the middle of it; the
    size is bounded; \<open>TargetNodes\<close> gives the closest; which calls fail.
  \<^item> \<open>Accumulator\<close>: the doubly indexed store refines a list of entries; quorums are genuine and
    noticed. The locale \<open>quorum_store\<close> is its contract, and \<open>Sentinel\<close> uses only that.
  \<^item> \<open>Message_Header\<close>, \<open>Archive\<close>, \<open>Messages\<close>, \<open>Account_Transfer\<close>: the headers with their validation and order;
    codecs for every class with a \<^verbatim>\<open>serialize\<close>; what is written is read back, except where noted.
  \<^item> \<open>Sentinel\<close>: \<^verbatim>\<open>Add\<close> with its four branches; what it returns is signed by a quorum; which requests it
    makes; which errors it has. The two theorems of this theory run it on answers as the message
    classes write them.
  \<^item> \<open>Async_Queue\<close>: \<^verbatim>\<open>async_queue.h\<close> in the locale \<open>matching_queue\<close>, and \<^verbatim>\<open>async_exchange.h\<close>. \<open>Bootstrap_Handler\<close>: contacts in
    an SQLite table, with the loop over batches and the transactions.
  \<^item> \<open>Connection_Manager\<close> and \<open>Connections\<close>: state machines whose steps are the operations and the completions
    of outstanding socket operations in any order; invariants along all runs; which handler is
    called how often, and which are lost with an exception; shutting down ends.
  \<^item> \<open>Moves\<close>: the move constructors and move assignments that the classes write out. All pass every
    member on but those of \<^verbatim>\<open>GetClientKeyResponse\<close>; what that means for the sentinel is in \<open>Sentinel\<close>.
  \<^item> \<open>Message_Filter\<close>, \<open>Routing_Node\<close>, \<open>Client\<close>: the filter of messages already seen as the locale
    \<open>filtering_receiver\<close>, of which the node and the client are the two instances; the handlers of the node with
    everything they call, and of the client. What they do not achieve is proved too: a node sends nothing but
    its identity, and a client cannot ask for data.
  \<^item> \<open>Std_Strings\<close>: strings, \<^verbatim>\<open>atoi\<close> and stream extraction. \<open>Tool_Bootstrap\<close>, \<open>Tool_Node\<close>, \<open>Shared_Response\<close>,
    \<open>Tool_Commands\<close>: \<^verbatim>\<open>tools/create_bootstrap.cc\<close>, \<^verbatim>\<open>tools/key_helper.cc\<close>, \<^verbatim>\<open>tools/routing_node.cc\<close>, \<^verbatim>\<open>tools/shared_response\<close>
    and \<^verbatim>\<open>tools/commands\<close>, from the options and the lines of the standard input to the return code. The
    keys that one tool writes are the identities from which the demo nodes start. The node that the commands drive
    changes on its own, and a wait for its responses may never end.

  \<^bold>\<open>Parameters.\<close> Code that is not under \<^verbatim>\<open>src/\<close> is an argument: the records \<open>lib\<close> (addresses, fobs, keys), \<open>prims\<close>
  (codecs of library types), \<open>asio_ip\<close>, \<open>sentinel_lib\<close>, \<open>sqlite\<close>, \<open>filesystem\<close>, \<open>node_lib\<close> and \<open>lru_filter\<close>, \<open>boot_lib\<close>,
  \<open>key_lib\<close>, \<open>id_lib\<close>, \<open>demo_lib\<close>. What is relied on of them is a definition that a theorem assumes:
  \<open>closer_order\<close>, \<open>closest_to_itself\<close>, \<open>leading_bits_closer\<close>, \<open>leading_bits_range\<close>, \<open>prims_ok\<close>, \<open>asio_ok\<close>, \<open>sqlite_ok\<close>,
  \<open>filter_keeps\<close>, \<open>options_ok\<close>, \<open>key_files_ok\<close>, \<open>waits_end\<close>. Each has an instance, on which the witnesses evaluate the theorems.

  \<^bold>\<open>Widths, clocks and loops.\<close> Message ids, ports, quorums, counters and sizes are words where the code
  computes with them and can wrap; times are integers in the unit of their clock, and a clock
  reading is an argument; \<open>steps_until\<close> are the steps before a later reading. Loops over containers are structural recursion; the loops of the accumulator,
  the bootstrap handler and the menu are shown to end. Loops that need not end
  (\<open>send_loop\<close>, \<open>perf_loop\<close>, \<open>run_loop\<close>, the batches of the bootstrap handler) and waits that need not end (\<open>await\<close>) have
  no result when they do not, and where one is claimed to return, that is proved. There is no fuel.

  \<^bold>\<open>Concurrency.\<close> What a mutex or a strand protects is one step. Completions of sockets, the order of the two halves of
  an exchange, and calls back into the manager from a receive handler are interleaved freely. \<open>CheckNode\<close>
  reads the table before it takes the mutex: \<open>CheckNode_interleaved\<close> has another operation in between. An exception that leaves
  a posted operation or a completion handler ends that step alone; the handlers that users pass in do not throw. In
  \<open>Connection_Manager\<close> the constructors of sockets and acceptors do not fail; in \<open>Connections\<close> they may.

  \<^bold>\<open>Not modelled.\<close> \<^verbatim>\<open>routing_node.cc\<close> is commented out from end to end. The completion tokens of the public
  operations and the type aliases for them in \<^verbatim>\<open>types.h\<close> are left out: the code makes handlers of them and never calls
  them. Log lines, the wording of what the tools print (only the kinds of line are kept) and the state in which a
  moved-from object is left are left out.
  Sockets, SQLite, files, the option parser and \<^verbatim>\<open>GenericNode\<close> are input and output of other packages.
  The operations that the headers declare and nothing defines (\<^verbatim>\<open>Connections::Drop\<close>, \<^verbatim>\<open>TryCache\<close>,
  \<^verbatim>\<open>SendDirect\<close>, \<^verbatim>\<open>OnCloseGroupChanged\<close>, \<^verbatim>\<open>ConnectionLost\<close>) have no model.
\<close>

section \<open>The sentinel on the wire\<close>

text \<open>
  The sentinel with the answers to its requests as the message classes write them: the parsing that
  \<open>Sentinel\<close> takes as a parameter is the reading of \<open>Messages\<close>.
\<close>

lemma wire_signed: "signed_with (wire_sentinel moved P S) x k = signed_with S x k"
  by (simp add: signed_with_def wire_sentinel_def)

text \<open>
  C16. A group's message gets through. Suppose a quorum of answers to the request for the keys of the
  group \<open>g\<close> is kept, each a \<^verbatim>\<open>GetGroupKeyResponse\<close> as it is written to the wire, and that they agree: whenever
  an answer lists the address \<open>a\<close> it gives the key \<open>key a\<close>. Suppose the message kept under \<open>g\<close> and its id
  lacks one sender of a quorum. When the last sender's part arrives, all parts have the same
  payload and none is an account transfer, and each part's sender is listed in an answer with a
  valid key with which the part's signature passes, then \<open>Add\<close> returns one of the parts, and nothing is
  kept under that name any more. No assertion fails on the way, whether or not assertions are
  compiled in.
\<close>

theorem group_message_gets_through:
  assumes P: "prims_ok P" and run: "sent_run L (wire_sentinel moved P S) evs st"
    and r: "\<not> is_key_response r" "FromGroup (header_of r) = Some g"
    and ks: "GetAll (group_key_accumulator st) g = Some (g, ks)" "QuorumSize \<le> length ks"
    and answers: "\<And>x. x \<in> snd ` set ks \<Longrightarrow> payload x = enc (GetGroupKeyResponse_serialize P) (answer x)"
    and agree: "\<And>x a k. x \<in> snd ` set ks \<Longrightarrow> (a, k) \<in> set (ggkr_public_keys (answer x)) \<Longrightarrow> k = key a"
    and ms: "GetAll (group_accumulator st) (g, h_message_id (header_of r)) = Some ((g, h_message_id (header_of r)), ms)"
      "FromNode (header_of r) \<notin> fst ` set ms" "QuorumSize \<le> Suc (length ms)"
    and same: "\<And>x. x \<in> insert r (snd ` set ms) \<Longrightarrow> payload x = payload r \<and> tag_in x \<noteq> tag_AccountTransfer"
    and listed: "\<And>x. x \<in> insert r (snd ` set ms) \<Longrightarrow>
      \<exists>y \<in> snd ` set ks. FromNode (header_of x) \<in> fst ` set (ggkr_public_keys (answer y))"
    and good: "\<And>x. x \<in> insert r (snd ` set ms) \<Longrightarrow>
      ValidateKey L (key (FromNode (header_of x))) \<and> signed_with S x (key (FromNode (header_of x)))"
  shows "\<exists>st' res. Sentinel_Add L (wire_sentinel moved P S) now t st r = (st', Inr (Some res)) \<and> payload res = payload r
    \<and> res \<in> insert r (snd ` set ms) \<and> \<not> HaveName (group_accumulator st') (g, h_message_id (header_of r))"
proof -
  let ?listed = "\<Union> ((\<lambda>x. fst ` set (ggkr_public_keys (answer x))) ` snd ` set ks)"
  have "\<exists>km. collect_group_keys (wire_sentinel moved P S) ks [] = Inr km \<and> agreed key ({} \<union> ?listed) km"
  proof (rule collect_group_keys_agreed)
    show "agreed key {} []" by (simp add: agreed_def smap_wf_def ordered_by_def)
    show "\<exists>resp. parse_group_key (wire_sentinel moved P S) (payload x) = Inr resp
        \<and> fst ` set (ggkr_public_keys resp) = fst ` set (ggkr_public_keys (answer x))
        \<and> (\<forall>(a, k) \<in> set (ggkr_public_keys resp). k = key a)" if "x \<in> snd ` set ks" for x
      using wire_sentinel_parse(2) [OF P, of moved S "answer x"] answers [OF that] agree [OF that]
      by (intro exI [of _ "answer x"]) (simp add: case_prod_unfold)
  qed
  then obtain km where km: "collect_group_keys (wire_sentinel moved P S) ks [] = Inr km" "agreed key ?listed km" by auto
  show ?thesis
  proof (rule group_message_resolves [OF run r refl ks km(1) _ ms])
    show "NDEBUG L \<or> list_all (\<lambda>(_, k). length k = 1) km" using agreed_single [OF km(2)] by simp
    show "payload x = payload r \<and> tag_in x \<noteq> tag_AccountTransfer \<and> verified (wire_sentinel moved P S) (group_key_for L km) x"
      if x: "x \<in> insert r (snd ` set ms)" for x
      using same [OF x] listed [OF x] good [OF x] agreed_verified [OF km(2), of x L "wire_sentinel moved P S"]
      by (auto simp: wire_signed)
  qed
qed

text \<open>
  C17. A node's message gets through. Suppose a message of the node \<open>g\<close> is kept, and answers to the
  request for its key are kept that lack one sender of a quorum. When the last sender's answer arrives
  under the message's id, all answers are the same \<^verbatim>\<open>GetClientKeyResponse\<close> as it is written to the wire,
  its key is valid, and the message's signature passes with it, then \<open>Add\<close> returns the message, and
  nothing is kept under that name any more. It holds whether or not the parsed answers lose their
  address on the way through their move constructor (\<open>moved\<close>).
\<close>

theorem node_message_gets_through:
  assumes P: "prims_ok P" and run: "sent_run L (wire_sentinel moved P S) evs st"
    and r: "tag_in r = tag_GetClientKeyResponse" "FromGroup (header_of r) = Some g"
    and ms: "GetAll (node_accumulator st) (g, h_message_id (header_of r)) = Some ((g, h_message_id (header_of r)), ms)"
    and ks: "GetAll (node_key_accumulator st) g = Some (g, ks)" "FromNode (header_of r) \<notin> fst ` set ks"
      "QuorumSize \<le> Suc (length ks)"
    and answers: "\<And>x. x \<in> insert r (snd ` set ks) \<Longrightarrow> payload x = enc (GetClientKeyResponse_serialize P) answer"
    and good: "ValidateKey L (gckr_public_key answer)" "\<And>x. x \<in> snd ` set ms \<Longrightarrow> signed_with S x (gckr_public_key answer)"
  shows "\<exists>st' res. Sentinel_Add L (wire_sentinel moved P S) now t st r = (st', Inr (Some res)) \<and> res \<in> snd ` set ms
    \<and> \<not> HaveName (node_accumulator st') (g, h_message_id (header_of r))"
proof (rule node_message_resolves [OF run r refl ms ks _ good(1)])
  show "\<exists>kr. parse_client_key (wire_sentinel moved P S) (payload x) = Inr kr
      \<and> gckr_address kr = gckr_address (received_key_response moved answer)
      \<and> gckr_public_key kr = gckr_public_key answer"
    if "x \<in> insert r (snd ` set ks)" for x
    using wire_sentinel_parse(1) [OF P, of moved S answer] answers [OF that] by auto
  show "signed_with (wire_sentinel moved P S) x (gckr_public_key answer)" if "x \<in> snd ` set ms" for x
    using good(2) [OF that] by (simp add: wire_signed)
qed

lemma ex_wire: "wire_sentinel None nat_prims ex_sentinel_lib = ex_sentinel_lib"
  by (simp add: wire_sentinel_def ex_sentinel_lib_def received_key_response_def bindR_Inr_right)

theorem group_message_gets_through_witness:
  "\<exists>st' res. Sentinel_Add ex_lib (wire_sentinel None nat_prims ex_sentinel_lib) (\<lambda>_. 0) 0 (feed ex_history) (ex_part 19)
      = (st', Inr (Some res)) \<and> payload res = [1] \<and> \<not> HaveName (group_accumulator st') (7, 5)"
proof -
  let ?ms = "map (\<lambda>i. (i, ex_part i)) [1..<19]" and ?ks = "map (\<lambda>i. (i, ex_group_key i)) [1..<20]"
  let ?answer = "\<lambda>x :: (nat, nat) ResultType. \<lparr>ggkr_public_keys = [(FromNode (header_of x), FromNode (header_of x))], ggkr_target_id = 7\<rparr>"
  have part: "\<exists>i. x = ex_part i \<and> 1 \<le> i \<and> i < 20" if "x \<in> insert (ex_part 19) (snd ` set ?ms)" for x
    using that by (auto simp del: upt.simps)
  have id: "h_message_id (header_of (ex_part 19)) = 5" by (simp add: ex_simps)
  have "\<exists>st' res. Sentinel_Add ex_lib (wire_sentinel None nat_prims ex_sentinel_lib) (\<lambda>_. 0) 0 (feed ex_history) (ex_part 19)
      = (st', Inr (Some res)) \<and> payload res = payload (ex_part 19) \<and> res \<in> insert (ex_part 19) (snd ` set ?ms)
    \<and> \<not> HaveName (group_accumulator st') (7, h_message_id (header_of (ex_part 19)))"
  proof (rule group_message_gets_through [OF nat_prims_ok _ _ _ ex_history_keys, where answer = ?answer and key = "\<lambda>a. a"])
    show "sent_run ex_lib (wire_sentinel None nat_prims ex_sentinel_lib) ex_history (feed ex_history)"
      unfolding ex_wire by (rule feed_run)
    show "\<exists>y \<in> snd ` set ?ks. FromNode (header_of x) \<in> fst ` set (ggkr_public_keys (?answer y))"
      if x: "x \<in> insert (ex_part 19) (snd ` set ?ms)" for x
    proof -
      obtain i where "x = ex_part i" "1 \<le> i" "i < 20" using part [OF x] by blast
      moreover from this have "ex_group_key i \<in> snd ` set ?ks" by (auto simp: image_image simp del: upt.simps)
      ultimately show ?thesis by (intro bexI [of _ "ex_group_key i"]) (simp_all add: ex_simps del: upt.simps)
    qed
    show "payload x = payload (ex_part 19) \<and> tag_in x \<noteq> tag_AccountTransfer"
      if "x \<in> insert (ex_part 19) (snd ` set ?ms)" for x
      using part [OF that] by (auto simp: ex_simps)
    show "ValidateKey ex_lib (FromNode (header_of x)) \<and> signed_with ex_sentinel_lib x (FromNode (header_of x))"
      if "x \<in> insert (ex_part 19) (snd ` set ?ms)" for x
      using part [OF that] by (auto simp: ex_simps ex_lib_def ex_sentinel_lib_def signed_with_def)
    show "GetAll (group_accumulator (feed ex_history)) (7, h_message_id (header_of (ex_part 19)))
        = Some ((7, h_message_id (header_of (ex_part 19))), ?ms)"
      unfolding id by (rule ex_history_parts)
  qed (auto simp: ex_simps is_key_response_def QuorumSize_def simp del: upt.simps)
  then show ?thesis unfolding id by (auto simp: ex_part_def)
qed

theorem node_message_gets_through_witness:
  "\<exists>st' res. Sentinel_Add ex_lib (wire_sentinel None nat_prims ex_sentinel_lib) (\<lambda>_. 0) 0
      (feed (ex_node_history [1..<19])) (ex_client_key 19) = (st', Inr (Some res))
    \<and> res = ex_node_message \<and> \<not> HaveName (node_accumulator st') (7, 5)"
proof -
  obtain ms where ms: "GetAll (node_accumulator (feed (ex_node_history [1..<19]))) (7, 5) = Some ((7, 5), ms)"
    "snd ` set ms = {ex_node_message}"
    using ex_node_history_kept by blast
  have id: "h_message_id (header_of (ex_client_key 19)) = 5" by (simp add: ex_simps)
  have "\<exists>st' res. Sentinel_Add ex_lib (wire_sentinel None nat_prims ex_sentinel_lib) (\<lambda>_. 0) 0
      (feed (ex_node_history [1..<19])) (ex_client_key 19) = (st', Inr (Some res)) \<and> res \<in> snd ` set ms
    \<and> \<not> HaveName (node_accumulator st') (7, h_message_id (header_of (ex_client_key 19)))"
  proof (rule node_message_gets_through [OF nat_prims_ok _ _ _ _ ex_node_keys,
        where answer = "\<lparr>gckr_address = 1, gckr_public_key = 1\<rparr>"])
    show "sent_run ex_lib (wire_sentinel None nat_prims ex_sentinel_lib) (ex_node_history [1..<19]) (feed (ex_node_history [1..<19]))"
      unfolding ex_wire by (rule feed_run)
    show "signed_with ex_sentinel_lib x (gckr_public_key \<lparr>gckr_address = 1, gckr_public_key = 1\<rparr>)" if "x \<in> snd ` set ms" for x
      using that ms(2) by (simp add: signed_with_def ex_simps ex_sentinel_lib_def)
    show "GetAll (node_accumulator (feed (ex_node_history [1..<19]))) (7, h_message_id (header_of (ex_client_key 19)))
        = Some ((7, h_message_id (header_of (ex_client_key 19))), ms)"
      unfolding id by (rule ms(1))
  qed (auto simp: ex_simps ex_lib_def QuorumSize_def simp del: upt.simps)
  then show ?thesis unfolding id ms(2) by simp
qed

end
